(* ===== verification/Prelude.thy ===== *)
theory Prelude
  imports
    Complex_Main
    "HOL-Library.AList"
    "HOL-Library.Finite_Map"
    "HOL-Library.Char_ord"
    "HOL-Library.List_Lexorder"
    "HOL-Library.Sublist"
begin

text \<open>
  Shared vocabulary of the development: identifiers, the errors the program raises, Python
  dictionaries, and the generic lemmas on lists, sorting and dictionaries that the component
  theories use.

  \<^item> A Python dictionary whose iteration order is observable is an association list with
    distinct keys (\<open>dict\<close>): \<open>AList.update\<close> writes in place or appends, as
    \<open>d[k] = v\<close> does, and \<open>AList.delete\<close> is \<open>del d[k]\<close>.
  \<^item> A mapping whose order is never observable is a finite map (\<open>fmap\<close>).
  \<^item> A raised exception is the left summand of \<open>'a res\<close>; the text of an exception or of a
    diagnostic is its template together with the interpolated values.
\<close>

section \<open>Identifiers, errors and results\<close>

text \<open>
  A \<open>UUID\<close> is its 128-bit integer value. The program compares identifiers for equality and
  sorts them by their canonical text; theory \<open>Identifiers\<close> proves that this text order is
  the numeric order.
\<close>

type_synonym uuid = nat

datatype msg_arg =
    ArgId uuid
  | ArgStr string
  | ArgInt int
  | ArgStrs "string list"

datatype message = Msg string "msg_arg list"

text \<open>\<open>"; ".join(messages)\<close>\<close>

fun join_messages :: "message list \<Rightarrow> message" where
  "join_messages [] = Msg [] []"
| "join_messages [m] = m"
| "join_messages (Msg t args # ms) =
     (case join_messages ms of Msg t' args' \<Rightarrow> Msg (t @ ''; '' @ t') (args @ args'))"

datatype py_error =
    ValueError message
  | KeyError message
  | TypeError message
  | RuntimeError message
  | OverflowError message
  | RecursionError

type_synonym 'a res = "py_error + 'a"

definition bind_res :: "'e + 'a \<Rightarrow> ('a \<Rightarrow> 'e + 'b) \<Rightarrow> 'e + 'b" where
  "bind_res r f = (case r of Inl e \<Rightarrow> Inl e | Inr x \<Rightarrow> f x)"

lemma bind_res_simps [simp]:
  "bind_res (Inl e) f = Inl e"
  "bind_res (Inr x) f = f x"
  by (simp_all add: bind_res_def)

lemma bind_res_eq_Inr: "bind_res r f = Inr y \<longleftrightarrow> (\<exists>x. r = Inr x \<and> f x = Inr y)"
  by (cases r) simp_all

lemma bind_res_eq_Inl: "bind_res r f = Inl e \<longleftrightarrow> r = Inl e \<or> (\<exists>x. r = Inr x \<and> f x = Inl e)"
  by (cases r) simp_all

text \<open>A statement sequence that may raise in the middle: the loop \<open>for x in xs: s = f(x, s)\<close>.\<close>

fun foldM :: "('a \<Rightarrow> 's \<Rightarrow> 'e + 's) \<Rightarrow> 'a list \<Rightarrow> 's \<Rightarrow> 'e + 's" where
  "foldM f [] s = Inr s"
| "foldM f (x # xs) s = bind_res (f x s) (foldM f xs)"

lemma foldM_append: "foldM f (xs @ ys) s = bind_res (foldM f xs s) (foldM f ys)"
  by (induction xs arbitrary: s) (auto simp: bind_res_def split: sum.splits)

lemma foldM_invariant:
  assumes "foldM f xs s = Inr s'" and "P s"
    and "\<And>x s s'. x \<in> set xs \<Longrightarrow> P s \<Longrightarrow> f x s = Inr s' \<Longrightarrow> P s'"
  shows "P s'"
  using assms
proof (induction xs arbitrary: s)
  case Nil
  then show ?case by simp
next
  case (Cons x xs)
  from Cons.prems(1) obtain t where t: "f x s = Inr t" "foldM f xs t = Inr s'"
    by (auto simp: bind_res_eq_Inr)
  show ?case
    by (rule Cons.IH [OF t(2)]) (use Cons.prems(2,3) t(1) in auto)
qed

text \<open>A comprehension whose element expression may raise.\<close>

fun mapM :: "('a \<Rightarrow> 'e + 'b) \<Rightarrow> 'a list \<Rightarrow> 'e + 'b list" where
  "mapM f [] = Inr []"
| "mapM f (x # xs) = bind_res (f x) (\<lambda>y. bind_res (mapM f xs) (\<lambda>ys. Inr (y # ys)))"

lemma mapM_eq_Inr: "mapM f xs = Inr ys \<longleftrightarrow> list_all2 (\<lambda>x y. f x = Inr y) xs ys"
proof (induction xs arbitrary: ys)
  case (Cons x xs)
  then show ?case by (cases ys) (auto simp: bind_res_eq_Inr)
qed auto

lemma mapM_total: "(\<And>x. x \<in> set xs \<Longrightarrow> \<exists>y. f x = Inr y) \<Longrightarrow> \<exists>ys. mapM f xs = Inr ys"
proof (induction xs)
  case (Cons x xs)
  then obtain y ys where "f x = Inr y" "mapM f xs = Inr ys" by fastforce
  then show ?case by simp
qed simp

lemma find_SomeD: "List.find P xs = Some x \<Longrightarrow> x \<in> set xs \<and> P x"
  by (auto simp: find_Some_iff)

section \<open>Hints shared by the component theories\<close>

named_theorems dict_simps \<open>lookup and key facts of dictionaries\<close>

named_theorems sort_simps \<open>facts on sorted enumerations\<close>

section \<open>Ordered dictionaries\<close>

type_synonym ('k, 'v) dict = "('k \<times> 'v) list"

abbreviation dict_get :: "('k, 'v) dict \<Rightarrow> 'k \<Rightarrow> 'v option" where
  "dict_get d k \<equiv> map_of d k"

abbreviation dict_set :: "'k \<Rightarrow> 'v \<Rightarrow> ('k, 'v) dict \<Rightarrow> ('k, 'v) dict" where
  "dict_set \<equiv> AList.update"

abbreviation dict_del :: "'k \<Rightarrow> ('k, 'v) dict \<Rightarrow> ('k, 'v) dict" where
  "dict_del \<equiv> AList.delete"

abbreviation dict_keys :: "('k, 'v) dict \<Rightarrow> 'k list" where
  "dict_keys d \<equiv> map fst d"

definition dict_ok :: "('k, 'v) dict \<Rightarrow> bool" where
  "dict_ok d \<longleftrightarrow> distinct (dict_keys d)"

text \<open>\<open>d.setdefault(k, v)\<close> without its result, and \<open>dict(pairs)\<close>.\<close>

definition dict_setdefault :: "'k \<Rightarrow> 'v \<Rightarrow> ('k, 'v) dict \<Rightarrow> ('k, 'v) dict" where
  "dict_setdefault k v d = (case map_of d k of None \<Rightarrow> d @ [(k, v)] | Some _ \<Rightarrow> d)"

definition dict_of_pairs :: "('k \<times> 'v) list \<Rightarrow> ('k, 'v) dict" where
  "dict_of_pairs ps = fold (\<lambda>(k, v). AList.update k v) ps []"

lemma dict_ok_Nil [simp, intro]: "dict_ok []"
  by (simp add: dict_ok_def)

lemma dict_ok_set [simp, intro]: "dict_ok d \<Longrightarrow> dict_ok (dict_set k v d)"
  by (simp add: dict_ok_def distinct_update)

lemma dict_ok_del [simp, intro]: "dict_ok d \<Longrightarrow> dict_ok (dict_del k d)"
  by (simp add: dict_ok_def distinct_delete)

lemma dict_ok_filter [simp, intro]: "dict_ok d \<Longrightarrow> dict_ok (filter p d)"
  by (simp add: dict_ok_def distinct_map_filter)

lemma dict_ok_setdefault [simp, intro]: "dict_ok d \<Longrightarrow> dict_ok (dict_setdefault k v d)"
  by (auto simp: dict_ok_def dict_setdefault_def map_of_eq_None_iff split: option.splits)

lemma dict_get_set [simp, dict_simps]:
  "dict_get (dict_set k v d) k' = (if k' = k then Some v else dict_get d k')"
  by (simp add: update_conv')

lemma dict_get_del [simp, dict_simps]:
  "dict_get (dict_del k d) k' = (if k' = k then None else dict_get d k')"
  by (simp add: delete_conv')

lemma dict_get_setdefault [dict_simps]:
  "dict_get (dict_setdefault k v d) k' =
    (if k' = k then Some (case dict_get d k of None \<Rightarrow> v | Some w \<Rightarrow> w) else dict_get d k')"
  by (auto simp: dict_setdefault_def map_add_def split: option.splits)

lemma dict_keys_set [simp, dict_simps]: "fst ` set (dict_set k v d) = insert k (fst ` set d)"
  by (simp add: dom_update)

lemma dict_keys_del [simp, dict_simps]: "fst ` set (dict_del k d) = fst ` set d - {k}"
  using delete_keys [of k d] by (metis set_map set_removeAll)

lemma dict_keys_setdefault [simp, dict_simps]:
  "fst ` set (dict_setdefault k v d) = insert k (fst ` set d)"
  by (auto simp: dict_setdefault_def split: option.splits dest: map_of_SomeD)
     (metis fst_conv image_eqI map_of_SomeD)

lemma dict_get_in_keys: "dict_get d k = Some v \<Longrightarrow> k \<in> fst ` set d"
  by (auto dest: map_of_SomeD intro!: image_eqI [of _ fst "(k, v)"])

lemma dict_get_None_iff: "dict_get d k = None \<longleftrightarrow> k \<notin> fst ` set d"
  by (simp add: map_of_eq_None_iff)

lemma dict_keys_filter:
  "fst ` set (filter (\<lambda>(k, v). p k) d) = {k \<in> fst ` set d. p k}"
  by force

lemma dict_get_eq_Some: "dict_ok d \<Longrightarrow> dict_get d k = Some v \<longleftrightarrow> (k, v) \<in> set d"
  by (simp add: dict_ok_def)

lemma dict_get_filter:
  assumes "dict_ok d"
  shows "dict_get (filter p d) k =
    (case dict_get d k of None \<Rightarrow> None | Some v \<Rightarrow> if p (k, v) then Some v else None)"
proof -
  have eq: "map_of (filter p d) k = Some v \<longleftrightarrow> map_of d k = Some v \<and> p (k, v)" for v
    using assms by (simp add: dict_get_eq_Some del: map_of_eq_Some_iff)
  show ?thesis
  proof (cases "map_of d k")
    case None
    then have "map_of (filter p d) k = None" by (metis eq not_None_eq)
    with None show ?thesis by simp
  next
    case (Some v)
    then have "map_of (filter p d) k = (if p (k, v) then Some v else None)"
      by (metis eq not_None_eq option.inject)
    with Some show ?thesis by simp
  qed
qed

section \<open>Sorted enumerations\<close>

text \<open>
  \<open>tuple(m[key] for key in sorted(m, key=str))\<close>: the values of a finite map in key order.
\<close>

definition sorted_values :: "('k::linorder, 'v) fmap \<Rightarrow> 'v list" where
  "sorted_values m = map snd (sorted_list_of_fmap m)"

lemma sorted_list_of_fmap_iff [sort_simps]:
  "(k, v) \<in> set (sorted_list_of_fmap m) \<longleftrightarrow> fmlookup m k = Some v"
  by (auto simp: sorted_list_of_fmap_def sorted_list_of_fset.rep_eq image_iff fmdom'_alt_def
      fmlookup_dom_iff)

lemma map_fst_sorted_list_of_fmap [sort_simps]:
  "map fst (sorted_list_of_fmap m) = sorted_list_of_fset (fmdom m)"
  by (simp add: sorted_list_of_fmap_def comp_def)

lemma distinct_sorted_list_of_fmap [sort_simps]:
  "distinct (map fst (sorted_list_of_fmap m))"
  by (simp add: map_fst_sorted_list_of_fmap sorted_list_of_fset.rep_eq)

lemma sorted_sorted_list_of_fmap [sort_simps]:
  "sorted (map fst (sorted_list_of_fmap m))"
  by (simp add: map_fst_sorted_list_of_fmap sorted_list_of_fset.rep_eq)

lemma fmap_of_sorted_list [simp]: "fmap_of_list (sorted_list_of_fmap m) = m"
  by (rule fmap_ext) (simp add: fmlookup_of_list)

lemma set_sorted_values [sort_simps]: "v \<in> set (sorted_values m) \<longleftrightarrow> v \<in> fmran' m"
  by (auto simp: sorted_values_def fmran'_alt_def fmlookup_ran_iff image_iff
      sorted_list_of_fmap_iff Bex_def)

lemma distinct_sorted_values:
  assumes "\<And>k x. fmlookup m k = Some x \<Longrightarrow> key x = k"
  shows "distinct (map key (sorted_values m))"
proof -
  have "map (\<lambda>x. key (snd x)) (sorted_list_of_fmap m) = map fst (sorted_list_of_fmap m)"
    using assms by (intro map_cong) (auto simp: sorted_list_of_fmap_iff)
  moreover have "map key (sorted_values m) = map (\<lambda>x. key (snd x)) (sorted_list_of_fmap m)"
    by (simp add: sorted_values_def)
  ultimately show ?thesis by (simp only: distinct_sorted_list_of_fmap)
qed

lemma distinct_filter_map_snd:
  "distinct (map fst xs) \<Longrightarrow> distinct (map fst (filter p xs))"
  by (rule distinct_map_filter)

text \<open>Python's \<open>sorted\<close> is stable: \<open>sort_key\<close>.\<close>

lemma sorted_sort_key' [sort_simps]: "sorted (map f (sort_key f xs))"
  by simp

end
