(* ===== verification/Float64.thy ===== *)
theory Float64
  imports Prelude
begin

text \<open>
  Python floats. A finite value is the rational it denotes (signed zeros are identified), beside
  the two infinities and NaN. Comparison, minimum and maximum are exact; an arithmetic result is
  rounded to binary64, to nearest and ties to even, by \<open>fl\<close>. Results beyond the largest
  finite value are outside the model: every use in the program stays below it.
  The contract that the clients need (monotone, exact on integers below $2^{53}$) is the locale
  \<open>float_rounding\<close>, interpreted on \<open>fl\<close>.
\<close>

datatype pyfloat = Fin rat | PosInf | NegInf | NaN

fun is_finite :: "pyfloat \<Rightarrow> bool" where
  "is_finite (Fin _) = True"
| "is_finite _ = False"

text \<open>\<open>a < b\<close> and \<open>a == b\<close> on floats; NaN is unordered and unequal to itself.\<close>

fun pf_less :: "pyfloat \<Rightarrow> pyfloat \<Rightarrow> bool" where
  "pf_less (Fin a) (Fin b) = (a < b)"
| "pf_less NaN _ = False"
| "pf_less _ NaN = False"
| "pf_less PosInf _ = False"
| "pf_less _ PosInf = True"
| "pf_less _ NegInf = False"
| "pf_less NegInf _ = True"

fun pf_eq :: "pyfloat \<Rightarrow> pyfloat \<Rightarrow> bool" where
  "pf_eq (Fin a) (Fin b) = (a = b)"
| "pf_eq PosInf PosInf = True"
| "pf_eq NegInf NegInf = True"
| "pf_eq _ _ = False"

lemma pf_eq_refl_iff: "pf_eq a a \<longleftrightarrow> a \<noteq> NaN"
  by (cases a) auto

lemma pf_eq_iff: "pf_eq a b \<longleftrightarrow> a = b \<and> a \<noteq> NaN"
  by (cases a; cases b) auto

section \<open>Rounding to an integer\<close>

text \<open>\<open>round(x)\<close>: to nearest, ties to even.\<close>

definition round_half_even :: "rat \<Rightarrow> int" where
  "round_half_even x = (let f = \<lfloor>x\<rfloor>; d = x - of_int f in
     if d < 1/2 then f else if 1/2 < d then f + 1 else if even f then f else f + 1)"

lemma round_half_even_of_int [simp]: "round_half_even (of_int n) = n"
  by (simp add: round_half_even_def)

lemma round_half_even_bounds:
  "x - 1/2 \<le> of_int (round_half_even x)" "of_int (round_half_even x) \<le> x + 1/2"
proof -
  have "of_int \<lfloor>x\<rfloor> \<le> x" "x < of_int \<lfloor>x\<rfloor> + 1" by linarith+
  then show "x - 1/2 \<le> of_int (round_half_even x)" "of_int (round_half_even x) \<le> x + 1/2"
    unfolding round_half_even_def Let_def by (simp_all split: if_split) linarith+
qed

lemma round_half_even_mono:
  assumes "x \<le> y"
  shows "round_half_even x \<le> round_half_even y"
proof (cases "\<lfloor>x\<rfloor> = \<lfloor>y\<rfloor>")
  case True
  with assms show ?thesis by (auto simp: round_half_even_def Let_def)
next
  case False
  with assms have less: "\<lfloor>x\<rfloor> + 1 \<le> \<lfloor>y\<rfloor>"
    by (metis floor_mono order_le_imp_less_or_eq zless_imp_add1_zle)
  have "round_half_even x \<le> \<lfloor>x\<rfloor> + 1" "\<lfloor>y\<rfloor> \<le> round_half_even y"
    by (auto simp: round_half_even_def Let_def)
  with less show ?thesis by linarith
qed

lemma floor_minus_rat: "\<lfloor>- x\<rfloor> = (if x = of_int \<lfloor>x\<rfloor> then - \<lfloor>x\<rfloor> else - \<lfloor>x\<rfloor> - 1)" for x :: rat
proof (cases "x = of_int \<lfloor>x\<rfloor>")
  case True
  then have "\<lfloor>- x\<rfloor> = \<lfloor>of_int (- \<lfloor>x\<rfloor>) :: rat\<rfloor>" by simp
  then have "\<lfloor>- x\<rfloor> = - \<lfloor>x\<rfloor>" by linarith
  with True show ?thesis by simp
next
  case False
  then have "\<lfloor>- x\<rfloor> = - \<lfloor>x\<rfloor> - 1"
    by (intro floor_unique) (auto simp: less_le, linarith+)
  with False show ?thesis by simp
qed

lemma round_half_even_minus: "round_half_even (- x) = - round_half_even x"
proof (cases "x = of_int \<lfloor>x\<rfloor>")
  case True
  then have "round_half_even (- x) = round_half_even (of_int (- \<lfloor>x\<rfloor>))"
    and "round_half_even x = round_half_even (of_int \<lfloor>x\<rfloor>)" by (metis of_int_minus)+
  then show ?thesis by (simp only: round_half_even_of_int)
next
  case False
  have fl: "\<lfloor>- x\<rfloor> = - \<lfloor>x\<rfloor> - 1" using False by (simp add: floor_minus_rat)
  have "- x - of_int \<lfloor>- x\<rfloor> = 1 - (x - of_int \<lfloor>x\<rfloor>)" by (simp add: fl)
  then show ?thesis
    by (auto simp: round_half_even_def Let_def fl)
qed

section \<open>Rounding to binary64\<close>

function ilog2 :: "int \<Rightarrow> int" where
  "ilog2 n = (if n < 2 then 0 else 1 + ilog2 (n div 2))"
  by pat_completeness auto
termination
  by (relation "measure nat") auto

declare ilog2.simps [simp del]

lemma ilog2_bounds:
  "0 < n \<Longrightarrow> 0 \<le> ilog2 n \<and> 2 ^ nat (ilog2 n) \<le> n \<and> n < 2 ^ Suc (nat (ilog2 n))"
proof (induction n rule: ilog2.induct)
  case (1 n)
  show ?case
  proof (cases "n < 2")
    case True
    with \<open>0 < n\<close> show ?thesis by (simp add: ilog2.simps [of n])
  next
    case False
    let ?k = "nat (ilog2 (n div 2))"
    from 1 False have IH: "0 \<le> ilog2 (n div 2)" "2 ^ ?k \<le> n div 2" "n div 2 < 2 ^ Suc ?k" by simp_all
    from False IH(1) have "nat (ilog2 n) = Suc ?k" "0 \<le> ilog2 n"
      by (simp_all add: ilog2.simps [of n] nat_add_distrib)
    moreover have "2 * 2 ^ ?k \<le> n" "n < 2 * 2 ^ Suc ?k" using IH(2,3) by linarith+
    ultimately show ?thesis by simp
  qed
qed

text \<open>The binary exponent $\lfloor \log_2 x \rfloor$ of a positive rational.\<close>

definition exponent :: "rat \<Rightarrow> int" where
  "exponent x = (case quotient_of x of (a, b) \<Rightarrow>
     let k = ilog2 a - ilog2 b in
     if 2 powi k \<le> x then k else k - 1)"

lemma powi_add_int: "(2::rat) powi (i + int n) = 2 powi i * 2 ^ n"
  by (simp add: power_int_add)

lemma exponent_bounds:
  assumes "0 < x"
  shows "2 powi exponent x \<le> x" and "x < 2 powi (exponent x + 1)"
proof -
  obtain a b where q: "quotient_of x = (a, b)" by (cases "quotient_of x")
  then have b: "0 < b" and x: "x = of_int a / of_int b"
    by (auto simp: quotient_of_denom_pos quotient_of_div)
  with assms have a: "0 < a" by (simp add: zero_less_divide_iff)
  obtain i j where i: "ilog2 a = int i" and j: "ilog2 b = int j"
    using ilog2_bounds [OF a] ilog2_bounds [OF b] by (metis nonneg_int_cases)
  let ?k = "int i - int j"
  have A: "(2::rat) ^ i \<le> of_int a" "of_int a < (2::rat) ^ Suc i"
    and B: "(2::rat) ^ j \<le> of_int b" "of_int b < (2::rat) ^ Suc j"
    using ilog2_bounds [OF a] ilog2_bounds [OF b] unfolding i j nat_int
    by (metis of_int_le_iff of_int_less_iff of_int_numeral of_int_power)+
  have lo: "(2::rat) powi (?k - 1) < x"
  proof -
    have "(2::rat) powi (?k - 1) = 2 ^ i / 2 ^ Suc j"
      by (simp add: power_int_diff power_int_add)
    also have "\<dots> < of_int a / of_int b"
      using A B a b by (intro frac_less2) auto
    finally show ?thesis by (simp add: x)
  qed
  have hi: "x < (2::rat) powi (?k + 1)"
  proof -
    have "of_int a / of_int b < (2::rat) ^ Suc i / 2 ^ j"
      using A B a b by (intro frac_less) auto
    also have "\<dots> = 2 powi (?k + 1)"
      by (simp add: power_int_diff power_int_add)
    finally show ?thesis by (simp add: x)
  qed
  show "2 powi exponent x \<le> x" "x < 2 powi (exponent x + 1)"
    using lo hi by (auto simp: exponent_def q i j Let_def)
qed

lemma exponent_mono:
  assumes "0 < x" and "x \<le> y"
  shows "exponent x \<le> exponent y"
proof (rule ccontr)
  assume "\<not> ?thesis"
  then have "(2::rat) powi (exponent y + 1) \<le> 2 powi exponent x"
    by (intro power_int_increasing) auto
  with exponent_bounds [of x] exponent_bounds [of y] assms show False by linarith
qed

text \<open>The spacing of binary64 values around \<open>x\<close>, and the rounding of an exact result.\<close>

definition ulp_exp :: "rat \<Rightarrow> int" where
  "ulp_exp x = max (exponent x - 52) (-1074)"

definition fl_pos :: "rat \<Rightarrow> rat" where
  "fl_pos x = of_int (round_half_even (x / 2 powi ulp_exp x)) * 2 powi ulp_exp x"

definition fl :: "rat \<Rightarrow> rat" where
  "fl x = (if x = 0 then 0 else if 0 < x then fl_pos x else - fl_pos (- x))"

lemma fl_pos_nonneg: "0 < x \<Longrightarrow> 0 \<le> fl_pos x"
  using round_half_even_mono [of 0 "x / 2 powi ulp_exp x"] round_half_even_of_int [of 0]
  by (simp add: fl_pos_def)

text \<open>A power of two on the grid bounds the rounded value as it bounds the exact one.\<close>

lemma fl_pos_le_power:
  assumes "x \<le> 2 powi e" and "ulp_exp x \<le> e"
  shows "fl_pos x \<le> 2 powi e"
proof -
  let ?u = "ulp_exp x"
  have split: "(2::rat) powi e = of_int (2 ^ nat (e - ?u)) * 2 powi ?u"
    using powi_add_int [of ?u "nat (e - ?u)"] assms(2) by (simp add: mult.commute)
  have "x / 2 powi ?u \<le> of_int (2 ^ nat (e - ?u))"
    using assms(1) unfolding split by (simp add: pos_divide_le_eq)
  then have "round_half_even (x / 2 powi ?u) \<le> 2 ^ nat (e - ?u)"
    by (metis round_half_even_mono round_half_even_of_int)
  then have "of_int (round_half_even (x / 2 powi ?u)) \<le> (of_int (2 ^ nat (e - ?u)) :: rat)"
    by (simp only: of_int_le_iff)
  then show ?thesis unfolding fl_pos_def split by (intro mult_right_mono) auto
qed

lemma fl_pos_ge_power:
  assumes "2 powi e \<le> x" and "ulp_exp x \<le> e"
  shows "2 powi e \<le> fl_pos x"
proof -
  let ?u = "ulp_exp x"
  have split: "(2::rat) powi e = of_int (2 ^ nat (e - ?u)) * 2 powi ?u"
    using powi_add_int [of ?u "nat (e - ?u)"] assms(2) by (simp add: mult.commute)
  have "of_int (2 ^ nat (e - ?u)) \<le> x / 2 powi ?u"
    using assms(1) unfolding split by (simp add: pos_le_divide_eq)
  then have "2 ^ nat (e - ?u) \<le> round_half_even (x / 2 powi ?u)"
    by (metis round_half_even_mono round_half_even_of_int)
  then have "of_int (2 ^ nat (e - ?u)) \<le> (of_int (round_half_even (x / 2 powi ?u)) :: rat)"
    by (simp only: of_int_le_iff)
  then show ?thesis unfolding fl_pos_def split by (intro mult_right_mono) auto
qed

lemma fl_pos_mono:
  assumes "0 < x" and "x \<le> y"
  shows "fl_pos x \<le> fl_pos y"
proof (cases "ulp_exp x = ulp_exp y")
  case True
  have "round_half_even (x / 2 powi ulp_exp y) \<le> round_half_even (y / 2 powi ulp_exp y)"
    using assms by (intro round_half_even_mono divide_right_mono) auto
  with True show ?thesis by (simp add: fl_pos_def)
next
  case False
  have ex: "exponent x \<le> exponent y" using assms by (rule exponent_mono)
  with False have u: "ulp_exp x < ulp_exp y" "ulp_exp y = exponent y - 52"
      "exponent x < exponent y"
    by (auto simp: ulp_exp_def max_def split: if_splits)
  have "x < 2 powi (exponent x + 1)" using assms by (intro exponent_bounds)
  also have "\<dots> \<le> 2 powi exponent y" using u by (intro power_int_increasing) auto
  finally have "fl_pos x \<le> 2 powi exponent y" using u by (intro fl_pos_le_power) auto
  also have "\<dots> \<le> fl_pos y"
    using assms exponent_bounds [of y] u by (intro fl_pos_ge_power) auto
  finally show ?thesis .
qed

lemma fl_mono:
  assumes "x \<le> y"
  shows "fl x \<le> fl y"
proof -
  consider "0 < x" | "x = 0" | "x < 0" "y < 0" | "x < 0" "0 \<le> y" by linarith
  then show ?thesis
  proof cases
    case 3
    with assms show ?thesis using fl_pos_mono [of "- y" "- x"] by (simp add: fl_def)
  next
    case 4
    then show ?thesis
      using fl_pos_nonneg [of "- x"] fl_pos_nonneg [of y] by (auto simp: fl_def)
  qed (use assms fl_pos_mono [of x y] fl_pos_nonneg [of y] in \<open>auto simp: fl_def\<close>)
qed

lemma fl_pos_of_nat:
  assumes "0 < n" and "n \<le> 2 ^ 53"
  shows "fl_pos (of_nat n) = of_nat n"
proof -
  let ?x = "of_nat n :: rat"
  have pos: "0 < ?x" using assms by simp
  have "exponent ?x \<le> 53"
  proof (rule ccontr)
    assume "\<not> ?thesis"
    then have "(2::rat) powi 54 \<le> 2 powi exponent ?x" by (intro power_int_increasing) auto
    with exponent_bounds(1) [OF pos] have "(2::rat) powi 54 \<le> ?x" by linarith
    moreover have "?x \<le> of_nat (2 ^ 53)" using assms(2) by (simp only: of_nat_le_iff)
    ultimately show False by simp
  qed
  then have u: "ulp_exp ?x \<le> 1" by (simp add: ulp_exp_def)
  show ?thesis
  proof (cases "ulp_exp ?x \<le> 0")
    case True
    have "(2::rat) powi (- ulp_exp ?x) = of_int (2 ^ nat (- ulp_exp ?x))"
      using True by (simp add: power_int_def)
    then have "?x / 2 powi ulp_exp ?x = of_int (int n * 2 ^ nat (- ulp_exp ?x))"
      by (simp add: power_int_minus field_simps)
    then have "round_half_even (?x / 2 powi ulp_exp ?x) = int n * 2 ^ nat (- ulp_exp ?x)"
      by (simp only: round_half_even_of_int)
    then have "fl_pos ?x = of_nat n * (2 powi (- ulp_exp ?x) * 2 powi ulp_exp ?x)"
      using \<open>2 powi (- ulp_exp ?x) = of_int (2 ^ nat (- ulp_exp ?x))\<close>
      by (simp add: fl_pos_def)
    then show ?thesis by (simp add: power_int_minus)
  next
    case False
    with u have e1: "ulp_exp ?x = 1" by linarith
    then have "exponent ?x = 53" by (auto simp: ulp_exp_def max_def split: if_splits)
    with exponent_bounds(1) [OF pos] have "(2::rat) ^ 53 \<le> ?x" by (simp add: power_int_def)
    then have "(of_nat (2 ^ 53) :: rat) \<le> of_nat n" by simp
    then have "2 ^ 53 \<le> n" by (simp only: of_nat_le_iff)
    with assms(2) have n: "n = 2 ^ 53" by (rule antisym)
    have "?x / 2 powi ulp_exp ?x = ?x / 2" by (simp only: e1 power_int_1_right)
    also have "\<dots> = of_int (2 ^ 52)" by (simp add: n)
    finally have "round_half_even (?x / 2 powi ulp_exp ?x) = 2 ^ 52"
      by (simp only: round_half_even_of_int)
    then have "fl_pos ?x = of_int (2 ^ 52) * 2 powi ulp_exp ?x"
      by (simp only: fl_pos_def)
    then show ?thesis by (simp only: e1) (simp add: n)
  qed
qed

lemma fl_of_int:
  assumes "\<bar>n\<bar> \<le> 2 ^ 53"
  shows "fl (of_int n) = of_int n"
proof -
  consider "n = 0" | "0 < n" | "n < 0" by linarith
  then show ?thesis
  proof cases
    case 2
    then show ?thesis using fl_pos_of_nat [of "nat n"] assms by (simp add: fl_def nat_le_iff)
  next
    case 3
    then show ?thesis using fl_pos_of_nat [of "nat (- n)"] assms by (simp add: fl_def nat_le_iff)
  qed (simp add: fl_def)
qed

section \<open>The contract of rounding\<close>

locale float_rounding =
  fixes rnd :: "rat \<Rightarrow> rat"
  assumes rnd_mono: "x \<le> y \<Longrightarrow> rnd x \<le> rnd y"
    and rnd_int: "\<bar>n\<bar> \<le> 2 ^ 53 \<Longrightarrow> rnd (of_int n) = of_int n"
begin

lemma rnd_ge_int: "\<bar>n\<bar> \<le> 2 ^ 53 \<Longrightarrow> of_int n \<le> x \<Longrightarrow> of_int n \<le> rnd x"
  by (metis rnd_int rnd_mono)

lemma rnd_le_int: "\<bar>n\<bar> \<le> 2 ^ 53 \<Longrightarrow> x \<le> of_int n \<Longrightarrow> rnd x \<le> of_int n"
  by (metis rnd_int rnd_mono)

lemma rnd_nonneg: "0 \<le> x \<Longrightarrow> 0 \<le> rnd x"
  using rnd_ge_int [of 0 x] by simp

text \<open>Flooring a rounded value of a bounded non-negative number stays between the same integers.\<close>

lemma floor_rnd_bounds:
  assumes "of_int a \<le> x" and "x \<le> of_int b" and "\<bar>a\<bar> \<le> 2 ^ 53" and "\<bar>b\<bar> \<le> 2 ^ 53"
  shows "a \<le> \<lfloor>rnd x\<rfloor>" and "\<lfloor>rnd x\<rfloor> \<le> b"
  using rnd_ge_int [OF assms(3,1)] rnd_le_int [OF assms(4,2)] by linarith+

lemma floor_rnd_mono: "x \<le> y \<Longrightarrow> \<lfloor>rnd x\<rfloor> \<le> \<lfloor>rnd y\<rfloor>"
  by (intro floor_mono rnd_mono)

end

interpretation fl64: float_rounding fl
  by unfold_locales (auto intro: fl_mono fl_of_int)

text \<open>The relative error of a normal number is at most the unit roundoff.\<close>

lemma fl_pos_error:
  assumes "2 powi (-1022) \<le> x"
  shows "\<bar>fl_pos x - x\<bar> \<le> x / 2 ^ 53"
proof -
  have pos: "0 < x" using assms by (rule less_le_trans [rotated]) simp
  have "2 powi (-1022) < (2::rat) powi (exponent x + 1)"
    using assms exponent_bounds(2) [OF pos] by linarith
  moreover have "(2::rat) powi (exponent x + 1) \<le> 2 powi (-1022)" if "exponent x + 1 \<le> -1022"
    using that by (intro power_int_increasing) auto
  ultimately have "-1022 < exponent x + 1" by force
  then have e: "ulp_exp x = exponent x - 52" by (simp add: ulp_exp_def)
  let ?u = "(2::rat) powi ulp_exp x"
  have u: "0 < ?u" by simp
  have "?u * 2 ^ 52 = 2 powi exponent x"
    using powi_add_int [of "ulp_exp x" 52] by (simp add: e)
  then have le: "?u * 2 ^ 52 \<le> x" using exponent_bounds(1) [OF pos] by simp
  define y where "y = x / ?u"
  have x: "x = y * ?u" using u by (simp add: y_def)
  have "\<bar>of_int (round_half_even y) - y\<bar> \<le> 1/2"
    using round_half_even_bounds [of y] by linarith
  then have "\<bar>of_int (round_half_even y) - y\<bar> * ?u \<le> 1/2 * ?u"
    using u by (intro mult_right_mono) auto
  moreover have "fl_pos x - x = (of_int (round_half_even y) - y) * ?u"
    using x unfolding fl_pos_def y_def [symmetric] by (simp add: left_diff_distrib)
  ultimately have "\<bar>fl_pos x - x\<bar> \<le> ?u / 2" using u by (simp add: abs_mult)
  also have "\<dots> \<le> x / 2 ^ 53" using le by simp
  finally show ?thesis .
qed

lemma fl_error:
  assumes "2 powi (-1022) \<le> \<bar>x\<bar>"
  shows "\<bar>fl x - x\<bar> \<le> \<bar>x\<bar> / 2 ^ 53"
proof -
  have "\<bar>x\<bar> \<noteq> 0" using assms by (metis abs_0 not_less power_int_eq_0_iff zero_less_power_int zero_less_numeral)
  then consider "0 < x" | "x < 0" by linarith
  then show ?thesis
    using fl_pos_error [of x] fl_pos_error [of "- x"] assms
    by cases (auto simp: fl_def abs_if split: if_splits)
qed

text \<open>
  \<open>float(n)\<close>, which raises \<open>OverflowError\<close> beyond the largest finite float, and the
  arithmetic the program uses.
\<close>

definition float_of_int :: "int \<Rightarrow> rat option" where
  "float_of_int n = (if \<bar>n\<bar> < 2 ^ 1024 - 2 ^ 970 then Some (fl (of_int n)) else None)"


definition fl_add :: "rat \<Rightarrow> rat \<Rightarrow> rat" where
  "fl_add a b = fl (a + b)"

definition fl_sub :: "rat \<Rightarrow> rat \<Rightarrow> rat" where
  "fl_sub a b = fl (a - b)"

definition fl_mul :: "rat \<Rightarrow> rat \<Rightarrow> rat" where
  "fl_mul a b = fl (a * b)"

definition fl_div :: "rat \<Rightarrow> rat \<Rightarrow> rat" where
  "fl_div a b = fl (a / b)"

end
