(* ===== verification/Smf.thy ===== *)
theory Smf
  imports Float64 "HOL-Library.Product_Lexorder"
begin

text \<open>
  The Standard MIDI File encoder of \<^verbatim>\<open>midi/smf.py\<close>: event validation, variable-length
  quantities, the tempo segments that stretch the tick grid over an interval, and the whole
  format-0 file. Bytes are natural numbers below 256; event times are finite floats.
  The specification side is a reader of tracks: it parses the bytes back into delta-timed
  items and plays them at the tempo in force, in units of $1/960$ microsecond.
\<close>

unbundle bit_operations_syntax

section \<open>Constants and events\<close>

definition ticks_per_quarter :: int where "ticks_per_quarter = 960"
definition min_tempo_us :: int where "min_tempo_us = 31"
definition max_tempo_us :: int where "max_tempo_us = 1677215"

record midi_export_event =
  ev_time_s :: rat
  ev_kind :: string
  ev_channel :: int
  ev_note :: int
  ev_velocity :: int

definition midi_export_event_init :: "rat \<Rightarrow> string \<Rightarrow> int \<Rightarrow> int \<Rightarrow> int \<Rightarrow> midi_export_event res" where
  "midi_export_event_init t k c n v =
     (if k \<notin> {''note_on'', ''note_off''}
        then Inl (ValueError (Msg ''kind must be note_on or note_off'' []))
      else if \<not> (0 \<le> c \<and> c \<le> 15) then Inl (ValueError (Msg ''channel must be in 0..15'' []))
      else if \<not> (0 \<le> n \<and> n \<le> 127) then Inl (ValueError (Msg ''note must be in 0..127'' []))
      else if \<not> (0 \<le> v \<and> v \<le> 127) then Inl (ValueError (Msg ''velocity must be in 0..127'' []))
      else Inr \<lparr>ev_time_s = t, ev_kind = k, ev_channel = c, ev_note = n, ev_velocity = v\<rparr>)"

definition event_ok :: "midi_export_event \<Rightarrow> bool" where
  "event_ok e \<longleftrightarrow> ev_kind e \<in> {''note_on'', ''note_off''} \<and> 0 \<le> ev_channel e \<and> ev_channel e \<le> 15 \<and>
     0 \<le> ev_note e \<and> ev_note e \<le> 127 \<and> 0 \<le> ev_velocity e \<and> ev_velocity e \<le> 127"

lemma midi_export_event_init_ok: "midi_export_event_init t k c n v = Inr e \<Longrightarrow> event_ok e"
  by (auto simp: midi_export_event_init_def event_ok_def split: if_splits)

section \<open>Bytes\<close>

type_synonym bytes = "nat list"

text \<open>\<open>value.to_bytes(n, "big")\<close>\<close>

fun be_bytes :: "nat \<Rightarrow> nat \<Rightarrow> bytes" where
  "be_bytes 0 v = []"
| "be_bytes (Suc n) v = be_bytes n (v div 256) @ [v mod 256]"

definition to_bytes :: "nat \<Rightarrow> int \<Rightarrow> bytes res" where
  "to_bytes n v =
     (if v < 0 then Inl (OverflowError (Msg ''can't convert negative int to unsigned'' []))
      else if v \<ge> 256 ^ n then Inl (OverflowError (Msg ''int too big to convert'' []))
      else Inr (be_bytes n (nat v)))"

text \<open>\<open>_variable_length\<close>: the low seven bits last, continuation bits on the others.\<close>

function vlq_loop :: "nat \<Rightarrow> bytes \<Rightarrow> bytes" where
  "vlq_loop remaining octets =
     (if remaining \<noteq> 0
      then vlq_loop (drop_bit 7 remaining) ((128 OR (remaining AND 127)) # octets)
      else octets)"
  by pat_completeness auto
termination
  by (relation "measure fst") (auto simp: drop_bit_eq_div)

declare vlq_loop.simps [simp del]

definition vlq_nat :: "nat \<Rightarrow> bytes" where
  "vlq_nat v = vlq_loop (drop_bit 7 v) [v AND 127]"

definition variable_length :: "int \<Rightarrow> bytes res" where
  "variable_length v =
     (if v < 0 then Inl (ValueError (Msg ''delta times cannot be negative'' []))
      else Inr (vlq_nat (nat v)))"

section \<open>Intervals\<close>

definition interval_us :: "rat \<Rightarrow> int" where
  "interval_us interval_s = round_half_even (fl_mul interval_s 1000000)"

definition interval_ticks :: "int \<Rightarrow> int" where
  "interval_ticks us = max 1 (- ((- us * ticks_per_quarter) div max_tempo_us))"

definition closing_delta :: "rat \<Rightarrow> bytes res" where
  "closing_delta interval_s =
     (if interval_s \<le> 0 then Inr [0]
      else let us = interval_us interval_s in
        if us < min_tempo_us then Inr [0]
        else let ticks = interval_ticks us in
          if us mod ticks \<noteq> 0 then Inr [1]
          else variable_length ticks)"

definition write_tempo :: "bytes \<Rightarrow> int \<Rightarrow> bytes res" where
  "write_tempo track tempo =
     bind_res (to_bytes 3 tempo) (\<lambda>b. Inr (track @ [255, 81, 3] @ b))"

definition write_interval :: "bytes \<Rightarrow> rat \<Rightarrow> bytes res" where
  "write_interval track interval_s =
     (if interval_s \<le> 0 then Inr track
      else let us = interval_us interval_s in
        if us < min_tempo_us then Inr track
        else let ticks = interval_ticks us; quotient = us div ticks; remainder = us mod ticks in
          bind_res (write_tempo (track @ [0]) (quotient * ticks_per_quarter)) (\<lambda>track.
            if remainder \<noteq> 0 then
              bind_res (variable_length ticks) (\<lambda>d.
                write_tempo (track @ d) (remainder * ticks_per_quarter))
            else Inr track))"

section \<open>The file\<close>

definition event_key :: "midi_export_event \<Rightarrow> rat \<times> int \<times> int \<times> string" where
  "event_key e = (ev_time_s e, ev_channel e, ev_note e, ev_kind e)"

definition event_bytes :: "midi_export_event \<Rightarrow> bytes" where
  "event_bytes e =
     (let status = (if ev_kind e = ''note_on'' then 144 else 128);
          velocity = (if ev_kind e = ''note_on'' then ev_velocity e else 0)
      in [nat status OR nat (ev_channel e), nat (ev_note e), nat velocity])"

text \<open>The loop body: state is the track so far and the time of the previous event.\<close>

definition write_event :: "midi_export_event \<Rightarrow> bytes \<times> rat \<Rightarrow> (bytes \<times> rat) res" where
  "write_event e st =
     (case st of (track, previous_time_s) \<Rightarrow>
        let interval_s = max 0 (fl_sub (ev_time_s e) previous_time_s) in
        bind_res (write_interval track interval_s) (\<lambda>track.
        bind_res (closing_delta interval_s) (\<lambda>d.
          Inr (track @ d @ event_bytes e, ev_time_s e))))"

definition write_track :: "midi_export_event list \<Rightarrow> rat \<Rightarrow> bytes res" where
  "write_track ordered duration_s =
     bind_res (foldM write_event ordered ([], 0)) (\<lambda>(track, previous_time_s).
       let tail_s = max 0 (fl_sub duration_s previous_time_s) in
       bind_res (write_interval track tail_s) (\<lambda>track.
       bind_res (closing_delta tail_s) (\<lambda>d.
         Inr (track @ d @ [255, 47, 0]))))"

definition encode_standard_midi_file :: "midi_export_event list \<Rightarrow> rat \<Rightarrow> bytes res" where
  "encode_standard_midi_file events duration_s =
     (if duration_s < 0 then Inl (ValueError (Msg ''duration must not be negative'' []))
      else
        bind_res (to_bytes 4 6) (\<lambda>header_length.
        bind_res (to_bytes 2 0) (\<lambda>format.
        bind_res (to_bytes 2 1) (\<lambda>tracks.
        bind_res (to_bytes 2 ticks_per_quarter) (\<lambda>division.
        bind_res (write_track (sort_key event_key events) duration_s) (\<lambda>track.
        bind_res (to_bytes 4 (int (length track))) (\<lambda>track_length.
          Inr ([77, 84, 104, 100] @ header_length @ format @ tracks @ division @
               [77, 84, 114, 107] @ track_length @ track))))))))"

section \<open>Reading a track back\<close>

datatype track_item = SetTempo nat | NoteMsg nat nat nat | EndOfTrack

fun vlq_read :: "nat \<Rightarrow> bytes \<Rightarrow> (nat \<times> bytes) option" where
  "vlq_read acc [] = None"
| "vlq_read acc (b # bs) =
     (if b < 128 then Some (acc * 128 + b, bs) else vlq_read (acc * 128 + (b - 128)) bs)"

definition read_item :: "bytes \<Rightarrow> (track_item \<times> bytes) option" where
  "read_item bs = (case bs of
     s # x # y # rest \<Rightarrow>
       if s = 255 \<and> x = 81 \<and> y = 3 then
         (case rest of a # b # c # rest' \<Rightarrow> Some (SetTempo (a * 65536 + b * 256 + c), rest')
          | _ \<Rightarrow> None)
       else if s = 255 \<and> x = 47 \<and> y = 0 then Some (EndOfTrack, rest)
       else if 128 \<le> s \<and> s < 160 then Some (NoteMsg s x y, rest)
       else None
   | _ \<Rightarrow> None)"

fun read_track :: "nat \<Rightarrow> bytes \<Rightarrow> (nat \<times> track_item) list option" where
  "read_track 0 bs = None"
| "read_track (Suc k) bs =
     (case vlq_read 0 bs of None \<Rightarrow> None | Some (d, bs1) \<Rightarrow>
       (case read_item bs1 of None \<Rightarrow> None | Some (i, bs2) \<Rightarrow>
         if i = EndOfTrack then (if bs2 = [] then Some [(d, i)] else None)
         else map_option ((#) (d, i)) (read_track k bs2)))"

text \<open>
  Playing a track: a delta elapses at the tempo in force before the item it opens. Time counts
  delta ticks times microseconds per quarter, that is $1/960$ microseconds.
\<close>

fun play :: "nat \<Rightarrow> nat \<Rightarrow> (nat \<times> track_item) list \<Rightarrow> (nat \<times> track_item) list" where
  "play tempo t [] = []"
| "play tempo t ((d, SetTempo q) # xs) = play q (t + d * tempo) xs"
| "play tempo t ((d, NoteMsg s n v) # xs) = (t + d * tempo, NoteMsg s n v) # play tempo (t + d * tempo) xs"
| "play tempo t ((d, EndOfTrack) # xs) = [(t + d * tempo, EndOfTrack)]"

subsection \<open>Variable-length quantities read back\<close>

lemma push_and_take: "push_bit n 1 AND take_bit n y = (0::nat)"
  by (rule bit_eqI) (auto simp: bit_simps)

lemma or_128: "y < 128 \<Longrightarrow> 128 OR y = 128 + (y::nat)"
proof -
  assume y: "y < 128"
  then have "take_bit 7 y = y" by (simp add: take_bit_nat_eq_self_iff)
  then have "128 AND y = 0" using push_and_take [of 7 y] by simp
  then show ?thesis by (simp only: disjunctive_add_eq_or)
qed

lemma and_127: "(x::nat) AND 127 = x mod 128"
  using take_bit_eq_mask [of 7 x] by (simp add: take_bit_eq_mod mask_numeral)

lemma drop_7: "drop_bit 7 (x::nat) = x div 128"
  by (simp add: drop_bit_eq_div)

lemmas vlq_bits = or_128 and_127 drop_7

lemma vlq_loop_0 [simp]: "vlq_loop 0 xs = xs"
  by (subst vlq_loop.simps) simp

lemma vlq_loop_append: "vlq_loop r (xs @ ys) = vlq_loop r xs @ ys"
proof (induction r xs rule: vlq_loop.induct)
  case (1 r xs)
  then show ?case
    by (cases "r = 0") (simp_all add: vlq_loop.simps [of r])
qed

lemma vlq_read_loop: "vlq_read 0 (vlq_loop r [] @ bs) = vlq_read r bs"
proof (induction r arbitrary: bs rule: less_induct)
  case (less r)
  show ?case
  proof (cases "r = 0")
    case True
    then show ?thesis by (simp add: vlq_loop.simps [of 0])
  next
    case False
    let ?c = "128 OR (r AND 127)"
    have c: "?c = 128 + r mod 128" by (simp add: vlq_bits)
    have "vlq_loop r [] = vlq_loop (r div 128) ([] @ [?c])"
      using False by (simp add: vlq_loop.simps [of r] drop_7)
    then have "vlq_read 0 (vlq_loop r [] @ bs) = vlq_read 0 (vlq_loop (r div 128) [] @ (?c # bs))"
      by (simp only: vlq_loop_append) simp
    also have "\<dots> = vlq_read (r div 128) (?c # bs)"
      using False by (intro less.IH) simp
    also have "\<dots> = vlq_read r bs" by (simp add: c)
    finally show ?thesis .
  qed
qed

lemma vlq_read_vlq_nat [simp]: "vlq_read 0 (vlq_nat v @ bs) = Some (v, bs)"
proof -
  have "vlq_nat v @ bs = vlq_loop (v div 128) [] @ ((v mod 128) # bs)"
    unfolding vlq_nat_def by (subst vlq_loop_append [of _ "[]", simplified]) (simp add: vlq_bits)
  then show ?thesis by (simp add: vlq_read_loop)
qed

lemma vlq_nat_small: "v < 128 \<Longrightarrow> vlq_nat v = [v]"
  by (simp add: vlq_nat_def vlq_bits vlq_loop.simps)

lemma set_vlq_loop: "b \<in> set (vlq_loop r xs) \<Longrightarrow> b \<in> set xs \<or> b < 256"
proof (induction r xs rule: vlq_loop.induct)
  case (1 r xs)
  show ?case
  proof (cases "r = 0")
    case True
    with "1.prems" show ?thesis by (simp add: vlq_loop.simps)
  next
    case False
    with 1 have "b \<in> set ((128 OR (r AND 127)) # xs) \<or> b < 256"
      by (simp add: vlq_loop.simps [of r])
    moreover have "128 OR (r AND 127) < (256::nat)"
      using mod_less_divisor [of 128 r] by (simp add: vlq_bits)
    ultimately show ?thesis by auto
  qed
qed

lemma be_bytes_3: "be_bytes 3 v = [v div 65536 mod 256, v div 256 mod 256, v mod 256]"
  by (simp add: numeral_3_eq_3 div_mult2_eq [symmetric])

lemma be_bytes_3_read:
  fixes v :: nat
  assumes "v < 2 ^ 24"
  shows "(v div 65536 mod 256) * 65536 + (v div 256 mod 256) * 256 + v mod 256 = v"
proof -
  have "v div 65536 = v div 256 div 256" by (simp add: div_mult2_eq [symmetric])
  moreover from assms have "v div 65536 < 256" by simp
  ultimately have "(v div 65536 mod 256) * 256 + v div 256 mod 256 = v div 256" by simp
  moreover have "v div 256 * 256 + v mod 256 = v" by simp
  ultimately show ?thesis by linarith
qed

section \<open>Intervals and their segments\<close>

text \<open>The microseconds an interval elapses on the tick grid.\<close>

definition elapsed_us :: "rat \<Rightarrow> int" where
  "elapsed_us s = (if s \<le> 0 \<or> interval_us s < min_tempo_us then 0 else interval_us s)"

lemma elapsed_us_cases:
  "elapsed_us s = 0 \<and> (s \<le> 0 \<or> interval_us s < min_tempo_us) \<or>
   31 \<le> elapsed_us s \<and> 0 < s \<and> elapsed_us s = interval_us s"
  by (auto simp: elapsed_us_def min_tempo_us_def)

lemma interval_ticks_pos: "1 \<le> interval_ticks us"
  by (simp add: interval_ticks_def)

lemma interval_ticks_bounds:
  assumes "1 \<le> us"
  shows "us * 960 \<le> interval_ticks us * 1677215" "interval_ticks us * 1677215 < us * 960 + 1677215"
proof -
  define d where "d = (- us * 960) div (1677215 :: int)"
  define m where "m = (- us * 960) mod (1677215 :: int)"
  define k where "k = - ((- us * 960) div (1677215 :: int))"
  have "d * 1677215 + m = - us * 960" unfolding d_def m_def by (rule div_mult_mod_eq)
  moreover have "0 \<le> m" "m < 1677215" unfolding m_def by (rule pos_mod_sign, simp, rule pos_mod_bound, simp)
  moreover have "k * 1677215 = - (d * 1677215)" by (simp add: k_def d_def)
  ultimately have k: "us * 960 \<le> k * 1677215" "k * 1677215 < us * 960 + 1677215" by linarith+
  with assms have "1 \<le> k" by linarith
  then have "interval_ticks us = k"
    by (simp add: interval_ticks_def ticks_per_quarter_def max_tempo_us_def k_def)
  with k show "us * 960 \<le> interval_ticks us * 1677215" "interval_ticks us * 1677215 < us * 960 + 1677215"
    by simp_all
qed

lemma interval_quotient_bound:
  assumes "1 \<le> us"
  shows "0 \<le> us div interval_ticks us" "us div interval_ticks us \<le> 1747"
proof -
  let ?k = "interval_ticks us"
  have pos: "0 < ?k" using interval_ticks_pos [of us] by linarith
  show "0 \<le> us div ?k" using assms pos by (simp add: pos_imp_zdiv_nonneg_iff)
  have "us < 1748 * ?k" using interval_ticks_bounds(1) [OF assms] pos by linarith
  moreover have "us div ?k * ?k \<le> us" using pos pos_mod_sign [of ?k us] minus_mod_eq_div_mult [of us ?k] by linarith
  ultimately have "us div ?k * ?k < 1748 * ?k" by linarith
  then have "us div ?k < 1748" using pos by (simp add: mult_less_cancel_right)
  then show "us div ?k \<le> 1747" by simp
qed

definition tempo_fits :: "int \<Rightarrow> bool" where
  "tempo_fits us \<longleftrightarrow> us mod interval_ticks us * 960 < 2 ^ 24"

text \<open>The delta-timed tempo items an interval of \<open>us\<close> microseconds writes, and its closing delta.\<close>

definition segment_items :: "int \<Rightarrow> (nat \<times> track_item) list" where
  "segment_items us =
     (if us = 0 then []
      else let k = interval_ticks us; q = us div k; r = us mod k in
        (0, SetTempo (nat (q * 960))) #
        (if r \<noteq> 0 then [(nat k, SetTempo (nat (r * 960)))] else []))"

definition closing_ticks :: "int \<Rightarrow> nat" where
  "closing_ticks us =
     (if us = 0 then 0
      else if us mod interval_ticks us \<noteq> 0 then 1 else nat (interval_ticks us))"

fun item_bytes :: "track_item \<Rightarrow> bytes" where
  "item_bytes (SetTempo q) = [255, 81, 3] @ be_bytes 3 q"
| "item_bytes (NoteMsg s n v) = [s, n, v]"
| "item_bytes EndOfTrack = [255, 47, 0]"

definition items_bytes :: "(nat \<times> track_item) list \<Rightarrow> bytes" where
  "items_bytes xs = concat (map (\<lambda>(d, i). vlq_nat d @ item_bytes i) xs)"

lemma items_bytes_simps [simp]:
  "items_bytes [] = []"
  "items_bytes ((d, i) # xs) = vlq_nat d @ item_bytes i @ items_bytes xs"
  by (simp_all add: items_bytes_def)

lemma items_bytes_append [simp]: "items_bytes (xs @ ys) = items_bytes xs @ items_bytes ys"
  by (simp add: items_bytes_def)

lemma write_tempo_eq:
  assumes "0 \<le> v"
  shows "write_tempo track v =
    (if v < 2 ^ 24 then Inr (track @ item_bytes (SetTempo (nat v)))
     else Inl (OverflowError (Msg ''int too big to convert'' [])))"
  using assms by (simp add: write_tempo_def to_bytes_def)

text \<open>\<open>_write_interval\<close> on every branch: it appends its segments, or overflows.\<close>

lemma write_interval_eq:
  "write_interval track s =
     (if elapsed_us s = 0 \<or> tempo_fits (elapsed_us s)
      then Inr (track @ items_bytes (segment_items (elapsed_us s)))
      else Inl (OverflowError (Msg ''int too big to convert'' [])))"
proof (cases "elapsed_us s = 0")
  case True
  then show ?thesis
    using elapsed_us_cases [of s]
    by (auto simp: write_interval_def Let_def segment_items_def)
next
  case False
  let ?us = "interval_us s"
  let ?k = "interval_ticks ?us"
  from False elapsed_us_cases [of s] have us: "elapsed_us s = ?us" "31 \<le> ?us" "0 < s" by auto
  have q: "0 \<le> ?us div ?k" "?us div ?k \<le> 1747" using us by (auto intro: interval_quotient_bound)
  have k: "1 \<le> ?k" by (rule interval_ticks_pos)
  then have r: "0 \<le> ?us mod ?k" by simp
  have v0: "vlq_nat 0 = [0]" by (simp add: vlq_nat_small)
  show ?thesis
    using us q k r
    by (simp add: write_interval_def Let_def min_tempo_us_def ticks_per_quarter_def write_tempo_eq
        segment_items_def tempo_fits_def variable_length_def v0)
qed

lemma closing_delta_eq: "closing_delta s = Inr (vlq_nat (closing_ticks (elapsed_us s)))"
proof (cases "elapsed_us s = 0")
  case True
  then show ?thesis
    using elapsed_us_cases [of s]
    by (auto simp: closing_delta_def closing_ticks_def Let_def vlq_nat_small)
next
  case False
  then show ?thesis
    using elapsed_us_cases [of s] interval_ticks_pos [of "interval_us s"]
    by (auto simp: closing_delta_def closing_ticks_def Let_def vlq_nat_small min_tempo_us_def
        variable_length_def)
qed

text \<open>The segments of an interval and its closing delta span exactly its microseconds.\<close>

lemma segment_play:
  assumes "us = 0 \<or> 1 \<le> us"
  shows "\<exists>tempo'. play tempo t (segment_items us @ (closing_ticks us, i) # xs) =
     play tempo' (t + 960 * nat us - closing_ticks us * tempo') ((closing_ticks us, i) # xs) \<and>
     closing_ticks us * tempo' \<le> t + 960 * nat us"
proof (cases "us = 0")
  case True
  then show ?thesis by (auto simp: segment_items_def closing_ticks_def)
next
  case False
  with assms have us: "1 \<le> us" by simp
  let ?k = "interval_ticks us" and ?q = "us div interval_ticks us" and ?r = "us mod interval_ticks us"
  have k: "1 \<le> ?k" by (rule interval_ticks_pos)
  have q: "0 \<le> ?q" using interval_quotient_bound [OF us] by simp
  have r: "0 \<le> ?r" using k by simp
  have sum: "nat us = nat ?k * nat ?q + nat ?r"
    using k q r by (simp add: nat_mult_distrib [symmetric] nat_add_distrib [symmetric])
  show ?thesis
  proof (cases "?r = 0")
    case True
    then show ?thesis using False us k q sum
      by (intro exI [of _ "nat (?q * 960)"])
         (simp add: segment_items_def closing_ticks_def Let_def nat_mult_distrib)
  next
    case r0: False
    then show ?thesis using False us k q r sum
      by (intro exI [of _ "nat (?r * 960)"])
         (simp add: segment_items_def closing_ticks_def Let_def nat_mult_distrib algebra_simps)
  qed
qed

section \<open>The whole track\<close>

definition note_item :: "midi_export_event \<Rightarrow> track_item" where
  "note_item e = (if ev_kind e = ''note_on''
     then NoteMsg (144 OR nat (ev_channel e)) (nat (ev_note e)) (nat (ev_velocity e))
     else NoteMsg (128 OR nat (ev_channel e)) (nat (ev_note e)) 0)"

lemma event_bytes_eq: "event_bytes e = item_bytes (note_item e)"
  by (simp add: event_bytes_def note_item_def)

text \<open>The elapsed microseconds between consecutive events, and from the last event to the end.\<close>

fun gaps :: "midi_export_event list \<Rightarrow> rat \<Rightarrow> rat \<Rightarrow> int list" where
  "gaps [] prev dur = [elapsed_us (max 0 (fl_sub dur prev))]"
| "gaps (e # es) prev dur = elapsed_us (max 0 (fl_sub (ev_time_s e) prev)) # gaps es (ev_time_s e) dur"

fun track_items :: "midi_export_event list \<Rightarrow> rat \<Rightarrow> rat \<Rightarrow> (nat \<times> track_item) list" where
  "track_items [] prev dur =
     (let us = elapsed_us (max 0 (fl_sub dur prev)) in
      segment_items us @ [(closing_ticks us, EndOfTrack)])"
| "track_items (e # es) prev dur =
     (let us = elapsed_us (max 0 (fl_sub (ev_time_s e) prev)) in
      segment_items us @ (closing_ticks us, note_item e) # track_items es (ev_time_s e) dur)"

text \<open>The intended timeline: every event at the sum of the elapsed microseconds before it.\<close>

fun timeline :: "midi_export_event list \<Rightarrow> rat \<Rightarrow> int \<Rightarrow> rat \<Rightarrow> (nat \<times> track_item) list" where
  "timeline [] prev t dur = [(960 * nat (t + elapsed_us (max 0 (fl_sub dur prev))), EndOfTrack)]"
| "timeline (e # es) prev t dur =
     (let t' = t + elapsed_us (max 0 (fl_sub (ev_time_s e) prev)) in
      (960 * nat t', note_item e) # timeline es (ev_time_s e) t' dur)"

definition gap_fits :: "int \<Rightarrow> bool" where
  "gap_fits us \<longleftrightarrow> us = 0 \<or> tempo_fits us"

definition too_big :: py_error where
  "too_big = OverflowError (Msg ''int too big to convert'' [])"

lemma write_event_eq:
  "write_event e (track, prev) =
     (let us = elapsed_us (max 0 (fl_sub (ev_time_s e) prev)) in
      if gap_fits us
      then Inr (track @ items_bytes (segment_items us @ [(closing_ticks us, note_item e)]), ev_time_s e)
      else Inl too_big)"
  by (simp add: write_event_def Let_def write_interval_eq closing_delta_eq gap_fits_def too_big_def
      event_bytes_eq)

lemma fold_write_event:
  "bind_res (foldM write_event es (track, prev)) (\<lambda>(track, prev).
     let tail = max 0 (fl_sub dur prev) in
     bind_res (write_interval track tail) (\<lambda>track.
     bind_res (closing_delta tail) (\<lambda>d. Inr (track @ d @ [255, 47, 0])))) =
   (if list_all gap_fits (gaps es prev dur)
    then Inr (track @ items_bytes (track_items es prev dur)) else Inl too_big)"
proof (induction es arbitrary: track prev)
  case Nil
  then show ?case
    by (simp add: Let_def write_interval_eq closing_delta_eq gap_fits_def too_big_def)
next
  case (Cons e es)
  then show ?case by (simp add: write_event_eq Let_def)
qed

lemma write_track_eq:
  "write_track es dur =
     (if list_all gap_fits (gaps es 0 dur) then Inr (items_bytes (track_items es 0 dur))
      else Inl too_big)"
  using fold_write_event [of es "[]" 0 dur] by (simp add: write_track_def)

text \<open>Which items read back.\<close>

fun readable :: "track_item \<Rightarrow> bool" where
  "readable (SetTempo q) = (q < 2 ^ 24)"
| "readable (NoteMsg s n v) = (128 \<le> s \<and> s < 160)"
| "readable EndOfTrack = False"

lemma read_item_bytes:
  "readable i \<or> i = EndOfTrack \<Longrightarrow> read_item (item_bytes i @ bs) = Some (i, bs)"
proof (cases i)
  case (SetTempo q)
  assume "readable i \<or> i = EndOfTrack"
  with SetTempo have "q < 2 ^ 24" by simp
  then show ?thesis
    using be_bytes_3_read [of q] by (simp add: SetTempo read_item_def be_bytes_3)
qed (auto simp: read_item_def)

lemma read_items:
  assumes "\<forall>(d, i) \<in> set xs. readable i" and "length xs < k"
  shows "read_track k (items_bytes (xs @ [(d, EndOfTrack)])) = Some (xs @ [(d, EndOfTrack)])"
  using assms
proof (induction xs arbitrary: k)
  case Nil
  then show ?case
    by (cases k) (simp_all add: read_item_bytes [of EndOfTrack "[]", simplified])
next
  case (Cons x xs)
  obtain d' i where x: "x = (d', i)" by (cases x)
  from Cons.prems(2) obtain k' where k: "k = Suc k'" "length xs < k'" by (cases k) auto
  from Cons.prems(1) x have i: "readable i" by simp
  then have "i \<noteq> EndOfTrack" by auto
  moreover have "read_track k' (items_bytes (xs @ [(d, EndOfTrack)])) = Some (xs @ [(d, EndOfTrack)])"
    using Cons.prems(1) k(2) by (intro Cons.IH) auto
  ultimately show ?case using i by (simp add: x k(1) read_item_bytes)
qed

lemma or_channel:
  assumes "c \<le> 15"
  shows "128 \<le> (128 OR c :: nat)" "128 OR c < (160::nat)" "128 \<le> (144 OR c :: nat)" "144 OR c < (160::nat)"
proof -
  have 144: "(144::nat) = 128 OR 16" by simp
  have c: "16 OR c < (32::nat)"
  proof -
    have "take_bit 5 (16 OR c) = 16 OR c"
      using assms by (simp add: take_bit_or take_bit_nat_eq_self)
    then have "16 OR c < 2 ^ 5" by (simp only: take_bit_nat_eq_self_iff)
    then show ?thesis by simp
  qed
  show "128 \<le> (128 OR c :: nat)" "128 OR c < (160::nat)"
    using assms or_128 [of c] by simp_all
  have "144 OR c = 128 OR (16 OR c)" unfolding 144 by (simp only: or.assoc)
  also have "\<dots> = 128 + (16 OR c)" using c by (intro or_128) simp
  finally show "128 \<le> (144 OR c :: nat)" "144 OR c < (160::nat)" using c by simp_all
qed

lemma elapsed_us_range: "elapsed_us s = 0 \<or> 1 \<le> elapsed_us s"
  using elapsed_us_cases [of s] by linarith

lemma elapsed_us_nonneg [simp]: "0 \<le> elapsed_us s"
  using elapsed_us_range [of s] by linarith

lemma note_item_NoteMsg: "\<exists>s n v. note_item e = NoteMsg s n v"
  by (simp add: note_item_def)

lemma play_track_items:
  "0 \<le> t \<Longrightarrow> play tempo (960 * nat t) (track_items es prev dur) = timeline es prev t dur"
proof (induction es arbitrary: prev t tempo)
  case Nil
  let ?us = "elapsed_us (max 0 (fl_sub dur prev))"
  obtain tempo' where "play tempo (960 * nat t) (segment_items ?us @ (closing_ticks ?us, EndOfTrack) # []) =
      play tempo' (960 * nat t + 960 * nat ?us - closing_ticks ?us * tempo') ((closing_ticks ?us, EndOfTrack) # [])"
    "closing_ticks ?us * tempo' \<le> 960 * nat t + 960 * nat ?us"
    using segment_play [OF elapsed_us_range, of tempo "960 * nat t" "max 0 (fl_sub dur prev)"] by blast
  with Nil show ?case by (simp add: Let_def nat_add_distrib)
next
  case (Cons e es)
  let ?us = "elapsed_us (max 0 (fl_sub (ev_time_s e) prev))"
  let ?rest = "track_items es (ev_time_s e) dur"
  obtain tempo' where p: "play tempo (960 * nat t) (segment_items ?us @ (closing_ticks ?us, note_item e) # ?rest) =
      play tempo' (960 * nat t + 960 * nat ?us - closing_ticks ?us * tempo') ((closing_ticks ?us, note_item e) # ?rest)"
    "closing_ticks ?us * tempo' \<le> 960 * nat t + 960 * nat ?us"
    using segment_play [OF elapsed_us_range, of tempo "960 * nat t" "max 0 (fl_sub (ev_time_s e) prev)"]
    by blast
  obtain s n v where i: "note_item e = NoteMsg s n v" using note_item_NoteMsg by blast
  have t: "960 * nat t + 960 * nat ?us = 960 * nat (t + ?us)"
    using Cons.prems by (simp add: nat_add_distrib)
  have "play tempo' (960 * nat (t + ?us)) ?rest = timeline es (ev_time_s e) (t + ?us) dur"
    using Cons.prems by (intro Cons.IH) simp
  then show ?case using p i t by (simp add: Let_def)
qed

lemma readable_segment:
  assumes "gap_fits us" and "us = 0 \<or> 1 \<le> us"
  shows "\<forall>(d, i) \<in> set (segment_items us). readable i"
proof (cases "us = 0")
  case True
  then show ?thesis by (simp add: segment_items_def)
next
  case False
  with assms have us: "1 \<le> us" "tempo_fits us" by (auto simp: gap_fits_def)
  then have "us div interval_ticks us * 960 \<le> 1747 * 960"
    using interval_quotient_bound [OF us(1)] by linarith
  with us(2) show ?thesis by (auto simp: segment_items_def Let_def tempo_fits_def)
qed

lemma readable_note_item: "event_ok e \<Longrightarrow> readable (note_item e)"
proof -
  assume "event_ok e"
  then have "nat (ev_channel e) \<le> 15" by (simp add: event_ok_def nat_le_iff)
  from or_channel [OF this] show ?thesis by (simp add: note_item_def)
qed

lemma track_items_split:
  assumes "\<forall>e \<in> set es. event_ok e" and "list_all gap_fits (gaps es prev dur)"
  shows "\<exists>xs d. track_items es prev dur = xs @ [(d, EndOfTrack)] \<and> (\<forall>(d, i) \<in> set xs. readable i)"
  using assms
proof (induction es arbitrary: prev)
  case Nil
  then show ?case
    using readable_segment [OF _ elapsed_us_range] by (auto simp: Let_def)
next
  case (Cons e es)
  let ?us = "elapsed_us (max 0 (fl_sub (ev_time_s e) prev))"
  have "\<exists>xs d. track_items es (ev_time_s e) dur = xs @ [(d, EndOfTrack)] \<and> (\<forall>(d, i) \<in> set xs. readable i)"
    using Cons.prems by (intro Cons.IH) auto
  then obtain xs d where xs: "track_items es (ev_time_s e) dur = xs @ [(d, EndOfTrack)]"
    "\<forall>(d, i) \<in> set xs. readable i" by blast
  have "\<forall>(d, i) \<in> set (segment_items ?us). readable i"
    using Cons.prems by (intro readable_segment elapsed_us_range) simp
  with xs Cons.prems show ?case
    by (intro exI [of _ "segment_items ?us @ (closing_ticks ?us, note_item e) # xs"] exI [of _ d])
       (auto simp: Let_def readable_note_item)
qed

lemma vlq_loop_nonempty: "xs \<noteq> [] \<Longrightarrow> vlq_loop r xs \<noteq> []"
proof (induction r xs rule: vlq_loop.induct)
  case (1 r xs)
  then show ?case by (cases "r = 0") (simp_all add: vlq_loop.simps [of r])
qed

lemma length_items_bytes: "length xs \<le> length (items_bytes xs)"
proof (induction xs)
  case Nil
  then show ?case by simp
next
  case (Cons x xs)
  have "vlq_nat (fst x) \<noteq> []" by (simp add: vlq_nat_def vlq_loop_nonempty)
  then have "1 \<le> length (vlq_nat (fst x))" by (simp add: Suc_le_eq)
  with Cons show ?case by (cases x) simp
qed

lemma length_items_bytes_end:
  "length xs < length (items_bytes (xs @ [(d, EndOfTrack)]))"
  using length_items_bytes [of xs] by simp

text \<open>Reading and playing a written track gives the intended timeline.\<close>

lemma write_track_timeline:
  assumes "\<forall>e \<in> set es. event_ok e" and "write_track es dur = Inr track"
  shows "\<exists>items. read_track (length track) track = Some items \<and> play tempo 0 items = timeline es 0 0 dur"
proof -
  from assms(2) have fit: "list_all gap_fits (gaps es 0 dur)"
    and track: "track = items_bytes (track_items es 0 dur)"
    by (auto simp: write_track_eq split: if_splits)
  obtain xs d where xs: "track_items es 0 dur = xs @ [(d, EndOfTrack)]"
    and r: "\<forall>(d, i) \<in> set xs. readable i"
    using track_items_split [OF assms(1) fit] by blast
  have "read_track (length track) track = Some (track_items es 0 dur)"
    unfolding track xs by (rule read_items [OF r length_items_bytes_end])
  moreover have "play tempo 0 (track_items es 0 dur) = timeline es 0 0 dur"
    using play_track_items [of 0] by simp
  ultimately show ?thesis by blast
qed

section \<open>Which gaps the encoder can write\<close>

lemma short_gap_fits:
  assumes "0 \<le> us" and "us \<le> 30500000"
  shows "gap_fits us"
proof (cases "us = 0")
  case False
  with assms have us: "1 \<le> us" by simp
  have "interval_ticks us * 1677215 < 30500000 * 960 + 1677215"
    using interval_ticks_bounds(2) [OF us] assms(2) by linarith
  then have k: "interval_ticks us \<le> 17458" by linarith
  have "us mod interval_ticks us < interval_ticks us"
    using interval_ticks_pos [of us] by (intro pos_mod_bound) linarith
  with k show ?thesis by (simp add: gap_fits_def tempo_fits_def)
qed (simp add: gap_fits_def)

text \<open>
  From 340 seconds on, the remainder of the interval never fits a tempo: the quotient is 1747
  and the remainder exceeds 17476 microseconds per tick.
\<close>

lemma long_gap_overflows:
  assumes "340000000 \<le> us"
  shows "\<not> gap_fits us"
proof -
  let ?k = "interval_ticks us"
  have us: "1 \<le> us" using assms by simp
  note b = interval_ticks_bounds [OF us]
  have k: "194609 \<le> ?k" using b(1) assms by linarith
  have div: "us div ?k * ?k + us mod ?k = us" by (rule div_mult_mod_eq)
  have q: "us div ?k \<le> 1747" using interval_quotient_bound [OF us] by simp
  then have "us div ?k * ?k \<le> 1747 * ?k" using k by (intro mult_right_mono) auto
  with div have "us - 1747 * ?k \<le> us mod ?k" by linarith
  moreover have "17477 \<le> us - 1747 * ?k" using b(2) k by linarith
  ultimately have "17477 * 960 \<le> us mod ?k * 960" by linarith
  then show ?thesis using assms by (simp add: gap_fits_def tempo_fits_def)
qed

section \<open>Properties of the encoder\<close>

lemma vlq_loop_length_drop: "length (vlq_loop r xs) = length (vlq_loop r []) + length xs"
  using vlq_loop_append [of r "[]" xs] by simp

lemma length_vlq_nat:
  assumes "v < 2 ^ 21"
  shows "length (vlq_nat v) \<le> 3"
proof -
  have step: "length (vlq_loop r []) \<le> (if r = 0 then 0 else Suc (length (vlq_loop (r div 128) [])))" for r
    using vlq_loop_length_drop [of "r div 128" "[128 OR (r AND 127)]"]
    by (simp add: vlq_loop.simps [of r "[]"] drop_7)
  have "v div 128 div 128 div 128 = 0" using assms by (simp add: div_mult2_eq [symmetric])
  then have "length (vlq_loop (v div 128) []) \<le> 2"
    using step [of "v div 128"] step [of "v div 128 div 128"] step [of "v div 128 div 128 div 128"]
    by (auto split: if_splits)
  then show ?thesis
    using vlq_loop_length_drop [of "v div 128" "[v AND 127]"] by (simp add: vlq_nat_def drop_7)
qed

lemma length_segment:
  assumes "0 \<le> us" and "us \<le> 30500000"
  shows "length (items_bytes (segment_items us)) + length (vlq_nat (closing_ticks us)) \<le> 19"
proof (cases "us = 0")
  case True
  then show ?thesis using length_vlq_nat [of 0] by (simp add: segment_items_def closing_ticks_def)
next
  case False
  with assms have us: "1 \<le> us" by simp
  have "interval_ticks us * 1677215 < 30500000 * 960 + 1677215"
    using interval_ticks_bounds(2) [OF us] assms(2) by linarith
  then have "nat (interval_ticks us) < 2 ^ 21" by simp
  then have "length (vlq_nat (nat (interval_ticks us))) \<le> 3" by (rule length_vlq_nat)
  then show ?thesis
    using False vlq_nat_small [of 0] vlq_nat_small [of 1]
    by (auto simp: segment_items_def closing_ticks_def Let_def be_bytes_3)
qed

lemma length_track:
  "list_all (\<lambda>g. g \<le> 30500000) (gaps es prev dur) \<Longrightarrow>
   length (items_bytes (track_items es prev dur)) \<le> 22 * Suc (length es)"
proof (induction es arbitrary: prev)
  case Nil
  then show ?case
    using length_segment [of "elapsed_us (max 0 (fl_sub dur prev))"] by (simp add: Let_def)
next
  case (Cons e es)
  let ?us = "elapsed_us (max 0 (fl_sub (ev_time_s e) prev))"
  have "length (items_bytes (track_items es (ev_time_s e) dur)) \<le> 22 * Suc (length es)"
    using Cons.prems by (intro Cons.IH) simp
  moreover have "length (items_bytes (segment_items ?us)) + length (vlq_nat (closing_ticks ?us)) \<le> 19"
    using Cons.prems by (intro length_segment) simp_all
  moreover have "length (item_bytes (note_item e)) = 3" by (simp add: note_item_def)
  ultimately show ?case by (simp add: Let_def)
qed

lemma be_bytes_numeral:
  "be_bytes (numeral k) v = be_bytes (pred_numeral k) (v div 256) @ [v mod 256]"
  by (subst numeral_eq_Suc [of k]) (simp only: be_bytes.simps)

lemma be_bytes_4_6: "to_bytes 4 6 = Inr [0, 0, 0, 6]"
  by (simp add: to_bytes_def be_bytes_numeral)

lemma be_bytes_2: "to_bytes 2 0 = Inr [0, 0]" "to_bytes 2 1 = Inr [0, 1]" "to_bytes 2 960 = Inr [3, 192]"
  by (simp_all add: to_bytes_def numeral_2_eq_2)

definition smf_header :: bytes where
  "smf_header = [77, 84, 104, 100, 0, 0, 0, 6, 0, 0, 0, 1, 3, 192, 77, 84, 114, 107]"

lemma encode_eq:
  "encode_standard_midi_file events dur =
     (if dur < 0 then Inl (ValueError (Msg ''duration must not be negative'' []))
      else bind_res (write_track (sort_key event_key events) dur) (\<lambda>track.
        if length track < 2 ^ 32 then Inr (smf_header @ be_bytes 4 (length track) @ track)
        else Inl too_big))"
proof -
  have "to_bytes 4 (int n) = (if n < 2 ^ 32 then Inr (be_bytes 4 n) else Inl too_big)" for n
    by (auto simp: to_bytes_def too_big_def)
  then show ?thesis
    by (simp add: encode_standard_midi_file_def be_bytes_4_6 be_bytes_2 ticks_per_quarter_def
        smf_header_def if_distrib [of "\<lambda>x. bind_res x _"] cong: if_cong)
qed

text \<open>
  C32. Timing of exported files: when the encoder returns a file, the file is the format-0
  header, the track length and a track; a reader of Standard MIDI Files parses the whole track,
  and playing it at the tempos in force (whatever the initial tempo) puts every event, and the
  end of the track, exactly at the sum of the rounded microsecond intervals before it, in the
  order of the sorted events.
  An interval is the gap between consecutive times rounded to a microsecond, and zero below 31
  microseconds, so positions are exact for these intervals and not for the times themselves.
\<close>

theorem encoded_file_plays_the_timeline:
  assumes "encode_standard_midi_file events dur = Inr bs" and "\<forall>e \<in> set events. event_ok e"
  shows "\<exists>track items. bs = smf_header @ be_bytes 4 (length track) @ track \<and>
     read_track (length track) track = Some items \<and>
     play tempo 0 items = timeline (sort_key event_key events) 0 0 dur"
proof -
  from assms(1) obtain track where t: "write_track (sort_key event_key events) dur = Inr track"
    and f: "bs = smf_header @ be_bytes 4 (length track) @ track"
    by (auto simp: encode_eq bind_res_eq_Inr split: if_splits)
  have "\<forall>e \<in> set (sort_key event_key events). event_ok e" using assms(2) by simp
  from write_track_timeline [OF this t] f show ?thesis by blast
qed

text \<open>
  Gaps below 31 microseconds are dropped one by one: three notes 15 microseconds apart all play at
  zero, and what follows is early by what was dropped (the end, due at 107, plays at 61).
\<close>

definition close_note :: "rat \<Rightarrow> midi_export_event" where
  "close_note t = \<lparr>ev_time_s = t, ev_kind = ''note_on'', ev_channel = 0, ev_note = 60, ev_velocity = 90\<rparr>"

lemma close_gaps:
  "elapsed_us (fl_sub (1 / 65536) 0) = 0" "elapsed_us (fl_sub (2 / 65536) (1 / 65536)) = 0"
  "elapsed_us (fl_sub (3 / 65536) (2 / 65536)) = 0" "elapsed_us (fl_sub (7 / 65536) (3 / 65536)) = 61"
  by code_simp+

lemma elapsed_max: "elapsed_us (max 0 x) = elapsed_us x"
  by (auto simp: elapsed_us_def max_def)

lemma dropped_gaps_accumulate:
  "map fst (timeline [close_note (1 / 65536), close_note (2 / 65536), close_note (3 / 65536)] 0 0 (7 / 65536)) =
     [0, 0, 0, 960 * 61]"
  using close_gaps by (simp only: timeline.simps elapsed_max close_note_def midi_export_event.select_convs) (simp add: Let_def elapsed_max)

definition demo_events :: "midi_export_event list" where
  "demo_events =
     [\<lparr>ev_time_s = 1/2, ev_kind = ''note_on'', ev_channel = 0, ev_note = 60, ev_velocity = 90\<rparr>,
      \<lparr>ev_time_s = 5/4, ev_kind = ''note_off'', ev_channel = 0, ev_note = 60, ev_velocity = 0\<rparr>]"

lemma sort_demo: "sort_key event_key demo_events = demo_events"
  by (simp add: demo_events_def event_key_def)

lemma elapsed_demo: "elapsed_us (fl_sub (1/2) 0) = 500000" "elapsed_us (fl_sub (5/4) (1/2)) = 750000"
  "elapsed_us (fl_sub 2 (5/4)) = 750000" "elapsed_us (fl_sub 600 0) = 600000000"
  by code_simp+

lemma fl_sub_demo: "fl_sub (1/2) 0 = 1/2" "fl_sub (5/4) (1/2) = 3/4" "fl_sub 2 (5/4) = 3/4" "fl_sub 600 0 = 600"
  by code_simp+

lemma gaps_demo: "gaps demo_events 0 2 = [500000, 750000, 750000]"
  using elapsed_demo by (simp add: demo_events_def fl_sub_demo)

text \<open>
  Short gaps never fail: when no gap between consecutive events (or before the end) exceeds
  30.5 seconds, the encoder returns a file.
\<close>

theorem short_gaps_encode:
  assumes "0 \<le> dur" and "length events < 190000000"
    and "list_all (\<lambda>g. g \<le> 30500000) (gaps (sort_key event_key events) 0 dur)"
  shows "\<exists>bs. encode_standard_midi_file events dur = Inr bs"
proof -
  let ?es = "sort_key event_key events"
  have nonneg: "\<forall>g \<in> set (gaps es prev dur). 0 \<le> g" for es prev
    by (induction es arbitrary: prev) auto
  have fits: "list_all gap_fits (gaps ?es 0 dur)"
    using assms(3) nonneg [of ?es 0] by (auto simp: list_all_iff intro: short_gap_fits)
  have "length (items_bytes (track_items ?es 0 dur)) \<le> 22 * Suc (length events)"
    using length_track [OF assms(3)] by simp
  then have "length (items_bytes (track_items ?es 0 dur)) < 2 ^ 32" using assms(2) by simp
  with assms(1) fits show ?thesis by (simp add: encode_eq write_track_eq)
qed

theorem short_gaps_encode_witness:
  "list_all (\<lambda>g. g \<le> 30500000) (gaps (sort_key event_key demo_events) 0 2) \<and>
   (\<exists>bs. encode_standard_midi_file demo_events 2 = Inr bs)"
proof -
  have g: "list_all (\<lambda>g. g \<le> 30500000) (gaps (sort_key event_key demo_events) 0 2)"
    by (simp add: sort_demo gaps_demo)
  have l: "length demo_events < 190000000" by (simp add: demo_events_def)
  show ?thesis using short_gaps_encode [OF _ l g] g by simp
qed

text \<open>
  C34. Long gaps always fail: a gap of 340 seconds or more between consecutive events, or before
  the end of the timeline, makes the encoder raise an overflow error, because the remainder
  tempo does not fit three bytes (the maximum tempo constant is 1677215, not 16777215).
\<close>

theorem long_gap_raises:
  assumes "0 \<le> dur" and "g \<in> set (gaps (sort_key event_key events) 0 dur)" and "340000000 \<le> g"
  shows "encode_standard_midi_file events dur = Inl (OverflowError (Msg ''int too big to convert'' []))"
proof -
  have "\<not> list_all gap_fits (gaps (sort_key event_key events) 0 dur)"
    using assms(2) long_gap_overflows [OF assms(3)] by (auto simp: list_all_iff)
  with assms(1) show ?thesis by (simp add: encode_eq write_track_eq too_big_def)
qed

theorem long_gap_raises_witness:
  "encode_standard_midi_file [] 600 = Inl (OverflowError (Msg ''int too big to convert'' []))"
proof -
  have "gaps [] 0 600 = [600000000]" using elapsed_demo(4) by (simp add: fl_sub_demo)
  then show ?thesis using long_gap_raises [of 600 600000000 "[]"] by simp
qed

theorem encoded_file_plays_the_timeline_witness:
  "\<exists>track items. read_track (length track) track = Some items \<and>
     play 500000 0 items =
       [(480000000, NoteMsg 144 60 90), (1200000000, NoteMsg 128 60 0), (1920000000, EndOfTrack)]"
proof -
  have g: "list_all (\<lambda>g. g \<le> 30500000) (gaps (sort_key event_key demo_events) 0 2)"
    by (simp add: sort_demo gaps_demo)
  have "\<not> list_all gap_fits (gaps demo_events 0 2) \<Longrightarrow> False"
    by (simp add: gaps_demo short_gap_fits)
  then have "write_track demo_events 2 = Inr (items_bytes (track_items demo_events 0 2))"
    by (auto simp: write_track_eq)
  moreover have "length (items_bytes (track_items demo_events 0 2)) < 2 ^ 32"
    using length_track [of demo_events 0 2] g by (simp add: sort_demo) (simp add: demo_events_def)
  ultimately obtain bs where f: "encode_standard_midi_file demo_events 2 = Inr bs"
    by (auto simp: encode_eq sort_demo)
  have ok: "\<forall>e \<in> set demo_events. event_ok e" by (simp add: demo_events_def event_ok_def)
  have t: "timeline (sort_key event_key demo_events) 0 0 2 =
      [(480000000, NoteMsg 144 60 90), (1200000000, NoteMsg 128 60 0), (1920000000, EndOfTrack)]"
    unfolding sort_demo using elapsed_demo
    by (simp add: demo_events_def note_item_def fl_sub_demo Let_def)
  show ?thesis using encoded_file_plays_the_timeline [OF f ok, of 500000] unfolding t by blast
qed

text \<open>
  C33. Variable-length quantities round trip: a non-negative delta encodes to bytes below 256 that
  a reader decodes to the same delta, leaving the rest of the input; a negative one is rejected.
\<close>

theorem variable_length_roundtrip:
  "(if v < 0 then \<exists>m. variable_length v = Inl (ValueError m)
    else \<exists>b. variable_length v = Inr b \<and> list_all (\<lambda>x. x < 256) b \<and>
      vlq_read 0 (b @ rest) = Some (nat v, rest))"
proof -
  have "x < 256" if "x \<in> set (vlq_nat n)" for x n
    using set_vlq_loop [of x "drop_bit 7 n" "[n AND 127]"] that mod_less_divisor [of 128 n]
    by (auto simp: vlq_nat_def and_127)
  then show ?thesis by (auto simp: variable_length_def list_all_iff)
qed

text \<open>
  Note-offs come first: in the order in which the encoder writes the events, times never
  decrease, and of two events at the same time on the same channel and note the note-off is
  written before the note-on.
\<close>

theorem written_events_ordered:
  assumes "i < j" and "j < length events"
  shows "let a = sort_key event_key events ! i; b = sort_key event_key events ! j in
    ev_time_s a \<le> ev_time_s b \<and>
    (ev_time_s a = ev_time_s b \<and> ev_channel a = ev_channel b \<and> ev_note a = ev_note b \<longrightarrow>
       \<not> (ev_kind a = ''note_on'' \<and> ev_kind b = ''note_off''))"
proof -
  let ?a = "sort_key event_key events ! i" and ?b = "sort_key event_key events ! j"
  have "sorted (map event_key (sort_key event_key events))" by simp
  then have "map event_key (sort_key event_key events) ! i \<le> map event_key (sort_key event_key events) ! j"
    using assms by (intro sorted_nth_mono) simp_all
  then have le: "event_key ?a \<le> event_key ?b" using assms by simp
  have kinds: "\<not> ''note_on'' \<le> ''note_off''" by (simp add: list_le_def list_less_def)
  show ?thesis using le kinds by (auto simp: event_key_def less_eq_prod_def Let_def)
qed

theorem written_events_ordered_witness:
  "ev_time_s (sort_key event_key demo_events ! 0) \<le> ev_time_s (sort_key event_key demo_events ! 1)"
  using written_events_ordered [of 0 1 demo_events] by (simp add: Let_def demo_events_def)

end
