(* ===== verification/Identifiers.thy ===== *)
theory Identifiers
  imports Prelude
begin

text \<open>
  Textual identifiers. The canonical text of a \<open>UUID\<close> and the proof that sorting by it is
  sorting by the 128-bit value; the stable identifiers of node metadata
  (\<open>_STABLE_ID\<close> and \<open>_TYPE_ID\<close> of nodes/base.py); decimal numerals, and the socket
  identifiers \<open>prefix_index\<close> of a variadic input family.
\<close>

section \<open>Fixed-width digit strings\<close>

lemma list_less_append:
  fixes a b c d :: "'a::linorder list"
  assumes "length a = length b"
  shows "a @ c < b @ d \<longleftrightarrow> a < b \<or> (a = b \<and> c < d)"
  using assms
  by (induction a b rule: list_induct2) (auto simp: list_less_def lexord_append_left_rightI)

lemma list_less_Cons [simp]:
  fixes x y :: "'a::linorder"
  shows "x # xs < y # ys \<longleftrightarrow> x < y \<or> (x = y \<and> xs < ys)"
  by (simp add: list_less_def)

lemma list_not_less_Nil [simp]: "\<not> (xs :: 'a::linorder list) < []"
  by (simp add: list_less_def)

fun digits_of :: "(nat \<Rightarrow> char) \<Rightarrow> nat \<Rightarrow> nat \<Rightarrow> nat \<Rightarrow> string" where
  "digits_of dig b 0 n = []"
| "digits_of dig b (Suc w) n = digits_of dig b w (n div b) @ [dig (n mod b)]"

lemma length_digits_of [simp]: "length (digits_of dig b w n) = w"
  by (induction w arbitrary: n) auto

lemma digits_of_inj:
  assumes dig: "\<And>i j. i < b \<Longrightarrow> j < b \<Longrightarrow> dig i < dig j \<longleftrightarrow> i < j"
    and b: "0 < b"
  shows "n < b ^ w \<Longrightarrow> m < b ^ w \<Longrightarrow> digits_of dig b w n = digits_of dig b w m \<Longrightarrow> n = m"
proof (induction w arbitrary: n m)
  case 0
  then show ?case by simp
next
  case (Suc w)
  from Suc.prems b have "n div b < b ^ w" "m div b < b ^ w"
    by (simp_all add: div_less_iff_less_mult mult.commute)
  moreover from Suc.prems(3) have d: "dig (n mod b) = dig (m mod b)" by auto
  moreover from Suc.prems(3) have "digits_of dig b w (n div b) = digits_of dig b w (m div b)"
    by auto
  ultimately have "n div b = m div b" by (intro Suc.IH)
  moreover have "n mod b = m mod b"
    using d dig [of "n mod b" "m mod b"] dig [of "m mod b" "n mod b"] b
    by (metis linorder_neqE_nat mod_less_divisor order_less_irrefl)
  ultimately show ?case by (metis div_mult_mod_eq)
qed

text \<open>On numbers that fit the width, text order is numeric order.\<close>

lemma digits_of_less:
  assumes dig: "\<And>i j. i < b \<Longrightarrow> j < b \<Longrightarrow> dig i < dig j \<longleftrightarrow> i < j"
    and b: "0 < b"
  shows "n < b ^ w \<Longrightarrow> m < b ^ w \<Longrightarrow> digits_of dig b w n < digits_of dig b w m \<longleftrightarrow> n < m"
proof (induction w arbitrary: n m)
  case 0
  then show ?case by simp
next
  case (Suc w)
  from Suc.prems b have nm: "n div b < b ^ w" "m div b < b ^ w"
    by (simp_all add: div_less_iff_less_mult mult.commute)
  have "digits_of dig b (Suc w) n < digits_of dig b (Suc w) m \<longleftrightarrow>
      n div b < m div b \<or> (n div b = m div b \<and> n mod b < m mod b)"
    using Suc.IH [OF nm] digits_of_inj [OF dig b nm] dig [of "n mod b" "m mod b"] b
    by (auto simp: list_less_append)
  also have "\<dots> \<longleftrightarrow> n < m"
  proof (cases "n div b = m div b")
    case True
    then show ?thesis
      by (metis add_less_cancel_left div_mult_mod_eq order_less_irrefl)
  next
    case False
    then show ?thesis
      by (metis div_le_mono linorder_not_le order_le_imp_less_or_eq order_less_imp_le)
  qed
  finally show ?case .
qed

section \<open>The canonical text of a UUID\<close>

definition hex_char :: "nat \<Rightarrow> char" where
  "hex_char i = (if i < 10 then char_of (48 + i) else char_of (87 + i))"

lemma of_char_hex_char: "i < 16 \<Longrightarrow> of_char (hex_char i) = (if i < 10 then 48 + i else 87 + i)"
  by (simp add: hex_char_def)

lemma hex_char_less: "i < 16 \<Longrightarrow> j < 16 \<Longrightarrow> hex_char i < hex_char j \<longleftrightarrow> i < j"
  using of_char_hex_char [of i] of_char_hex_char [of j]
  by (simp add: less_char_def split: if_splits)

text \<open>\<open>str(uuid)\<close>: 32 hexadecimal digits grouped 8-4-4-4-12.\<close>

definition uuid_str :: "uuid \<Rightarrow> string" where
  "uuid_str u = (let h = digits_of hex_char 16 32 u in
     take 8 h @ ''-'' @ take 4 (drop 8 h) @ ''-'' @ take 4 (drop 12 h) @ ''-'' @
     take 4 (drop 16 h) @ ''-'' @ drop 20 h)"

lemma list_less_split:
  fixes h k :: "'a::linorder list"
  assumes "length h = length k"
  shows "h < k \<longleftrightarrow> take n h < take n k \<or> (take n h = take n k \<and> drop n h < drop n k)"
proof -
  have "take n h @ drop n h < take n k @ drop n k \<longleftrightarrow>
      take n h < take n k \<or> (take n h = take n k \<and> drop n h < drop n k)"
    using assms by (intro list_less_append) simp
  then show ?thesis by simp
qed

theorem uuid_str_order:
  assumes "u < 2 ^ 128" and "v < 2 ^ 128"
  shows "uuid_str u < uuid_str v \<longleftrightarrow> u < v"
proof -
  let ?h = "digits_of hex_char 16 32 u" and ?k = "digits_of hex_char 16 32 v"
  have len: "length ?h = 32" "length ?k = 32" by simp_all
  have "uuid_str u < uuid_str v \<longleftrightarrow> ?h < ?k"
    using len
    by (simp add: uuid_str_def Let_def list_less_append list_less_split [of ?h ?k 8]
        list_less_split [of "drop 8 ?h" "drop 8 ?k" 4]
        list_less_split [of "drop 12 ?h" "drop 12 ?k" 4]
        list_less_split [of "drop 16 ?h" "drop 16 ?k" 4])
  also have "\<dots> \<longleftrightarrow> u < v"
    using assms by (intro digits_of_less) (simp_all add: hex_char_less)
  finally show ?thesis .
qed

section \<open>Stable identifiers\<close>

definition is_lower :: "char \<Rightarrow> bool" where
  "is_lower c \<longleftrightarrow> CHR ''a'' \<le> c \<and> c \<le> CHR ''z''"

definition is_upper :: "char \<Rightarrow> bool" where
  "is_upper c \<longleftrightarrow> CHR ''A'' \<le> c \<and> c \<le> CHR ''Z''"

definition is_digit :: "char \<Rightarrow> bool" where
  "is_digit c \<longleftrightarrow> CHR ''0'' \<le> c \<and> c \<le> CHR ''9''"

text \<open>\<open>^[a-z][a-z0-9_]*$\<close>, \<open>^[a-z][a-z0-9_.]*$\<close> and \<open>[A-Z][A-Z0-9_]*\<close>, each as \<open>fullmatch\<close>.\<close>

fun stable_id :: "string \<Rightarrow> bool" where
  "stable_id [] = False"
| "stable_id (c # cs) =
     (is_lower c \<and> list_all (\<lambda>x. is_lower x \<or> is_digit x \<or> x = CHR ''_'') cs)"

fun type_id_ok :: "string \<Rightarrow> bool" where
  "type_id_ok [] = False"
| "type_id_ok (c # cs) =
     (is_lower c \<and> list_all (\<lambda>x. is_lower x \<or> is_digit x \<or> x = CHR ''_'' \<or> x = CHR ''.'') cs)"

fun variable_name_ok :: "string \<Rightarrow> bool" where
  "variable_name_ok [] = False"
| "variable_name_ok (c # cs) =
     (is_upper c \<and> list_all (\<lambda>x. is_upper x \<or> is_digit x \<or> x = CHR ''_'') cs)"

definition validate_stable_id :: "string \<Rightarrow> string \<Rightarrow> unit res" where
  "validate_stable_id v kind =
     (if \<not> stable_id v then Inl (ValueError (Msg ''Invalid stable {} ID: {}'' [ArgStr kind, ArgStr v]))
      else Inr ())"

text \<open>\<open>_ensure_unique\<close>: the loop stops at the first repeated value.\<close>

fun ensure_unique_from :: "string set \<Rightarrow> string list \<Rightarrow> string \<Rightarrow> unit res" where
  "ensure_unique_from seen [] kind = Inr ()"
| "ensure_unique_from seen (v # vs) kind =
     (if v \<in> seen then Inl (ValueError (Msg ''Duplicate {} ID: {}'' [ArgStr kind, ArgStr v]))
      else ensure_unique_from (insert v seen) vs kind)"

definition ensure_unique :: "string list \<Rightarrow> string \<Rightarrow> unit res" where
  "ensure_unique vs kind = ensure_unique_from {} vs kind"

lemma ensure_unique_from_iff:
  "ensure_unique_from seen vs kind = Inr () \<longleftrightarrow> distinct vs \<and> set vs \<inter> seen = {}"
  by (induction vs arbitrary: seen) auto

lemma ensure_unique_iff [simp]: "ensure_unique vs kind = Inr () \<longleftrightarrow> distinct vs"
  by (simp add: ensure_unique_def ensure_unique_from_iff)

section \<open>Decimal numerals\<close>

definition digit_char :: "nat \<Rightarrow> char" where
  "digit_char d = char_of (48 + d)"

definition digit_val :: "char \<Rightarrow> nat" where
  "digit_val c = of_char c - 48"

text \<open>\<open>str(n)\<close> and \<open>int(text)\<close> for texts of ASCII digits.\<close>

fun show_nat :: "nat \<Rightarrow> string" where
  "show_nat n = (if n < 10 then [digit_char n] else show_nat (n div 10) @ [digit_char (n mod 10)])"

declare show_nat.simps [simp del]

definition read_nat :: "string \<Rightarrow> nat" where
  "read_nat s = foldl (\<lambda>n c. 10 * n + digit_val c) 0 s"

lemma digit_val_char [simp]: "d < 10 \<Longrightarrow> digit_val (digit_char d) = d"
  by (simp add: digit_val_def digit_char_def)

lemma is_digit_char [simp]: "d < 10 \<Longrightarrow> is_digit (digit_char d)"
  by (simp add: is_digit_def digit_char_def less_eq_char_def)

lemma read_show_nat [simp]: "read_nat (show_nat n) = n"
proof (induction n rule: show_nat.induct)
  case (1 n)
  show ?case
  proof (cases "n < 10")
    case True
    then show ?thesis by (simp add: show_nat.simps [of n] read_nat_def)
  next
    case False
    with 1 have "read_nat (show_nat (n div 10)) = n div 10" by simp
    with False show ?thesis by (simp add: show_nat.simps [of n] read_nat_def)
  qed
qed

text \<open>\<open>[1-9][0-9]*\<close>\<close>

fun positive_numeral :: "string \<Rightarrow> bool" where
  "positive_numeral [] = False"
| "positive_numeral (c # cs) = (is_digit c \<and> c \<noteq> CHR ''0'' \<and> list_all is_digit cs)"

lemma positive_numeral_append_digit:
  "positive_numeral s \<Longrightarrow> is_digit c \<Longrightarrow> positive_numeral (s @ [c])"
  by (cases s) auto

lemma positive_numeral_show_nat: "0 < n \<Longrightarrow> positive_numeral (show_nat n)"
proof (induction n rule: show_nat.induct)
  case (1 n)
  show ?case
  proof (cases "n < 10")
    case True
    have "digit_char n \<noteq> CHR ''0''"
      using True \<open>0 < n\<close> digit_val_char [of n] by (auto simp: digit_val_def)
    with True show ?thesis by (simp add: show_nat.simps [of n])
  next
    case False
    with 1 show ?thesis
      by (simp add: show_nat.simps [of n] positive_numeral_append_digit)
  qed
qed

lemma is_digit_cases:
  assumes "is_digit c"
  shows "digit_val c < 10" and "digit_char (digit_val c) = c"
proof -
  from assms have "48 \<le> (of_char c :: nat)" "(of_char c :: nat) \<le> 57"
    by (simp_all add: is_digit_def less_eq_char_def)
  then show "digit_val c < 10" "digit_char (digit_val c) = c"
    by (simp_all add: digit_val_def digit_char_def)
qed

lemma read_nat_snoc [simp]: "read_nat (s @ [c]) = 10 * read_nat s + digit_val c"
  by (simp add: read_nat_def)

lemma show_read_nat:
  "positive_numeral s \<Longrightarrow> show_nat (read_nat s) = s \<and> 0 < read_nat s"
proof (induction s rule: rev_induct)
  case Nil
  then show ?case by simp
next
  case (snoc c s)
  show ?case
  proof (cases "s = []")
    case True
    with snoc.prems have c: "is_digit c" "c \<noteq> CHR ''0''" by simp_all
    from c(2) have "(of_char c :: nat) \<noteq> of_char (CHR ''0'')"
      by (simp only: of_char_eq_iff not_False_eq_True)
    with c(1) have "digit_val c \<noteq> 0"
      by (simp add: digit_val_def is_digit_def less_eq_char_def)
    with True c is_digit_cases [OF c(1)] show ?thesis
      by (simp add: read_nat_def show_nat.simps [of "digit_val c"])
  next
    case False
    with snoc.prems have s: "positive_numeral s" and c: "is_digit c"
      by (cases s; simp)+
    from snoc.IH [OF s] have "show_nat (read_nat s) = s" "0 < read_nat s" by simp_all
    with is_digit_cases [OF c] show ?thesis
      by (simp add: show_nat.simps [of "10 * read_nat s + digit_val c"])
  qed
qed

end
