(* ===== verification/Values.thy ===== *)
theory Values
  imports Float64 Identifiers
begin

text \<open>
  The runtime values of \<^verbatim>\<open>contracts/runtime_values.py\<close>: port types, frame contexts, image
  and channel frames, colours, matrices, MIDI note keys and states, value arrays, and the
  persisted literals. A constructor function \<open>*_init\<close> is the dataclass with its
  \<open>__post_init__\<close> checks. Of a numpy array the program's contract reads the element type,
  the shape and two flags; the elements are represented by an opaque payload.
\<close>

section \<open>Enumerations\<close>

datatype port_type =
    IMAGE | CHANNEL | FLOAT | INT_T | BOOL | COLOR | MATRIX | MIDI_STATE | STRING
  | SCALAR_ARRAY | IMAGE_ARRAY | CHANNEL_ARRAY

datatype color_space = LINEAR_RGB | SRGB | RGBA | HSV | HSL | LAB | YCRCB

datatype alpha_mode = ALPHA_NONE | STRAIGHT | PREMULTIPLIED

datatype channel_semantic =
    GENERIC | LUMINANCE | RED | GREEN | BLUE | ALPHA | HUE | SATURATION | VALUE | LIGHTNESS
  | LAB_A | LAB_B | CHROMA_RED | CHROMA_BLUE

section \<open>Frame contexts\<close>

record frame_context =
  clock_id :: uuid
  tick_index :: int
  source_frame_index :: "int option"
  source_time_s :: pyfloat
  received_monotonic_ns :: int
  deadline_monotonic_ns :: "int option"
  is_realtime :: bool
  publish_generation :: int

definition frame_context_init ::
  "uuid \<Rightarrow> int \<Rightarrow> int option \<Rightarrow> pyfloat \<Rightarrow> int \<Rightarrow> int option \<Rightarrow> bool \<Rightarrow> int \<Rightarrow> frame_context res" where
  "frame_context_init cid tick sfi time recv deadline rt gen =
     (if tick < 1 then Inl (ValueError (Msg ''tick_index must be at least 1'' []))
      else if (case sfi of Some i \<Rightarrow> i < 0 | None \<Rightarrow> False)
        then Inl (ValueError (Msg ''source_frame_index cannot be negative'' []))
      else if \<not> is_finite time \<or> pf_less time (Fin 0)
        then Inl (ValueError (Msg ''source_time_s must be finite and non-negative'' []))
      else if recv < 0 then Inl (ValueError (Msg ''received_monotonic_ns cannot be negative'' []))
      else if (case deadline of Some d \<Rightarrow> d < 0 | None \<Rightarrow> False)
        then Inl (ValueError (Msg ''deadline_monotonic_ns cannot be negative'' []))
      else if gen < 0 then Inl (ValueError (Msg ''publish_generation cannot be negative'' []))
      else Inr \<lparr>clock_id = cid, tick_index = tick, source_frame_index = sfi, source_time_s = time,
        received_monotonic_ns = recv, deadline_monotonic_ns = deadline, is_realtime = rt,
        publish_generation = gen\<rparr>)"

record frame_provenance =
  source_node_id :: uuid
  source_kind :: string

definition frame_provenance_init :: "uuid \<Rightarrow> string \<Rightarrow> frame_provenance res" where
  "frame_provenance_init n k =
     (if k = [] then Inl (ValueError (Msg ''source_kind cannot be empty'' []))
      else Inr \<lparr>source_node_id = n, source_kind = k\<rparr>)"

section \<open>Array frames\<close>

record nd_array =
  is_float32 :: bool
  shape :: "nat list"
  writeable :: bool
  c_contiguous :: bool
  payload :: nat

definition validate_read_only_float32 :: "nd_array \<Rightarrow> nat \<Rightarrow> unit res" where
  "validate_read_only_float32 data dimensions =
     (if \<not> is_float32 data then Inl (TypeError (Msg ''runtime arrays must use float32'' []))
      else if length (shape data) \<noteq> dimensions
        then Inl (ValueError (Msg ''runtime array must have {} dimensions'' [ArgInt (int dimensions)]))
      else if writeable data then Inl (ValueError (Msg ''runtime arrays must be read-only'' []))
      else Inr ())"

text \<open>
  \<open>read_only_float32\<close>: an array that already satisfies the boundary contract is passed on,
  any other is converted, copied and frozen. \<open>convert\<close> stands for numpy's element conversion.
\<close>

definition read_only_float32 :: "(nat \<Rightarrow> nat) \<Rightarrow> nd_array \<Rightarrow> nd_array" where
  "read_only_float32 convert data =
     (if is_float32 data \<and> c_contiguous data \<and> \<not> writeable data then data
      else data\<lparr>is_float32 := True, c_contiguous := True, writeable := False,
                payload := (if is_float32 data then payload data else convert (payload data))\<rparr>)"

record image_frame =
  img_data :: nd_array
  img_color_space :: color_space
  channel_names :: "string list"
  img_alpha_mode :: alpha_mode
  img_context :: frame_context
  img_provenance :: frame_provenance

definition image_frame_init ::
  "nd_array \<Rightarrow> color_space \<Rightarrow> string list \<Rightarrow> alpha_mode \<Rightarrow> frame_context \<Rightarrow> frame_provenance \<Rightarrow>
   image_frame res" where
  "image_frame_init data cs names am ctx prov =
     bind_res (validate_read_only_float32 data 3) (\<lambda>_.
       if shape data ! 2 < 1
         then Inl (ValueError (Msg ''image data must contain at least one channel'' []))
       else if shape data ! 2 \<noteq> length names
         then Inl (ValueError (Msg ''channel_names must match the image channel count'' []))
       else if \<not> c_contiguous data then Inl (ValueError (Msg ''image data must be C-contiguous'' []))
       else Inr \<lparr>img_data = data, img_color_space = cs, channel_names = names, img_alpha_mode = am,
                 img_context = ctx, img_provenance = prov\<rparr>)"

record channel_frame =
  ch_data :: nd_array
  ch_semantic :: channel_semantic
  nominal_min :: pyfloat
  nominal_max :: pyfloat
  cyclic :: bool
  ch_context :: frame_context

definition channel_frame_init ::
  "nd_array \<Rightarrow> channel_semantic \<Rightarrow> pyfloat \<Rightarrow> pyfloat \<Rightarrow> bool \<Rightarrow> frame_context \<Rightarrow> channel_frame res" where
  "channel_frame_init data sem lo hi cyc ctx =
     bind_res (validate_read_only_float32 data 2) (\<lambda>_.
       if \<not> is_finite lo \<or> \<not> is_finite hi
         then Inl (ValueError (Msg ''channel nominal range must be finite'' []))
       else if pf_less hi lo \<or> pf_eq hi lo
         then Inl (ValueError (Msg ''nominal_max must be greater than nominal_min'' []))
       else Inr \<lparr>ch_data = data, ch_semantic = sem, nominal_min = lo, nominal_max = hi,
                 cyclic = cyc, ch_context = ctx\<rparr>)"

section \<open>Colours and matrices\<close>

record color_value =
  c_r :: pyfloat
  c_g :: pyfloat
  c_b :: pyfloat
  c_a :: pyfloat

definition color_value_init :: "pyfloat \<Rightarrow> pyfloat \<Rightarrow> pyfloat \<Rightarrow> pyfloat \<Rightarrow> color_value res" where
  "color_value_init r g b a =
     (if list_ex (\<lambda>x. \<not> is_finite x \<or> pf_less x (Fin 0) \<or> pf_less (Fin 1) x) [r, g, b, a]
      then Inl (ValueError (Msg ''color components must be finite and normalized to the range 0..1'' []))
      else Inr \<lparr>c_r = r, c_g = g, c_b = b, c_a = a\<rparr>)"

definition color_eq :: "color_value \<Rightarrow> color_value \<Rightarrow> bool" where
  "color_eq x y \<longleftrightarrow> pf_eq (c_r x) (c_r y) \<and> pf_eq (c_g x) (c_g y) \<and> pf_eq (c_b x) (c_b y) \<and>
     pf_eq (c_a x) (c_a y)"

text \<open>
  The persisted literals: a float, an integer, a boolean, a string, a colour, a matrix, or the
  absent value. The matrix holds its normalised rows.
\<close>

datatype literal =
    LFloat pyfloat | LInt int | LBool bool | LStr string | LColor color_value
  | LMatrix "pyfloat list list" | LNone

fun matrix_entry :: "literal \<Rightarrow> pyfloat res" where
  "matrix_entry (LFloat f) =
     (if is_finite f then Inr f else Inl (ValueError (Msg ''numeric matrix entries must be finite'' [])))"
| "matrix_entry (LInt i) =
     (case float_of_int i of Some x \<Rightarrow> Inr (Fin x)
      | None \<Rightarrow> Inl (ValueError (Msg ''numeric matrix entries must be finite'' [])))"
| "matrix_entry _ = Inl (TypeError (Msg ''numeric matrix entries must be numbers'' []))"

fun matrix_row :: "literal list \<Rightarrow> pyfloat list res" where
  "matrix_row [] = Inr []"
| "matrix_row (v # vs) = bind_res (matrix_entry v) (\<lambda>x. bind_res (matrix_row vs) (\<lambda>xs. Inr (x # xs)))"

fun matrix_rows :: "nat \<Rightarrow> literal list list \<Rightarrow> pyfloat list list res" where
  "matrix_rows w [] = Inr []"
| "matrix_rows w (r # rs) =
     (if length r \<noteq> w then Inl (ValueError (Msg ''numeric matrix rows must have equal lengths'' []))
      else bind_res (matrix_row r) (\<lambda>x. bind_res (matrix_rows w rs) (\<lambda>xs. Inr (x # xs))))"

definition numeric_matrix_init :: "literal list list \<Rightarrow> literal res" where
  "numeric_matrix_init rows =
     (case rows of
        [] \<Rightarrow> Inl (ValueError (Msg ''numeric matrix must contain at least one row'' []))
      | r # _ \<Rightarrow>
         if length r < 1 then Inl (ValueError (Msg ''numeric matrix rows must not be empty'' []))
         else bind_res (matrix_rows (length r) rows) (\<lambda>xs. Inr (LMatrix xs)))"

text \<open>
  Python's equality on literals. Numbers compare by value across \<open>int\<close>, \<open>float\<close> and
  \<open>bool\<close>, so \<open>1 == 1.0 == True\<close>; a value of another type is equal only to its like. (NaN is
  unequal to every value; the identity shortcut of containers is not modelled.)
\<close>

fun lit_num :: "literal \<Rightarrow> pyfloat option" where
  "lit_num (LFloat f) = Some f"
| "lit_num (LInt i) = Some (Fin (of_int i))"
| "lit_num (LBool b) = Some (Fin (if b then 1 else 0))"
| "lit_num _ = None"

fun lit_eq :: "literal \<Rightarrow> literal \<Rightarrow> bool" where
  "lit_eq (LStr a) (LStr b) = (a = b)"
| "lit_eq (LColor a) (LColor b) = color_eq a b"
| "lit_eq (LMatrix a) (LMatrix b) = list_all2 (list_all2 pf_eq) a b"
| "lit_eq LNone LNone = True"
| "lit_eq a b = (case (lit_num a, lit_num b) of (Some x, Some y) \<Rightarrow> pf_eq x y | _ \<Rightarrow> False)"

section \<open>MIDI note keys and states\<close>

datatype midi_note_key = MidiNoteKey (nk_channel: int) (nk_note: int)

text \<open>\<open>order=True\<close>: keys are ordered by channel, then note.\<close>

instantiation midi_note_key :: linorder
begin

definition less_eq_midi_note_key :: "midi_note_key \<Rightarrow> midi_note_key \<Rightarrow> bool" where
  "less_eq_midi_note_key a b \<longleftrightarrow>
     nk_channel a < nk_channel b \<or> (nk_channel a = nk_channel b \<and> nk_note a \<le> nk_note b)"

definition less_midi_note_key :: "midi_note_key \<Rightarrow> midi_note_key \<Rightarrow> bool" where
  "less_midi_note_key a b \<longleftrightarrow>
     nk_channel a < nk_channel b \<or> (nk_channel a = nk_channel b \<and> nk_note a < nk_note b)"

instance
  by standard
     (auto simp: less_eq_midi_note_key_def less_midi_note_key_def midi_note_key.expand)

end

definition note_key_ok :: "midi_note_key \<Rightarrow> bool" where
  "note_key_ok k \<longleftrightarrow> 0 \<le> nk_channel k \<and> nk_channel k \<le> 15 \<and> 0 \<le> nk_note k \<and> nk_note k \<le> 127"

definition midi_note_key_init :: "int \<Rightarrow> int \<Rightarrow> midi_note_key res" where
  "midi_note_key_init c n =
     (if \<not> (0 \<le> c \<and> c \<le> 15) then Inl (ValueError (Msg ''MIDI channel must be in the range 0..15'' []))
      else if \<not> (0 \<le> n \<and> n \<le> 127) then Inl (ValueError (Msg ''MIDI note must be in the range 0..127'' []))
      else Inr (MidiNoteKey c n))"

lemma midi_note_key_init_ok: "midi_note_key_init c n = Inr k \<Longrightarrow> note_key_ok k"
  by (auto simp: midi_note_key_init_def note_key_ok_def split: if_splits)

type_synonym note_state = "(midi_note_key, int) dict"

record midi_state_frame =
  msf_notes :: note_state
  msf_context :: frame_context
  msf_source_node_id :: uuid

definition midi_state_frame_init :: "note_state \<Rightarrow> frame_context \<Rightarrow> uuid \<Rightarrow> midi_state_frame res" where
  "midi_state_frame_init notes ctx src =
     (if list_ex (\<lambda>(k, v). \<not> (1 \<le> v \<and> v \<le> 127)) notes
      then Inl (ValueError (Msg ''active MIDI note velocities must be in the range 1..127'' []))
      else Inr \<lparr>msf_notes = notes, msf_context = ctx, msf_source_node_id = src\<rparr>)"

section \<open>Runtime values\<close>

datatype runtime_value =
    RImage image_frame | RChannel channel_frame | RArray port_type "runtime_value list"
  | RFloat pyfloat | RInt int | RBool bool | RColor color_value | RMidi midi_state_frame
  | RStr string | NoData

text \<open>Which class an element of a value array must have.\<close>

fun array_item_ok :: "port_type \<Rightarrow> runtime_value \<Rightarrow> bool" where
  "array_item_ok FLOAT (RFloat _) = True"
| "array_item_ok INT_T (RInt _) = True"
| "array_item_ok IMAGE (RImage _) = True"
| "array_item_ok CHANNEL (RChannel _) = True"
| "array_item_ok _ _ = False"

definition value_array_init :: "port_type \<Rightarrow> runtime_value list \<Rightarrow> runtime_value res" where
  "value_array_init t vs =
     (if t \<notin> {FLOAT, INT_T, IMAGE, CHANNEL}
        then Inl (ValueError (Msg ''ValueArray supports FLOAT, INT_T, IMAGE, or CHANNEL elements'' []))
      else if \<not> list_all (array_item_ok t) vs
        then Inl (TypeError (Msg ''ValueArray values do not match the item type'' []))
      else Inr (RArray t vs))"

text \<open>\<open>clock_id_of\<close>: an array has a clock when its elements agree on exactly one.\<close>

fun clock_id_of :: "runtime_value \<Rightarrow> uuid option" where
  "clock_id_of (RImage f) = Some (clock_id (img_context f))"
| "clock_id_of (RChannel f) = Some (clock_id (ch_context f))"
| "clock_id_of (RMidi f) = Some (clock_id (msf_context f))"
| "clock_id_of (RArray t vs) =
     (case remdups (concat (map (\<lambda>v. case clock_id_of v of None \<Rightarrow> [] | Some c \<Rightarrow> [c]) vs)) of [c] \<Rightarrow> Some c | _ \<Rightarrow> None)"
| "clock_id_of _ = None"

end
