(* ===== verification/MidiState.thy ===== *)
theory MidiState
  imports Values
begin

text \<open>
  The two policies every consumer of MIDI note states shares: the pure difference of two desired
  states (\<^verbatim>\<open>midi/state_diff.py\<close>) and the rejection of states that lost the race
  against a panic (\<^verbatim>\<open>midi/state_ordering.py\<close>). The ordering policy is an interface:
  the locale \<open>panic_ordering\<close> states its laws and derives what a sink may rely on after any
  number of panics; it is interpreted on the code's \<open>StateOrdering\<close>.
\<close>

section \<open>Difference of note states\<close>

record 'k midi_state_diff =
  diff_removed :: "'k list"
  diff_added :: "('k \<times> int) list"

text \<open>\<open>previous\<close> contributes its keys in order, \<open>current\<close> its keys and velocities.\<close>

definition diff_midi_states :: "'k list \<Rightarrow> ('k, int) dict \<Rightarrow> 'k midi_state_diff" where
  "diff_midi_states previous current =
     \<lparr>diff_removed = filter (\<lambda>k. k \<notin> set (dict_keys current)) previous,
      diff_added = filter (\<lambda>(k, v). k \<notin> set previous) current\<rparr>"

lemma set_diff_removed [simp]:
  "set (diff_removed (diff_midi_states p c)) = set p - set (dict_keys c)"
  by (auto simp: diff_midi_states_def)

lemma set_diff_added [simp]:
  "fst ` set (diff_added (diff_midi_states p c)) = fst ` set c - set p"
  by (force simp: diff_midi_states_def)

lemma dict_ok_diff_added: "dict_ok c \<Longrightarrow> dict_ok (diff_added (diff_midi_states p c))"
  by (simp add: diff_midi_states_def)

text \<open>Applying a difference to a set of sounding keys: the removed leave, the added enter.\<close>

definition apply_diff :: "'k midi_state_diff \<Rightarrow> 'k set \<Rightarrow> 'k set" where
  "apply_diff d s = (s - set (diff_removed d)) \<union> fst ` set (diff_added d)"

text \<open>
  C39. The difference of two states is exact: applied to the previous keys it gives the current
  keys; removed and added keys are disjoint, no key is listed twice, every added key carries its
  current velocity, and the order is determined: the removed keys stand in the order of the
  previous state, the added ones in the order of the current state.
\<close>

theorem diff_midi_states_exact:
  assumes "distinct previous" and "dict_ok current"
  shows "apply_diff (diff_midi_states previous current) (set previous) = set (dict_keys current) \<and>
    set (diff_removed (diff_midi_states previous current)) \<inter>
      set (dict_keys (diff_added (diff_midi_states previous current))) = {} \<and>
    distinct (diff_removed (diff_midi_states previous current)) \<and>
    dict_ok (diff_added (diff_midi_states previous current)) \<and>
    subseq (diff_removed (diff_midi_states previous current)) previous \<and>
    subseq (diff_added (diff_midi_states previous current)) current \<and>
    (\<forall>k. dict_get (diff_added (diff_midi_states previous current)) k =
      (if k \<in> set previous then None else dict_get current k))"
proof (intro conjI allI)
  fix k
  show "dict_get (diff_added (diff_midi_states previous current)) k =
      (if k \<in> set previous then None else dict_get current k)"
    using dict_get_filter [OF assms(2), of "\<lambda>(k, v). k \<notin> set previous" k]
    by (auto simp: diff_midi_states_def split: option.splits)
qed (use assms in \<open>auto simp: apply_diff_def dict_ok_diff_added diff_midi_states_def intro: subseq_filter_left\<close>)

theorem diff_midi_states_exact_witness:
  "apply_diff (diff_midi_states [3, 2, 1 :: nat] [(2, 64), (4, 90)]) {1, 2, 3} = {2, 4} \<and>
   subseq (diff_removed (diff_midi_states [3, 2, 1 :: nat] [(2, 64), (4, 90)])) [3, 2, 1]"
proof -
  have "dict_ok [(2 :: nat, 64 :: int), (4, 90)]" by (simp add: dict_ok_def)
  from diff_midi_states_exact [OF _ this, of "[3, 2, 1]"] show ?thesis by (simp add: insert_commute)
qed

section \<open>Ordering of states against panics\<close>

record state_ordering =
  stale_upto_generation :: int

definition state_ordering_init :: state_ordering where
  "state_ordering_init = \<lparr>stale_upto_generation = 0\<rparr>"

definition record_panic :: "state_ordering \<Rightarrow> int \<Rightarrow> state_ordering res" where
  "record_panic s g =
     (if g < 0 then Inl (ValueError (Msg ''publish_generation cannot be negative'' []))
      else Inr (s\<lparr>stale_upto_generation := max (stale_upto_generation s) g\<rparr>))"

definition is_stale :: "state_ordering \<Rightarrow> int \<Rightarrow> bool" where
  "is_stale s g \<longleftrightarrow> 0 < g \<and> g \<le> stale_upto_generation s"

locale panic_ordering =
  fixes fresh :: 'o
    and panic :: "'o \<Rightarrow> int \<Rightarrow> 'o res"
    and stale :: "'o \<Rightarrow> int \<Rightarrow> bool"
  assumes fresh_not_stale: "\<not> stale fresh g"
    and panic_rejects: "g < 0 \<Longrightarrow> \<exists>e. panic s g = Inl e"
    and panic_accepts: "0 \<le> g \<Longrightarrow> \<exists>s'. panic s g = Inr s'"
    and panic_stale: "panic s g = Inr s' \<Longrightarrow> stale s' x \<longleftrightarrow> stale s x \<or> (0 < x \<and> x \<le> g)"
begin

lemma panics_stale:
  "foldM (\<lambda>g s. panic s g) gs s = Inr s' \<Longrightarrow>
   stale s' x \<longleftrightarrow> stale s x \<or> (\<exists>g \<in> set gs. 0 < x \<and> x \<le> g)"
proof (induction gs arbitrary: s)
  case Nil
  then show ?case by simp
next
  case (Cons g gs)
  from Cons.prems obtain t where t: "panic s g = Inr t" "foldM (\<lambda>g s. panic s g) gs t = Inr s'"
    by (auto simp: bind_res_eq_Inr)
  from Cons.IH [OF t(2)] panic_stale [OF t(1), of x] show ?case by auto
qed

lemma panics_accepted: "\<forall>g \<in> set gs. 0 \<le> g \<Longrightarrow> \<exists>s'. foldM (\<lambda>g s. panic s g) gs s = Inr s'"
proof (induction gs arbitrary: s)
  case Nil
  then show ?case by simp
next
  case (Cons g gs)
  then obtain t where "panic s g = Inr t" using panic_accepts by force
  with Cons show ?case by simp
qed

lemma stale_after_panics:
  "foldM (\<lambda>g s. panic s g) gs fresh = Inr s' \<Longrightarrow> stale s' x \<longleftrightarrow> 0 < x \<and> (\<exists>g \<in> set gs. x \<le> g)"
  using panics_stale [of gs fresh s' x] fresh_not_stale by auto

lemma panic_keeps_stale: "panic s g = Inr s' \<Longrightarrow> stale s x \<Longrightarrow> stale s' x"
  by (simp add: panic_stale)

end

interpretation so: panic_ordering state_ordering_init record_panic is_stale
  by unfold_locales
     (auto simp: state_ordering_init_def record_panic_def is_stale_def split: if_splits)

text \<open>
  C40. Panic watermark: after any sequence of accepted panics, a state is rejected exactly when it
  was ordered by the engine (positive generation) at or below the generation of one of them; in
  particular states of generation 0 are never rejected and a panic of generation 0 rejects nothing.
\<close>

theorem stale_iff_after_panics:
  assumes "foldM (\<lambda>g s. record_panic s g) gs state_ordering_init = Inr s"
  shows "is_stale s x \<longleftrightarrow> 0 < x \<and> (\<exists>g \<in> set gs. x \<le> g)"
  using assms by (rule so.stale_after_panics)

theorem stale_iff_after_panics_witness:
  "is_stale \<lparr>stale_upto_generation = 7\<rparr> 5 \<and> \<not> is_stale \<lparr>stale_upto_generation = 7\<rparr> 8"
  using stale_iff_after_panics [of "[3, 7, 0]" "\<lparr>stale_upto_generation = 7\<rparr>"]
  by (simp add: record_panic_def state_ordering_init_def)

end
