(* ===== verification/OutputService.thy ===== *)
theory OutputService
  imports MidiState
begin

text \<open>
  The MIDI output service of \<^verbatim>\<open>midi/output_service.py\<close>. The service state is one
  record; the operations of the graph threads (publish, panic, refresh, close) and the steps of
  the sender thread are functions on it. Port opening and sending may raise: the environment
  \<open>env\<close> says which wire operation, counted by its position in the wire log, succeeds, and the
  log records every attempt. The port object and its name are set and cleared together in the
  code, so they are one field.
\<close>

section \<open>Messages\<close>

datatype velocity_update_policy = IGNORE_WHILE_HELD | RETRIGGER | REPEAT_NOTE_ON

datatype midi_message_type = NOTE_ON | NOTE_OFF | CONTROL_CHANGE

record midi_message =
  message_type :: midi_message_type
  mm_channel :: int
  mm_note :: "int option"
  mm_velocity :: "int option"
  mm_control :: "int option"
  mm_value :: "int option"

definition in_7bit :: "int option \<Rightarrow> bool" where
  "in_7bit x = (case x of None \<Rightarrow> False | Some v \<Rightarrow> 0 \<le> v \<and> v \<le> 127)"

definition midi_message_init ::
  "midi_message_type \<Rightarrow> int \<Rightarrow> int option \<Rightarrow> int option \<Rightarrow> int option \<Rightarrow> int option \<Rightarrow> midi_message res" where
  "midi_message_init t c n v ctl x =
     (if \<not> (0 \<le> c \<and> c \<le> 15)
        then Inl (ValueError (Msg ''MIDI message channel must be in the range 0..15'' []))
      else if t \<in> {NOTE_ON, NOTE_OFF} then
        (if \<not> in_7bit n then Inl (ValueError (Msg ''MIDI note message requires a note in the range 0..127'' []))
         else if \<not> in_7bit v then Inl (ValueError (Msg ''MIDI note message requires a velocity in the range 0..127'' []))
         else if ctl \<noteq> None \<or> x \<noteq> None
           then Inl (ValueError (Msg ''MIDI note messages cannot contain control-change values'' []))
         else Inr \<lparr>message_type = t, mm_channel = c, mm_note = n, mm_velocity = v, mm_control = ctl, mm_value = x\<rparr>)
      else
        (if \<not> in_7bit ctl then Inl (ValueError (Msg ''MIDI control change requires a control in the range 0..127'' []))
         else if \<not> in_7bit x then Inl (ValueError (Msg ''MIDI control change requires a value in the range 0..127'' []))
         else if n \<noteq> None \<or> v \<noteq> None
           then Inl (ValueError (Msg ''MIDI control changes cannot contain note values'' []))
         else Inr \<lparr>message_type = t, mm_channel = c, mm_note = n, mm_velocity = v, mm_control = ctl, mm_value = x\<rparr>))"

text \<open>
  The three class methods, as the records they construct; \<open>messages_construct\<close> shows that
  the constructor's checks pass on every validated key, velocity and channel.
\<close>

definition note_on :: "midi_note_key \<Rightarrow> int \<Rightarrow> midi_message" where
  "note_on k v = \<lparr>message_type = NOTE_ON, mm_channel = nk_channel k, mm_note = Some (nk_note k),
     mm_velocity = Some v, mm_control = None, mm_value = None\<rparr>"

definition note_off :: "midi_note_key \<Rightarrow> midi_message" where
  "note_off k = \<lparr>message_type = NOTE_OFF, mm_channel = nk_channel k, mm_note = Some (nk_note k),
     mm_velocity = Some 0, mm_control = None, mm_value = None\<rparr>"

definition all_notes_off :: "int \<Rightarrow> midi_message" where
  "all_notes_off c = \<lparr>message_type = CONTROL_CHANGE, mm_channel = c, mm_note = None,
     mm_velocity = None, mm_control = Some 123, mm_value = Some 0\<rparr>"

lemma messages_construct:
  "note_key_ok k \<Longrightarrow> 0 \<le> v \<Longrightarrow> v \<le> 127 \<Longrightarrow>
     midi_message_init NOTE_ON (nk_channel k) (Some (nk_note k)) (Some v) None None = Inr (note_on k v)"
  "note_key_ok k \<Longrightarrow>
     midi_message_init NOTE_OFF (nk_channel k) (Some (nk_note k)) (Some 0) None None = Inr (note_off k)"
  "0 \<le> c \<Longrightarrow> c \<le> 15 \<Longrightarrow>
     midi_message_init CONTROL_CHANGE c None None (Some 123) (Some 0) = Inr (all_notes_off c)"
  by (auto simp: midi_message_init_def note_on_def note_off_def all_notes_off_def note_key_ok_def
      in_7bit_def)

section \<open>Configuration, desired state and service state\<close>

record output_configuration =
  output_port :: string
  velocity_policy :: velocity_update_policy
  velocity_change_threshold :: int

definition output_configuration_init ::
  "string \<Rightarrow> velocity_update_policy \<Rightarrow> int \<Rightarrow> output_configuration res" where
  "output_configuration_init p pol th =
     (if \<not> (0 \<le> th \<and> th \<le> 127)
      then Inl (ValueError (Msg ''velocity_change_threshold must be in the range 0..127'' []))
      else Inr \<lparr>output_port = p, velocity_policy = pol, velocity_change_threshold = th\<rparr>)"

record desired_state =
  ds_notes :: note_state
  ds_configuration :: output_configuration

definition desired_from_frame :: "midi_state_frame \<Rightarrow> output_configuration \<Rightarrow> desired_state" where
  "desired_from_frame f c = \<lparr>ds_notes = msf_notes f, ds_configuration = c\<rparr>"

datatype connection_state = UNSELECTED | UNAVAILABLE | CONNECTING | CONNECTED | CONN_ERROR | CLOSED

datatype wire = WOpen string | WOpenFailed string | WSent midi_message | WFailed midi_message | WClose

record service =
  pending :: "desired_state option"
  latest :: "desired_state option"
  busy :: bool
  closing :: bool
  closed :: bool
  refresh_requested :: bool
  panic_requested :: int
  panic_completed :: int
  dropped_state_updates :: int
  ordering :: state_ordering
  port :: "string option"
  selected_port :: string
  available_ports :: "string list"
  available_port_ids :: "string list"
  available_port_entries :: "(string \<times> string) list"
  sent :: note_state
  used_channels :: "int set"
  conn_state :: connection_state
  last_error :: "message option"
  wire_log :: "wire list"

definition service_init :: service where
  "service_init =
     \<lparr>pending = None, latest = None, busy = False, closing = False, closed = False,
      refresh_requested = True, panic_requested = 0, panic_completed = 0,
      dropped_state_updates = 0, ordering = state_ordering_init, port = None, selected_port = [],
      available_ports = [], available_port_ids = [], available_port_entries = [], sent = [],
      used_channels = {}, conn_state = UNSELECTED, last_error = None, wire_log = []\<rparr>"

section \<open>Operations of the graph threads\<close>

definition ensure_open :: "service \<Rightarrow> unit res" where
  "ensure_open s = (if closing s \<or> closed s
     then Inl (RuntimeError (Msg ''MIDI output service is closed'' [])) else Inr ())"

text \<open>
  \<open>publish\<close> reads the watermark before it takes the lock; \<open>publish_commit\<close> is the locked part.
\<close>

definition publish_commit :: "desired_state \<Rightarrow> service \<Rightarrow> service res" where
  "publish_commit d s =
     bind_res (ensure_open s) (\<lambda>_.
       Inr (s\<lparr>dropped_state_updates :=
                (if pending s \<noteq> None then dropped_state_updates s + 1 else dropped_state_updates s),
              pending := Some d, latest := Some d\<rparr>))"

definition publish :: "midi_state_frame \<Rightarrow> output_configuration \<Rightarrow> service \<Rightarrow> service res" where
  "publish f c s =
     (if is_stale (ordering s) (publish_generation (msf_context f)) then Inr s
      else publish_commit (desired_from_frame f c) s)"

text \<open>
  A panic empties the mailbox before it records the generation, which may raise. Waiting for the
  sender to complete the panic (\<^verbatim>\<open>panic\<close>) adds no state change to \<open>request_panic\<close>.
\<close>

definition request_panic :: "int \<Rightarrow> service \<Rightarrow> unit res \<times> service" where
  "request_panic g s =
     (if closing s \<or> closed s then (Inr (), s)
      else
        let s = s\<lparr>pending := None, latest := None\<rparr> in
        case record_panic (ordering s) g of
          Inl err \<Rightarrow> (Inl err, s)
        | Inr o' \<Rightarrow> (Inr (), s\<lparr>ordering := o', panic_requested := panic_requested s + 1\<rparr>))"

definition refresh_outputs :: "service \<Rightarrow> service res" where
  "refresh_outputs s = bind_res (ensure_open s) (\<lambda>_. Inr (s\<lparr>refresh_requested := True\<rparr>))"

definition close_begin :: "service \<Rightarrow> service" where
  "close_begin s = (if closing s \<or> closed s then s
     else s\<lparr>closing := True, pending := None, latest := None\<rparr>)"

definition is_idle :: "service \<Rightarrow> bool" where
  "is_idle s \<longleftrightarrow> \<not> (pending s \<noteq> None \<or> busy s \<or> refresh_requested s \<or> panic_completed s < panic_requested s)"

definition active_channels :: "service \<Rightarrow> int list" where
  "active_channels s = sorted_list_of_set (nk_channel ` fst ` set (sent s))"

section \<open>Wire operations\<close>

record env =
  send_ok :: "nat \<Rightarrow> bool"
  open_ok :: "nat \<Rightarrow> bool"

definition port_send :: "env \<Rightarrow> midi_message \<Rightarrow> service \<Rightarrow> bool \<times> service" where
  "port_send e m s =
     (if send_ok e (length (wire_log s)) then (True, s\<lparr>wire_log := wire_log s @ [WSent m]\<rparr>)
      else (False, s\<lparr>wire_log := wire_log s @ [WFailed m]\<rparr>))"

definition close_port :: "service \<Rightarrow> service" where
  "close_port s = (case port s of None \<Rightarrow> s
     | Some _ \<Rightarrow> s\<lparr>port := None, wire_log := wire_log s @ [WClose]\<rparr>)"

definition discard_desired_state :: "service \<Rightarrow> service" where
  "discard_desired_state s = s\<lparr>pending := None, latest := None\<rparr>"

text \<open>Every message is attempted; the first failure is remembered.\<close>

fun try_sends :: "env \<Rightarrow> midi_message list \<Rightarrow> bool \<Rightarrow> service \<Rightarrow> bool \<times> service" where
  "try_sends e [] failed s = (failed, s)"
| "try_sends e (m # ms) failed s =
     (case port_send e m s of (ok, s') \<Rightarrow> try_sends e ms (failed \<or> \<not> ok) s')"

definition panic_messages :: "int list \<Rightarrow> service \<Rightarrow> midi_message list" where
  "panic_messages additional s =
     (let sent_keys = sort (dict_keys (sent s));
          channels = sorted_list_of_set (used_channels s \<union> nk_channel ` set sent_keys \<union> set additional)
      in map note_off sent_keys @ map all_notes_off channels)"

text \<open>\<open>_panic_current\<close>: the boolean is \<open>first_error is not None\<close>.\<close>

definition panic_current :: "env \<Rightarrow> bool \<Rightarrow> bool \<Rightarrow> int list \<Rightarrow> service \<Rightarrow> bool \<times> service" where
  "panic_current e close_p initial_error additional s =
     (let (failed, s1) = (if port s \<noteq> None then try_sends e (panic_messages additional s) initial_error s
                          else (initial_error, s));
          s2 = s1\<lparr>sent := [], used_channels := {},
                  last_error := (if failed then Some (Msg ''MIDI panic was best-effort'' []) else last_error s1)\<rparr>;
          s3 = (if close_p \<or> failed then close_port s2 else s2)
      in (failed, s3))"

definition resolve_port_id :: "string \<Rightarrow> service \<Rightarrow> string" where
  "resolve_port_id selected s =
     (if selected = [] then selected
      else let entries = available_port_entries s in
        if list_ex (\<lambda>(d, i). i = selected) entries then selected
        else case map snd (filter (\<lambda>(d, i). d = selected) entries) of [i] \<Rightarrow> i | _ \<Rightarrow> selected)"

definition mark_output_error :: "string \<Rightarrow> service \<Rightarrow> service" where
  "mark_output_error summary s =
     (let available = resolve_port_id (selected_port s) s \<in> set (available_port_ids s) in
      s\<lparr>conn_state := (if available then CONN_ERROR else UNAVAILABLE),
        last_error := Some (Msg summary [])\<rparr>)"

definition handle_send_failure :: "env \<Rightarrow> int \<Rightarrow> service \<Rightarrow> service" where
  "handle_send_failure e attempted_channel s =
     mark_output_error ''MIDI output send failed''
       (snd (panic_current e True True [attempted_channel] (discard_desired_state s)))"

definition send_message :: "env \<Rightarrow> midi_message \<Rightarrow> service \<Rightarrow> bool \<times> service" where
  "send_message e m s =
     (if port s = None then (False, s)
      else case port_send e m s of (ok, s') \<Rightarrow>
        if ok then (True, s') else (False, handle_send_failure e (mm_channel m) s'))"

section \<open>Reconciliation\<close>

text \<open>The loop over the previous state: keys to switch off, and retriggered or repeated notes.\<close>

definition velocity_changes :: "output_configuration \<Rightarrow> int \<Rightarrow> int \<Rightarrow> bool" where
  "velocity_changes c old new \<longleftrightarrow>
     \<not> (new = old \<or> \<bar>new - old\<bar> < velocity_change_threshold c)"

fun scan_sent :: "output_configuration \<Rightarrow> note_state \<Rightarrow> note_state \<Rightarrow>
    midi_note_key list \<times> (midi_note_key \<times> int) list" where
  "scan_sent c desired [] = ([], [])"
| "scan_sent c desired ((k, old) # rest) =
     (let (offs, ons) = scan_sent c desired rest in
      case dict_get desired k of
        None \<Rightarrow> (k # offs, ons)
      | Some new \<Rightarrow>
          if \<not> velocity_changes c old new then (offs, ons)
          else case velocity_policy c of
              RETRIGGER \<Rightarrow> (k # offs, (k, new) # ons)
            | REPEAT_NOTE_ON \<Rightarrow> (offs, (k, new) # ons)
            | IGNORE_WHILE_HELD \<Rightarrow> (offs, ons))"

fun send_offs :: "env \<Rightarrow> midi_note_key list \<Rightarrow> service \<Rightarrow> bool \<times> service" where
  "send_offs e [] s = (True, s)"
| "send_offs e (k # ks) s =
     (case send_message e (note_off k) s of (ok, s') \<Rightarrow>
        if \<not> ok then (False, s') else send_offs e ks (s'\<lparr>sent := dict_del k (sent s')\<rparr>))"

fun send_ons :: "env \<Rightarrow> (midi_note_key \<times> int) list \<Rightarrow> service \<Rightarrow> bool \<times> service" where
  "send_ons e [] s = (True, s)"
| "send_ons e ((k, v) # ks) s =
     (case send_message e (note_on k v) s of (ok, s') \<Rightarrow>
        if \<not> ok then (False, s')
        else send_ons e ks (s'\<lparr>sent := dict_set k v (sent s'),
                               used_channels := insert (nk_channel k) (used_channels s')\<rparr>))"

definition reconcile :: "env \<Rightarrow> note_state \<Rightarrow> output_configuration \<Rightarrow> service \<Rightarrow> service" where
  "reconcile e desired c s =
     (let diff = diff_midi_states (dict_keys (sent s)) desired;
          (note_offs, retrigged_ons) = scan_sent c desired (sent s);
          note_ons = retrigged_ons @ diff_added diff;
          (ok, s1) = send_offs e note_offs s
      in if \<not> ok then s1 else snd (send_ons e note_ons s1))"

section \<open>Applying a desired state\<close>

text \<open>The all-notes-off messages a fresh port receives.\<close>

fun open_resets :: "env \<Rightarrow> int list \<Rightarrow> service \<Rightarrow> bool \<times> service" where
  "open_resets e [] s = (True, s)"
| "open_resets e (c # cs) s =
     (case port_send e (all_notes_off c) s of (ok, s') \<Rightarrow>
        if ok then open_resets e cs s' else (False, handle_send_failure e c s'))"

definition open_exact_port :: "env \<Rightarrow> string \<Rightarrow> desired_state \<Rightarrow> service \<Rightarrow> bool \<times> service" where
  "open_exact_port e p d s0 =
     (let s = s0\<lparr>conn_state := CONNECTING\<rparr> in
      if \<not> open_ok e (length (wire_log s)) then
        (False, s\<lparr>wire_log := wire_log s @ [WOpenFailed p], conn_state := CONN_ERROR,
                  last_error := Some (Msg ''Could not open MIDI output {}'' [ArgStr p])\<rparr>)
      else
        let s = s\<lparr>port := Some p, wire_log := wire_log s @ [WOpen p]\<rparr>;
            channels = sorted_list_of_set (nk_channel ` fst ` set (ds_notes d));
            (ok, s) = open_resets e channels s
        in if \<not> ok then (False, s)
           else (True, s\<lparr>conn_state := CONNECTED, last_error := None\<rparr>))"

definition apply_desired :: "env \<Rightarrow> desired_state \<Rightarrow> service \<Rightarrow> service" where
  "apply_desired e d s0 =
     (let c = ds_configuration d;
          selected_value = output_port c;
          selected = resolve_port_id selected_value s0;
          s = s0\<lparr>selected_port := selected_value\<rparr>;
          available = available_port_ids s;
          s = (if port s \<noteq> None \<and> port s \<noteq> Some selected then snd (panic_current e True False [] s) else s)
      in if selected_value = [] then
           (let s = (if port s \<noteq> None then snd (panic_current e True False [] s) else s)
            in s\<lparr>conn_state := UNSELECTED, last_error := None\<rparr>)
         else if port s = None then
           (if selected \<notin> set available then
              s\<lparr>conn_state := UNAVAILABLE,
                last_error := Some (Msg ''MIDI output {} is not currently available'' [ArgStr selected_value])\<rparr>
            else case open_exact_port e selected d s of (ok, s) \<Rightarrow>
              if \<not> ok then s else reconcile e (ds_notes d) c s)
         else reconcile e (ds_notes d) c s)"

section \<open>Port enumeration\<close>

text \<open>\<open>devices\<close> is what the backend enumerates, display name and identifier; \<open>None\<close> if it raises.\<close>

definition refresh_port_names :: "env \<Rightarrow> (string \<times> string) list option \<Rightarrow> service \<Rightarrow> service" where
  "refresh_port_names e devices s =
     (case devices of
        None \<Rightarrow>
          (let s = discard_desired_state s;
               had_open_port = (port s \<noteq> None);
               s = snd (panic_current e True True [] s)
           in s\<lparr>available_ports := [], available_port_ids := [], available_port_entries := [],
                conn_state := (if selected_port s \<noteq> [] \<or> had_open_port then CONN_ERROR else conn_state s),
                last_error := Some (Msg ''Could not enumerate MIDI outputs'' [])\<rparr>)
      | Some ds \<Rightarrow>
          (let names = map fst ds; port_ids = map snd ds;
               s = s\<lparr>available_ports := names, available_port_ids := port_ids,
                     available_port_entries := zip names port_ids\<rparr>;
               selected_value = selected_port s;
               selected = resolve_port_id selected_value s
           in case port s of
                Some p \<Rightarrow>
                  if p \<notin> set port_ids then
                    (snd (panic_current e True False [] s))\<lparr>conn_state := UNAVAILABLE,
                       last_error := Some (Msg ''MIDI output {} disappeared'' [ArgStr p])\<rparr>
                  else if selected_value \<noteq> [] \<and> selected \<notin> set port_ids then
                    s\<lparr>conn_state := UNAVAILABLE,
                      last_error := Some (Msg ''MIDI output {} is not currently available'' [ArgStr selected_value])\<rparr>
                  else if selected_value = [] then s\<lparr>conn_state := UNSELECTED, last_error := None\<rparr>
                  else s
              | None \<Rightarrow>
                  if selected_value \<noteq> [] \<and> selected \<notin> set port_ids then
                    s\<lparr>conn_state := UNAVAILABLE,
                      last_error := Some (Msg ''MIDI output {} is not currently available'' [ArgStr selected_value])\<rparr>
                  else if selected_value = [] then s\<lparr>conn_state := UNSELECTED, last_error := None\<rparr>
                  else s))"

section \<open>The sender thread\<close>

datatype action = ActClose | ActPanic int | ActRefresh | ActState desired_state

text \<open>The locked selection at the top of the loop; \<open>None\<close> means the thread waits.\<close>

definition select_action :: "bool \<Rightarrow> service \<Rightarrow> (action \<times> service) option" where
  "select_action refresh_due s =
     (if closing s then Some (ActClose, s\<lparr>busy := True\<rparr>)
      else if panic_completed s < panic_requested s then Some (ActPanic (panic_requested s), s\<lparr>busy := True\<rparr>)
      else if refresh_requested s \<or> refresh_due then
        Some (ActRefresh, s\<lparr>refresh_requested := False, busy := True\<rparr>)
      else case pending s of
          Some d \<Rightarrow> Some (ActState d, s\<lparr>pending := None, busy := True\<rparr>)
        | None \<Rightarrow> None)"

definition perform_action :: "env \<Rightarrow> (string \<times> string) list option \<Rightarrow> action \<Rightarrow> service \<Rightarrow> service" where
  "perform_action e devices a s =
     (case a of
        ActClose \<Rightarrow>
          (let s = (snd (panic_current e True False [] s))\<lparr>conn_state := CLOSED\<rparr>
           in (close_port s)\<lparr>busy := False, closed := True\<rparr>)
      | ActPanic g \<Rightarrow>
          (let (failed, s) = panic_current e False False [] s;
               s = (if failed then mark_output_error ''MIDI panic was best-effort'' s else s)
           in s\<lparr>pending := None, latest := None, panic_completed := max (panic_completed s) g, busy := False\<rparr>)
      | ActState d \<Rightarrow> (apply_desired e d s)\<lparr>busy := False\<rparr>
      | ActRefresh \<Rightarrow>
          (let s = refresh_port_names e devices s in
           (case latest s of Some d \<Rightarrow> apply_desired e d s | None \<Rightarrow> s)\<lparr>busy := False\<rparr>))"

end
