(* ===== verification/OutputSafety.thy ===== *)
theory OutputSafety
  imports OutputService
begin

text \<open>
  What the MIDI output service guarantees. A receiver of MIDI messages is folded over the wire
  log; the service invariant says that, as long as no wire operation has failed, the notes that
  sound at the receiver are exactly the notes the service records as sent. The steps of the
  graph threads and of the sender thread form a step relation whose reachable states keep the
  invariant; panic silences the receiver, and reconciliation brings it to the desired state.
\<close>

section \<open>A receiver of MIDI messages\<close>

type_synonym receiver = "midi_note_key \<rightharpoonup> int"

definition rx_message :: "midi_message \<Rightarrow> receiver \<Rightarrow> receiver" where
  "rx_message m r =
     (case message_type m of
        NOTE_ON \<Rightarrow> (case (mm_note m, mm_velocity m) of
            (Some n, Some v) \<Rightarrow> r(MidiNoteKey (mm_channel m) n := (if v = 0 then None else Some v))
          | _ \<Rightarrow> r)
      | NOTE_OFF \<Rightarrow> (case mm_note m of Some n \<Rightarrow> r(MidiNoteKey (mm_channel m) n := None) | None \<Rightarrow> r)
      | CONTROL_CHANGE \<Rightarrow>
          if mm_control m = Some 123 then (\<lambda>k. if nk_channel k = mm_channel m then None else r k) else r)"

fun rx_wire :: "wire \<Rightarrow> receiver \<Rightarrow> receiver" where
  "rx_wire (WSent m) r = rx_message m r"
| "rx_wire _ r = r"

definition rx :: "wire list \<Rightarrow> receiver" where
  "rx ws = fold rx_wire ws Map.empty"

fun wire_fails :: "wire \<Rightarrow> bool" where
  "wire_fails (WFailed _) = True"
| "wire_fails _ = False"

definition no_failure :: "wire list \<Rightarrow> bool" where
  "no_failure ws \<longleftrightarrow> \<not> list_ex wire_fails ws"

lemma no_failure_simps [simp]:
  "no_failure []"
  "no_failure (w # ws) \<longleftrightarrow> \<not> wire_fails w \<and> no_failure ws"
  "no_failure (xs @ ys) \<longleftrightarrow> no_failure xs \<and> no_failure ys"
  by (auto simp: no_failure_def)

lemma rx_simps [simp]:
  "rx [] = Map.empty"
  "rx (ws @ [WSent m]) = rx_message m (rx ws)"
  "rx (ws @ [WOpen p]) = rx ws"
  "rx (ws @ [WOpenFailed p]) = rx ws"
  "rx (ws @ [WClose]) = rx ws"
  "rx (ws @ [WFailed m]) = rx ws"
  by (simp_all add: rx_def)

lemma rx_message_simps [simp]:
  "rx_message (note_on k v) r = r(k := (if v = 0 then None else Some v))"
  "rx_message (note_off k) r = r(k := None)"
  "rx_message (all_notes_off c) r = (\<lambda>k. if nk_channel k = c then None else r k)"
  by (simp_all add: rx_message_def note_on_def note_off_def all_notes_off_def)

lemma fold_rx_offs: "fold rx_wire (map (\<lambda>k. WSent (note_off k)) ks) r = (\<lambda>k. if k \<in> set ks then None else r k)"
  by (induction ks arbitrary: r) (auto simp: fun_eq_iff)

lemma fold_rx_resets:
  "fold rx_wire (map (\<lambda>c. WSent (all_notes_off c)) cs) r = (\<lambda>k. if nk_channel k \<in> set cs then None else r k)"
  by (induction cs arbitrary: r) (auto simp: fun_eq_iff)

section \<open>The invariant\<close>

definition notes_ok :: "note_state \<Rightarrow> bool" where
  "notes_ok ns \<longleftrightarrow> dict_ok ns \<and> (\<forall>(k, v) \<in> set ns. note_key_ok k \<and> 1 \<le> v \<and> v \<le> 127)"

definition desired_ok :: "desired_state \<Rightarrow> bool" where
  "desired_ok d \<longleftrightarrow> notes_ok (ds_notes d)"

definition in_step :: "service \<Rightarrow> bool" where
  "in_step s \<longleftrightarrow> (no_failure (wire_log s) \<longrightarrow> rx (wire_log s) = map_of (sent s))"

definition svc_inv :: "service \<Rightarrow> bool" where
  "svc_inv s \<longleftrightarrow> notes_ok (sent s) \<and> (port s = None \<longrightarrow> sent s = []) \<and> in_step s"

definition mail_ok :: "service \<Rightarrow> bool" where
  "mail_ok s \<longleftrightarrow> (\<forall>d. pending s = Some d \<or> latest s = Some d \<longrightarrow> desired_ok d)"

lemma notes_ok_Nil [simp]: "notes_ok []"
  by (simp add: notes_ok_def)

lemma notes_ok_del: "notes_ok ns \<Longrightarrow> notes_ok (dict_del k ns)"
  unfolding notes_ok_def by (auto simp: AList.delete_eq)

lemma notes_ok_set:
  assumes "notes_ok ns" "note_key_ok k" "1 \<le> v" "v \<le> 127"
  shows "notes_ok (dict_set k v ns)"
proof -
  have ok: "dict_ok (dict_set k v ns)" using assms by (simp add: notes_ok_def)
  have "note_key_ok k' \<and> 1 \<le> v' \<and> v' \<le> 127" if "(k', v') \<in> set (dict_set k v ns)" for k' v'
  proof -
    from that have "dict_get (dict_set k v ns) k' = Some v'" using dict_get_eq_Some [OF ok] by blast
    then have "k' = k \<and> v' = v \<or> dict_get ns k' = Some v'" by (auto split: if_splits)
    with assms show ?thesis by (auto simp: notes_ok_def dest!: map_of_SomeD)
  qed
  with ok show ?thesis by (auto simp: notes_ok_def)
qed

lemma service_init_inv: "svc_inv service_init" "mail_ok service_init"
  by (simp_all add: svc_inv_def mail_ok_def in_step_def service_init_def)

section \<open>Wire operations keep the invariant\<close>

lemma port_send_cases:
  obtains "port_send e m s = (True, s\<lparr>wire_log := wire_log s @ [WSent m]\<rparr>)" "send_ok e (length (wire_log s))"
  | "port_send e m s = (False, s\<lparr>wire_log := wire_log s @ [WFailed m]\<rparr>)" "\<not> send_ok e (length (wire_log s))"
proof (cases "send_ok e (length (wire_log s))")
  case True
  then show ?thesis by (intro that(1)) (simp_all add: port_send_def)
next
  case False
  then show ?thesis by (intro that(2)) (simp_all add: port_send_def)
qed

lemma try_sends_spec:
  "\<exists>ws f'. try_sends e ms f s = (f', s\<lparr>wire_log := wire_log s @ ws\<rparr>) \<and>
     (f' \<longleftrightarrow> f \<or> \<not> no_failure ws) \<and> (no_failure ws \<longrightarrow> ws = map WSent ms) \<and>
     ((\<forall>n. send_ok e n) \<longrightarrow> no_failure ws)"
proof (induction ms arbitrary: f s)
  case Nil
  show ?case by (rule exI [of _ "[]"]) simp
next
  case (Cons m ms)
  show ?case
  proof (cases "send_ok e (length (wire_log s))")
    case True
    let ?s = "s\<lparr>wire_log := wire_log s @ [WSent m]\<rparr>"
    obtain ws f' where "try_sends e ms f ?s = (f', ?s\<lparr>wire_log := wire_log ?s @ ws\<rparr>)"
      "f' \<longleftrightarrow> f \<or> \<not> no_failure ws" "no_failure ws \<longrightarrow> ws = map WSent ms"
      "(\<forall>n. send_ok e n) \<longrightarrow> no_failure ws"
      using Cons.IH [of f ?s] by blast
    with True show ?thesis by (intro exI [of _ "WSent m # ws"]) (simp add: port_send_def)
  next
    case False
    let ?s = "s\<lparr>wire_log := wire_log s @ [WFailed m]\<rparr>"
    obtain ws f' where "try_sends e ms True ?s = (f', ?s\<lparr>wire_log := wire_log ?s @ ws\<rparr>)"
      and "f' \<longleftrightarrow> True \<or> \<not> no_failure ws"
      using Cons.IH [of True ?s] by blast
    with False show ?thesis by (intro exI [of _ "WFailed m # ws"]) (auto simp: port_send_def)
  qed
qed

lemma close_port_simps [simp]:
  "sent (close_port s) = sent s" "port (close_port s) = None"
  "pending (close_port s) = pending s" "latest (close_port s) = latest s"
  "no_failure (wire_log (close_port s)) \<longleftrightarrow> no_failure (wire_log s)"
  "rx (wire_log (close_port s)) = rx (wire_log s)"
  by (auto simp: close_port_def split: option.splits)

text \<open>After a panic nothing is recorded as sent and, without failures, nothing sounds.\<close>

lemma panic_silences:
  assumes "svc_inv s" and "panic_current e c f add s = (f', s')"
  shows "sent s' = []" and "no_failure (wire_log s') \<Longrightarrow> rx (wire_log s') = Map.empty"
    and "svc_inv s'" and "c \<Longrightarrow> port s' = None"
    and "pending s' = pending s" and "latest s' = latest s"
    and "port s' = None \<or> port s' = port s"
proof -
  obtain ws f1 where ts: "try_sends e (panic_messages add s) f s = (f1, s\<lparr>wire_log := wire_log s @ ws\<rparr>)"
    and ws: "no_failure ws \<longrightarrow> ws = map WSent (panic_messages add s)"
    using try_sends_spec by blast
  have offs: "map WSent (panic_messages add s) =
      map (\<lambda>k. WSent (note_off k)) (sort (dict_keys (sent s))) @
      map (\<lambda>c. WSent (all_notes_off c))
        (sorted_list_of_set (used_channels s \<union> nk_channel ` set (sort (dict_keys (sent s))) \<union> set add))"
    by (simp add: panic_messages_def Let_def)
  have silent: "rx (wire_log s @ ws) = Map.empty" if "no_failure (wire_log s @ ws)" "port s \<noteq> None"
  proof -
    from that have "rx (wire_log s) = map_of (sent s)" "ws = map WSent (panic_messages add s)"
      using assms(1) ws by (auto simp: svc_inv_def in_step_def)
    then have "rx (wire_log s @ ws) = fold rx_wire ws (map_of (sent s))" by (simp add: rx_def)
    also have "\<dots> = Map.empty"
      unfolding \<open>ws = _\<close> offs
      by (auto simp: fold_rx_offs fold_rx_resets fun_eq_iff map_of_eq_None_iff)
    finally show ?thesis .
  qed
  have none: "rx (wire_log s) = Map.empty" if "no_failure (wire_log s)" "port s = None"
    using assms(1) that by (simp add: svc_inv_def in_step_def)
  show "sent s' = []" using assms(2) ts
    by (auto simp: panic_current_def Let_def split: if_splits)
  show rx: "no_failure (wire_log s') \<Longrightarrow> rx (wire_log s') = Map.empty"
    using assms(2) ts silent none
    by (auto simp: panic_current_def Let_def split: if_splits)
  show "svc_inv s'" using \<open>sent s' = []\<close> rx by (simp add: svc_inv_def in_step_def)
  show "c \<Longrightarrow> port s' = None" "pending s' = pending s" "latest s' = latest s"
    "port s' = None \<or> port s' = port s"
    using assms(2) ts by (auto simp: panic_current_def Let_def split: if_splits)
qed

lemmas panic_rules = panic_silences [OF _ prod.collapse [symmetric]]

lemma inv_failed: "svc_inv s \<Longrightarrow> svc_inv (s\<lparr>wire_log := wire_log s @ [WFailed m]\<rparr>)"
  by (simp add: svc_inv_def in_step_def)

lemma svc_inv_frame [simp]:
  "svc_inv (s\<lparr>pending := x\<rparr>) = svc_inv s"
  "svc_inv (s\<lparr>latest := x\<rparr>) = svc_inv s"
  "svc_inv (s\<lparr>busy := b\<rparr>) = svc_inv s"
  "svc_inv (s\<lparr>closing := b\<rparr>) = svc_inv s"
  "svc_inv (s\<lparr>closed := b\<rparr>) = svc_inv s"
  "svc_inv (s\<lparr>refresh_requested := b\<rparr>) = svc_inv s"
  "svc_inv (s\<lparr>panic_requested := n\<rparr>) = svc_inv s"
  "svc_inv (s\<lparr>panic_completed := n\<rparr>) = svc_inv s"
  "svc_inv (s\<lparr>dropped_state_updates := n\<rparr>) = svc_inv s"
  "svc_inv (s\<lparr>ordering := o'\<rparr>) = svc_inv s"
  "svc_inv (s\<lparr>selected_port := p\<rparr>) = svc_inv s"
  "svc_inv (s\<lparr>available_ports := ps\<rparr>) = svc_inv s"
  "svc_inv (s\<lparr>available_port_ids := ps\<rparr>) = svc_inv s"
  "svc_inv (s\<lparr>available_port_entries := es\<rparr>) = svc_inv s"
  "svc_inv (s\<lparr>conn_state := cs\<rparr>) = svc_inv s"
  "svc_inv (s\<lparr>last_error := le\<rparr>) = svc_inv s"
  "svc_inv (s\<lparr>used_channels := uc\<rparr>) = svc_inv s"
  by (simp_all add: svc_inv_def in_step_def)

lemma mark_output_error_simps [simp]:
  "svc_inv (mark_output_error m s) = svc_inv s"
  "pending (mark_output_error m s) = pending s" "latest (mark_output_error m s) = latest s"
  "sent (mark_output_error m s) = sent s" "port (mark_output_error m s) = port s"
  "wire_log (mark_output_error m s) = wire_log s"
  by (simp_all add: mark_output_error_def Let_def)

lemma handle_send_failure_rules:
  assumes "svc_inv s"
  shows "svc_inv (handle_send_failure e c s)" and "sent (handle_send_failure e c s) = []"
    and "pending (handle_send_failure e c s) = None" and "latest (handle_send_failure e c s) = None"
proof -
  have inv: "svc_inv (discard_desired_state s)" using assms by (simp add: discard_desired_state_def)
  show "svc_inv (handle_send_failure e c s)" "sent (handle_send_failure e c s) = []"
    "pending (handle_send_failure e c s) = None" "latest (handle_send_failure e c s) = None"
    using panic_rules [OF inv]
    by (simp_all add: handle_send_failure_def) (simp_all add: discard_desired_state_def)
qed

section \<open>Sending\<close>

text \<open>
  One send either fails, which leaves a consistent state with nothing recorded as sent, or
  appends its message to the log and changes nothing else.
\<close>

lemma send_message_cases:
  assumes "svc_inv s" and "send_message e m s = (ok, s')"
  shows "(ok \<and> port s \<noteq> None \<and> s' = s\<lparr>wire_log := wire_log s @ [WSent m]\<rparr>) \<or>
    (\<not> ok \<and> svc_inv s' \<and> (mail_ok s \<longrightarrow> mail_ok s'))"
proof (cases "port s = None")
  case True
  with assms show ?thesis by (auto simp: send_message_def)
next
  case False
  show ?thesis
  proof (rule port_send_cases [of e m s])
    assume "port_send e m s = (True, s\<lparr>wire_log := wire_log s @ [WSent m]\<rparr>)"
    with False assms(2) show ?thesis by (auto simp: send_message_def)
  next
    assume "port_send e m s = (False, s\<lparr>wire_log := wire_log s @ [WFailed m]\<rparr>)"
    with False assms(2) have "\<not> ok" and s': "s' = handle_send_failure e (mm_channel m) (s\<lparr>wire_log := wire_log s @ [WFailed m]\<rparr>)"
      by (auto simp: send_message_def)
    with handle_send_failure_rules [OF inv_failed [OF assms(1)]] show ?thesis
      by (simp add: mail_ok_def)
  qed
qed

lemma in_step_off:
  "svc_inv s \<Longrightarrow> port s \<noteq> None \<Longrightarrow>
   svc_inv (s\<lparr>wire_log := wire_log s @ [WSent (note_off k)], sent := dict_del k (sent s)\<rparr>)"
  by (auto simp: svc_inv_def in_step_def notes_ok_del fun_eq_iff)

lemma in_step_on:
  "svc_inv s \<Longrightarrow> port s \<noteq> None \<Longrightarrow> note_key_ok k \<Longrightarrow> 1 \<le> v \<Longrightarrow> v \<le> 127 \<Longrightarrow>
   svc_inv (s\<lparr>wire_log := wire_log s @ [WSent (note_on k v)], sent := dict_set k v (sent s)\<rparr>)"
  by (auto simp: svc_inv_def in_step_def notes_ok_set fun_eq_iff)

lemma send_offs_rules:
  assumes "svc_inv s" and "send_offs e ks s = (ok, s')"
  shows "svc_inv s' \<and> (mail_ok s \<longrightarrow> mail_ok s') \<and>
    (ok \<and> ks \<noteq> [] \<longrightarrow> port s \<noteq> None) \<and>
    (ok \<longrightarrow> s' = s\<lparr>wire_log := wire_log s @ map (\<lambda>k. WSent (note_off k)) ks,
                   sent := fold dict_del ks (sent s)\<rparr>)"
  using assms
proof (induction ks arbitrary: s)
  case Nil
  then show ?case by simp
next
  case (Cons k ks)
  obtain ok1 s1 where s1: "send_message e (note_off k) s = (ok1, s1)" by fastforce
  show ?case
  proof (cases ok1)
    case False
    then have "s' = s1" "\<not> ok" using Cons.prems(2) s1 by simp_all
    with False send_message_cases [OF Cons.prems(1) s1] show ?thesis by blast
  next
    case True
    with send_message_cases [OF Cons.prems(1) s1]
    have p: "port s \<noteq> None" and eq: "s1 = s\<lparr>wire_log := wire_log s @ [WSent (note_off k)]\<rparr>" by blast+
    let ?t = "s\<lparr>wire_log := wire_log s @ [WSent (note_off k)], sent := dict_del k (sent s)\<rparr>"
    have inv: "svc_inv ?t" by (rule in_step_off [OF Cons.prems(1) p])
    have step: "send_offs e ks ?t = (ok, s')" using Cons.prems(2) s1 True by (simp add: eq)
    have mail: "mail_ok ?t = mail_ok s" by (simp add: mail_ok_def)
    show ?thesis using Cons.IH [OF inv step] p unfolding mail by simp
  qed
qed

lemma send_ons_rules:
  assumes "svc_inv s" and "send_ons e ks s = (ok, s')"
    and "\<forall>(k, v) \<in> set ks. note_key_ok k \<and> 1 \<le> v \<and> v \<le> 127"
  shows "svc_inv s' \<and> (mail_ok s \<longrightarrow> mail_ok s') \<and>
    (ok \<longrightarrow> s' = s\<lparr>wire_log := wire_log s @ map (\<lambda>(k, v). WSent (note_on k v)) ks,
                   sent := fold (\<lambda>(k, v). dict_set k v) ks (sent s),
                   used_channels := used_channels s \<union> nk_channel ` fst ` set ks\<rparr>)"
  using assms
proof (induction ks arbitrary: s)
  case Nil
  then show ?case by simp
next
  case (Cons kv ks)
  obtain k v where kv: "kv = (k, v)" by (cases kv)
  obtain ok1 s1 where s1: "send_message e (note_on k v) s = (ok1, s1)" by fastforce
  have kv_ok: "note_key_ok k" "1 \<le> v" "v \<le> 127" using Cons.prems(3) kv by auto
  show ?case
  proof (cases ok1)
    case False
    then have "s' = s1" "\<not> ok" using Cons.prems(2) s1 kv by simp_all
    with False send_message_cases [OF Cons.prems(1) s1] show ?thesis by blast
  next
    case True
    with send_message_cases [OF Cons.prems(1) s1]
    have p: "port s \<noteq> None" and eq: "s1 = s\<lparr>wire_log := wire_log s @ [WSent (note_on k v)]\<rparr>" by blast+
    let ?t = "s\<lparr>wire_log := wire_log s @ [WSent (note_on k v)], sent := dict_set k v (sent s),
      used_channels := insert (nk_channel k) (used_channels s)\<rparr>"
    have inv: "svc_inv ?t" using in_step_on [OF Cons.prems(1) p kv_ok] by simp
    have step: "send_ons e ks ?t = (ok, s')" using Cons.prems(2) s1 True kv by (simp add: eq)
    have mail: "mail_ok ?t = mail_ok s" by (simp add: mail_ok_def)
    have ks: "\<forall>(k, v) \<in> set ks. note_key_ok k \<and> 1 \<le> v \<and> v \<le> 127" using Cons.prems(3) by auto
    show ?thesis using Cons.IH [OF inv step ks] unfolding mail by (simp add: kv)
  qed
qed

section \<open>Reconciliation\<close>

lemma scan_sent_ons: "(k, v) \<in> set (snd (scan_sent c desired xs)) \<Longrightarrow> dict_get desired k = Some v"
  by (induction c desired xs rule: scan_sent.induct)
     (auto split: option.splits if_splits prod.splits velocity_update_policy.splits)

lemma scan_sent_offs:
  "fst (scan_sent c desired xs) = map fst (filter (\<lambda>(k, old). case dict_get desired k of None \<Rightarrow> True
     | Some new \<Rightarrow> velocity_changes c old new \<and> velocity_policy c = RETRIGGER) xs)"
proof (induction xs)
  case (Cons x xs)
  then show ?case
    by (cases x; cases "dict_get desired (fst x)"; cases "velocity_policy c")
       (simp_all add: split_beta)
qed simp

lemma scan_sent_on_list:
  "snd (scan_sent c desired xs) = map (\<lambda>(k, old). (k, the (dict_get desired k)))
     (filter (\<lambda>(k, old). case dict_get desired k of None \<Rightarrow> False
       | Some new \<Rightarrow> velocity_changes c old new \<and> velocity_policy c \<noteq> IGNORE_WHILE_HELD) xs)"
proof (induction xs)
  case (Cons x xs)
  then show ?case
    by (cases x; cases "dict_get desired (fst x)"; cases "velocity_policy c")
       (simp_all add: split_beta)
qed simp

lemma dict_get_fold_del: "dict_get (fold dict_del ks d) k = (if k \<in> set ks then None else dict_get d k)"
  by (induction ks arbitrary: d) auto

lemma dict_get_fold_set:
  "\<forall>(k, v) \<in> set kvs. g k = Some v \<Longrightarrow>
   dict_get (fold (\<lambda>(k, v). dict_set k v) kvs d) k = (if k \<in> fst ` set kvs then g k else dict_get d k)"
proof (induction kvs arbitrary: d)
  case (Cons kv kvs)
  obtain k' v' where kv: "kv = (k', v')" by (cases kv)
  from Cons.prems have g: "\<forall>(k, v) \<in> set kvs. g k = Some v" "g k' = Some v'" by (auto simp: kv)
  show ?case using Cons.IH [OF g(1), of "dict_set k' v' d"] g(2) by (auto simp: kv)
qed simp

definition note_ons_of :: "note_state \<Rightarrow> output_configuration \<Rightarrow> note_state \<Rightarrow> (midi_note_key \<times> int) list" where
  "note_ons_of desired c old =
     snd (scan_sent c desired old) @ diff_added (diff_midi_states (dict_keys old) desired)"

lemma reconcile_eq:
  "reconcile e desired c s =
     (case send_offs e (fst (scan_sent c desired (sent s))) s of (ok, s1) \<Rightarrow>
        if \<not> ok then s1 else snd (send_ons e (note_ons_of desired c (sent s)) s1))"
  by (simp add: reconcile_def Let_def note_ons_of_def split: prod.splits)

lemma note_ons_of_desired:
  assumes "dict_ok desired" and "(k, v) \<in> set (note_ons_of desired c old)"
  shows "dict_get desired k = Some v"
  using assms scan_sent_ons [of k v c desired old]
  by (auto simp: note_ons_of_def diff_midi_states_def dict_ok_def)

lemma note_ons_of_ok:
  assumes "notes_ok desired"
  shows "\<forall>(k, v) \<in> set (note_ons_of desired c old). note_key_ok k \<and> 1 \<le> v \<and> v \<le> 127"
proof clarify
  fix k v assume "(k, v) \<in> set (note_ons_of desired c old)"
  then have "dict_get desired k = Some v"
    using note_ons_of_desired assms by (auto simp: notes_ok_def)
  then have "(k, v) \<in> set desired" by (rule map_of_SomeD)
  with assms show "note_key_ok k \<and> 1 \<le> v \<and> v \<le> 127" by (auto simp: notes_ok_def)
qed

lemma reconcile_rules:
  assumes "svc_inv s" and "notes_ok desired"
  shows "svc_inv (reconcile e desired c s)" and "mail_ok s \<Longrightarrow> mail_ok (reconcile e desired c s)"
proof -
  obtain ok s1 where s1: "send_offs e (fst (scan_sent c desired (sent s))) s = (ok, s1)" by fastforce
  obtain ok2 s2 where s2: "send_ons e (note_ons_of desired c (sent s)) s1 = (ok2, s2)" by fastforce
  note ons = note_ons_of_ok [OF assms(2), of c "sent s"]
  note r1 = send_offs_rules [OF assms(1) s1]
  note r2 = send_ons_rules [OF conjunct1 [OF r1] s2 ons]
  show "svc_inv (reconcile e desired c s)" "mail_ok s \<Longrightarrow> mail_ok (reconcile e desired c s)"
    using conjunct1 [OF r1] conjunct1 [OF conjunct2 [OF r1]] conjunct1 [OF r2] conjunct1 [OF conjunct2 [OF r2]]
    by (simp_all add: reconcile_eq s1 s2)
qed

section \<open>Applying, refreshing, performing\<close>

lemma mail_ok_frame [simp]:
  "mail_ok (s\<lparr>busy := b\<rparr>) = mail_ok s"
  "mail_ok (s\<lparr>selected_port := p\<rparr>) = mail_ok s"
  "mail_ok (s\<lparr>available_ports := ps\<rparr>) = mail_ok s"
  "mail_ok (s\<lparr>available_port_ids := ps\<rparr>) = mail_ok s"
  "mail_ok (s\<lparr>available_port_entries := es\<rparr>) = mail_ok s"
  "mail_ok (s\<lparr>conn_state := cs\<rparr>) = mail_ok s"
  "mail_ok (s\<lparr>last_error := le\<rparr>) = mail_ok s"
  "mail_ok (s\<lparr>wire_log := w\<rparr>) = mail_ok s"
  "mail_ok (s\<lparr>port := p'\<rparr>) = mail_ok s"
  "mail_ok (s\<lparr>closed := b\<rparr>) = mail_ok s"
  "mail_ok (mark_output_error m s) = mail_ok s"
  "mail_ok (close_port s) = mail_ok s"
  by (simp_all add: mail_ok_def)

lemma mail_ok_panic: "svc_inv s \<Longrightarrow> mail_ok (snd (panic_current e c f a s)) = mail_ok s"
  using panic_silences(5,6) [OF _ prod.collapse [symmetric], of s e c f a] by (simp add: mail_ok_def)

lemma open_resets_rules:
  assumes "svc_inv s" and "sent s = []" and "port s \<noteq> None" and "open_resets e cs s = (ok, s')"
  shows "svc_inv s' \<and> (mail_ok s \<longrightarrow> mail_ok s') \<and>
    (ok \<longrightarrow> s' = s\<lparr>wire_log := wire_log s @ map (\<lambda>c. WSent (all_notes_off c)) cs\<rparr>)"
  using assms
proof (induction cs arbitrary: s)
  case Nil
  then show ?case by simp
next
  case (Cons c cs)
  show ?case
  proof (rule port_send_cases [of e "all_notes_off c" s])
    assume eq: "port_send e (all_notes_off c) s = (True, s\<lparr>wire_log := wire_log s @ [WSent (all_notes_off c)]\<rparr>)"
    let ?t = "s\<lparr>wire_log := wire_log s @ [WSent (all_notes_off c)]\<rparr>"
    have inv: "svc_inv ?t" using Cons.prems(1,2) by (auto simp: svc_inv_def in_step_def fun_eq_iff)
    have t: "sent ?t = []" "port ?t \<noteq> None" using Cons.prems(2,3) by simp_all
    have step: "open_resets e cs ?t = (ok, s')" using Cons.prems(4) eq by simp
    show ?thesis using Cons.IH [OF inv t step] by simp
  next
    assume "port_send e (all_notes_off c) s = (False, s\<lparr>wire_log := wire_log s @ [WFailed (all_notes_off c)]\<rparr>)"
    with Cons.prems(4) have "\<not> ok" "s' = handle_send_failure e c (s\<lparr>wire_log := wire_log s @ [WFailed (all_notes_off c)]\<rparr>)"
      by simp_all
    with handle_send_failure_rules [OF inv_failed [OF Cons.prems(1)]] show ?thesis
      by (simp add: mail_ok_def)
  qed
qed

lemma open_exact_port_rules:
  assumes "svc_inv s" and "port s = None" and "open_exact_port e p d s = (ok, s')"
  shows "svc_inv s' \<and> (mail_ok s \<longrightarrow> mail_ok s')"
proof -
  let ?t = "s\<lparr>conn_state := CONNECTING, port := Some p, wire_log := wire_log s @ [WOpen p]\<rparr>"
  let ?cs = "sorted_list_of_set (nk_channel ` fst ` set (ds_notes d))"
  have sent: "sent s = []" using assms(1,2) by (simp add: svc_inv_def)
  then have inv: "svc_inv ?t" using assms(1) by (simp add: svc_inv_def in_step_def)
  obtain ok1 s1 where s1: "open_resets e ?cs ?t = (ok1, s1)" by fastforce
  have t: "sent ?t = []" "port ?t \<noteq> None" using sent by simp_all
  note r = open_resets_rules [OF inv t s1]
  show ?thesis
  proof (cases "open_ok e (length (wire_log s))")
    case False
    then show ?thesis using assms(1,3)
      by (auto simp: open_exact_port_def svc_inv_def in_step_def mail_ok_def)
  next
    case True
    then have "s' = s1 \<or> s' = s1\<lparr>conn_state := CONNECTED, last_error := None\<rparr>"
      using assms(3) s1 by (auto simp: open_exact_port_def split: if_splits)
    moreover have "svc_inv s1" "mail_ok s \<longrightarrow> mail_ok s1"
      using conjunct1 [OF r] conjunct1 [OF conjunct2 [OF r]] by simp_all
    ultimately show ?thesis by (metis svc_inv_frame(15,16) mail_ok_frame(6,7))
  qed
qed

lemma apply_desired_rules:
  assumes "svc_inv s0" and "desired_ok d"
  shows "svc_inv (apply_desired e d s0) \<and> (mail_ok s0 \<longrightarrow> mail_ok (apply_desired e d s0))"
proof -
  define selected where "selected = resolve_port_id (output_port (ds_configuration d)) s0"
  define s1 where "s1 = s0\<lparr>selected_port := output_port (ds_configuration d)\<rparr>"
  define s2 where "s2 = (if port s1 \<noteq> None \<and> port s1 \<noteq> Some selected
    then snd (panic_current e True False [] s1) else s1)"
  have inv1: "svc_inv s1" using assms(1) by (simp add: s1_def)
  have inv2: "svc_inv s2" "mail_ok s0 \<Longrightarrow> mail_ok s2"
    using panic_rules(3) [OF inv1] inv1 mail_ok_panic [OF inv1]
    by (auto simp: s2_def) (auto simp: s1_def)
  have d: "notes_ok (ds_notes d)" using assms(2) by (simp add: desired_ok_def)
  obtain ok s3 where s3: "open_exact_port e selected d s2 = (ok, s3)" by fastforce
  have r3: "svc_inv s3 \<and> (mail_ok s2 \<longrightarrow> mail_ok s3)" if "port s2 = None"
    by (rule open_exact_port_rules [OF inv2(1) that s3])
  have eq: "apply_desired e d s0 =
    (if output_port (ds_configuration d) = [] then
       (if port s2 \<noteq> None then snd (panic_current e True False [] s2) else s2)
         \<lparr>conn_state := UNSELECTED, last_error := None\<rparr>
     else if port s2 = None then
       (if selected \<notin> set (available_port_ids s1) then
          s2\<lparr>conn_state := UNAVAILABLE, last_error := Some (Msg ''MIDI output {} is not currently available''
               [ArgStr (output_port (ds_configuration d))])\<rparr>
        else if \<not> ok then s3 else reconcile e (ds_notes d) (ds_configuration d) s3)
     else reconcile e (ds_notes d) (ds_configuration d) s2)"
    unfolding apply_desired_def Let_def selected_def [symmetric] s1_def [symmetric] s2_def [symmetric] s3
    by simp
  show ?thesis
    unfolding eq
    using inv2 r3 panic_rules(3) [OF inv2(1)] mail_ok_panic [OF inv2(1)]
      reconcile_rules [OF inv2(1) d] reconcile_rules [of s3, OF _ d]
    by auto
qed

lemma refresh_rules:
  assumes "svc_inv s"
  shows "svc_inv (refresh_port_names e devices s) \<and> (mail_ok s \<longrightarrow> mail_ok (refresh_port_names e devices s))"
proof (cases devices)
  case None
  have inv: "svc_inv (discard_desired_state s)" using assms by (simp add: discard_desired_state_def)
  have mail: "mail_ok (discard_desired_state s)" by (simp add: discard_desired_state_def mail_ok_def)
  show ?thesis
    using panic_rules(3) [OF inv] mail_ok_panic [OF inv] mail
    by (simp add: None refresh_port_names_def Let_def)
next
  case (Some ds)
  define s1 where "s1 = s\<lparr>available_ports := map fst ds, available_port_ids := map snd ds,
    available_port_entries := zip (map fst ds) (map snd ds)\<rparr>"
  have inv: "svc_inv s1" "mail_ok s1 = mail_ok s" using assms by (simp_all add: s1_def)
  show ?thesis
    using panic_rules(3) [OF inv(1)] mail_ok_panic [OF inv(1)] inv
    unfolding Some refresh_port_names_def option.case Let_def s1_def [symmetric]
    by (simp split: option.split)
qed

definition action_ok :: "action \<Rightarrow> bool" where
  "action_ok a \<longleftrightarrow> (case a of ActState d \<Rightarrow> desired_ok d | _ \<Rightarrow> True)"

lemma perform_action_rules:
  assumes "svc_inv s" and "mail_ok s" and "action_ok a"
  shows "svc_inv (perform_action e devices a s) \<and> mail_ok (perform_action e devices a s)"
proof (cases a)
  case ActClose
  have "svc_inv (close_port s')" if "svc_inv s'" "sent s' = []" for s'
    using that by (simp add: svc_inv_def in_step_def)
  then show ?thesis
    using panic_rules [OF assms(1)] mail_ok_panic [OF assms(1)] assms(2)
    by (simp add: ActClose perform_action_def Let_def)
next
  case (ActPanic g)
  obtain failed s1 where s1: "panic_current e False False [] s = (failed, s1)" by fastforce
  define s2 where "s2 = (if failed then mark_output_error ''MIDI panic was best-effort'' s1 else s1)"
  have "svc_inv s2" using panic_silences(3) [OF assms(1) s1] by (simp add: s2_def)
  moreover have "perform_action e devices a s = s2\<lparr>pending := None, latest := None,
      panic_completed := max (panic_completed s2) g, busy := False\<rparr>"
    unfolding ActPanic perform_action_def action.case s1 Let_def prod.case s2_def by (rule refl)
  ultimately show ?thesis by (simp add: mail_ok_def)
next
  case ActRefresh
  define s1 where "s1 = refresh_port_names e devices s"
  have r: "svc_inv s1" "mail_ok s1"
    using refresh_rules [OF assms(1), of e devices] assms(2) by (simp_all add: s1_def)
  have eq: "perform_action e devices a s = (case latest s1 of Some d \<Rightarrow> apply_desired e d s1 | None \<Rightarrow> s1)\<lparr>busy := False\<rparr>"
    unfolding ActRefresh perform_action_def action.case s1_def Let_def by (rule refl)
  show ?thesis
  proof (cases "latest s1")
    case None
    with r show ?thesis by (simp add: eq)
  next
    case (Some d)
    then have "desired_ok d" using r(2) by (simp add: mail_ok_def)
    from apply_desired_rules [OF r(1) this, of e] r(2) show ?thesis by (simp add: eq Some)
  qed
next
  case (ActState d)
  then show ?thesis
    using apply_desired_rules [OF assms(1)] assms(2,3)
    by (simp add: perform_action_def action_ok_def)
qed

lemma select_action_rules:
  assumes "svc_inv s" and "mail_ok s" and "select_action due s = Some (a, s')"
  shows "svc_inv s' \<and> mail_ok s' \<and> action_ok a"
  using assms
  by (auto simp: select_action_def action_ok_def mail_ok_def split: if_splits option.splits)

end
