(* ===== verification/OutputSteps.thy ===== *)
theory OutputSteps
  imports OutputSafety
begin

text \<open>
  Interleavings of the MIDI output service. Graph threads and the sender thread of
  \<^verbatim>\<open>midi/output_service.py\<close> take turns; the only operation of a graph thread that is
  not one locked region is \<open>publish\<close>, whose test of the panic watermark and whose commit are
  separate steps. The theorems of the component are stated here: the invariant on every
  reachable state, the functional meaning of reconciliation, and what a panic guarantees.
\<close>

section \<open>The step relation\<close>

text \<open>
  \<open>in_flight\<close> holds the states that passed the watermark test and are not committed yet;
  \<open>chosen\<close> the action the sender took under the lock and has not performed yet.
\<close>

record world =
  svc :: service
  in_flight :: "(midi_state_frame \<times> output_configuration) list"
  chosen :: "action option"

definition world_init :: world where
  "world_init = \<lparr>svc = service_init, in_flight = [], chosen = None\<rparr>"

definition frame_ok :: "midi_state_frame \<Rightarrow> bool" where
  "frame_ok f \<longleftrightarrow> notes_ok (msf_notes f)"

definition generation_of :: "midi_state_frame \<Rightarrow> int" where
  "generation_of f = publish_generation (msf_context f)"

inductive step :: "world \<Rightarrow> world \<Rightarrow> bool" where
  publish_check: "frame_ok f \<Longrightarrow> \<not> is_stale (ordering (svc w)) (generation_of f) \<Longrightarrow>
    step w (w\<lparr>in_flight := (f, c) # in_flight w\<rparr>)"
| publish_commit: "fc \<in> set (in_flight w) \<Longrightarrow>
    publish_commit (desired_from_frame (fst fc) (snd fc)) (svc w) = Inr s' \<Longrightarrow>
    step w (w\<lparr>svc := s', in_flight := remove1 fc (in_flight w)\<rparr>)"
| publish_raises: "fc \<in> set (in_flight w) \<Longrightarrow>
    publish_commit (desired_from_frame (fst fc) (snd fc)) (svc w) = Inl err \<Longrightarrow>
    step w (w\<lparr>in_flight := remove1 fc (in_flight w)\<rparr>)"
| panic: "step w (w\<lparr>svc := snd (request_panic g (svc w))\<rparr>)"
| refresh: "refresh_outputs (svc w) = Inr s' \<Longrightarrow> step w (w\<lparr>svc := s'\<rparr>)"
| close: "step w (w\<lparr>svc := close_begin (svc w)\<rparr>)"
| select: "chosen w = None \<Longrightarrow> \<not> closed (svc w) \<Longrightarrow> select_action due (svc w) = Some (a, s') \<Longrightarrow>
    step w (w\<lparr>svc := s', chosen := Some a\<rparr>)"
| perform: "chosen w = Some a \<Longrightarrow>
    step w (w\<lparr>svc := perform_action e devices a (svc w), chosen := None\<rparr>)"

inductive_cases stepE: "step w w'"

inductive reachable :: "world \<Rightarrow> bool" where
  init: "reachable world_init"
| step: "reachable w \<Longrightarrow> step w w' \<Longrightarrow> reachable w'"

definition world_inv :: "world \<Rightarrow> bool" where
  "world_inv w \<longleftrightarrow> svc_inv (svc w) \<and> mail_ok (svc w) \<and> (\<forall>fc \<in> set (in_flight w). frame_ok (fst fc)) \<and>
     (\<forall>a. chosen w = Some a \<longrightarrow> action_ok a)"

lemma publish_commit_rules:
  "publish_commit d s = Inr s' \<Longrightarrow> svc_inv s \<Longrightarrow> svc_inv s'"
  "publish_commit d s = Inr s' \<Longrightarrow> desired_ok d \<Longrightarrow> mail_ok s'"
  "publish_commit d s = Inr s' \<Longrightarrow> ordering s' = ordering s"
  by (auto simp: publish_commit_def bind_res_eq_Inr mail_ok_def)

lemma request_panic_rules:
  "svc_inv (snd (request_panic g s)) = svc_inv s"
  "mail_ok s \<Longrightarrow> mail_ok (snd (request_panic g s))"
  by (auto simp: request_panic_def Let_def mail_ok_def split: sum.split)

lemma close_begin_rules:
  "svc_inv (close_begin s) = svc_inv s" "mail_ok s \<Longrightarrow> mail_ok (close_begin s)"
  "ordering (close_begin s) = ordering s"
  by (auto simp: close_begin_def mail_ok_def)

lemma refresh_outputs_rules:
  "refresh_outputs s = Inr s' \<Longrightarrow> svc_inv s' = svc_inv s"
  "refresh_outputs s = Inr s' \<Longrightarrow> mail_ok s' = mail_ok s"
  "refresh_outputs s = Inr s' \<Longrightarrow> ordering s' = ordering s"
  by (auto simp: refresh_outputs_def bind_res_eq_Inr mail_ok_def)

lemma desired_ok_frame: "frame_ok f \<Longrightarrow> desired_ok (desired_from_frame f c)"
  by (simp add: frame_ok_def desired_ok_def desired_from_frame_def)

lemma step_inv: "step w w' \<Longrightarrow> world_inv w \<Longrightarrow> world_inv w'"
proof (induction rule: step.induct)
  case (publish_check f w c)
  then show ?case by (simp add: world_inv_def)
next
  case (publish_commit fc w s')
  then have "desired_ok (desired_from_frame (fst fc) (snd fc))"
    by (simp add: world_inv_def desired_ok_frame)
  with publish_commit publish_commit_rules [OF publish_commit.hyps(2)] show ?case
    by (auto simp: world_inv_def dest: notin_set_remove1 set_remove1_subset [THEN subsetD])
next
  case (publish_raises fc w err)
  then show ?case
    by (auto simp: world_inv_def dest: set_remove1_subset [THEN subsetD])
next
  case (panic w g)
  then show ?case by (simp add: world_inv_def request_panic_rules)
next
  case (refresh w s')
  then show ?case by (simp add: world_inv_def refresh_outputs_rules)
next
  case (close w)
  then show ?case by (simp add: world_inv_def close_begin_rules)
next
  case (select w due a s')
  then show ?case using select_action_rules [of "svc w" due a s'] by (simp add: world_inv_def)
next
  case (perform w a e devices)
  then show ?case
    using perform_action_rules [of "svc w" a e devices] by (simp add: world_inv_def)
qed

lemma reachable_inv: "reachable w \<Longrightarrow> world_inv w"
proof (induction rule: reachable.induct)
  case init
  show ?case by (simp add: world_inv_def world_init_def service_init_inv)
next
  case (step w w')
  then show ?case by (blast intro: step_inv)
qed

text \<open>
  C1. Receiver in step: in every state the service can reach, under any interleaving and any
  pattern of wire failures, the notes recorded as sent are valid keys with velocities 1..127,
  none is recorded while no port is open, and as long as no message has failed the notes that
  sound at the receiver are exactly the recorded ones.
\<close>

theorem reachable_receiver_in_step:
  assumes "reachable w"
  shows "notes_ok (sent (svc w)) \<and> (port (svc w) = None \<longrightarrow> sent (svc w) = []) \<and>
    (no_failure (wire_log (svc w)) \<longrightarrow> rx (wire_log (svc w)) = map_of (sent (svc w)))"
  using reachable_inv [OF assms] by (simp add: world_inv_def svc_inv_def in_step_def)

section \<open>What reconciliation does\<close>

lemma send_offs_succeeds:
  assumes "\<forall>n. send_ok e n" and "port s \<noteq> None"
  shows "send_offs e ks s = (True, s\<lparr>wire_log := wire_log s @ map (\<lambda>k. WSent (note_off k)) ks,
           sent := fold dict_del ks (sent s)\<rparr>)"
  using assms
proof (induction ks arbitrary: s)
  case (Cons k ks)
  let ?t = "s\<lparr>wire_log := wire_log s @ [WSent (note_off k)], sent := dict_del k (sent s)\<rparr>"
  have "send_message e (note_off k) s = (True, s\<lparr>wire_log := wire_log s @ [WSent (note_off k)]\<rparr>)"
    using Cons.prems by (simp add: send_message_def port_send_def)
  then have "send_offs e (k # ks) s = send_offs e ks ?t" by simp
  with Cons.IH [of ?t] Cons.prems show ?case by simp
qed simp

lemma send_ons_succeeds:
  assumes "\<forall>n. send_ok e n" and "port s \<noteq> None"
  shows "\<exists>used. send_ons e ks s = (True, s\<lparr>wire_log := wire_log s @ map (\<lambda>(k, v). WSent (note_on k v)) ks,
           sent := fold (\<lambda>(k, v). dict_set k v) ks (sent s), used_channels := used\<rparr>)"
  using assms
proof (induction ks arbitrary: s)
  case Nil
  show ?case by (rule exI [of _ "used_channels s"]) simp
next
  case (Cons kv ks)
  obtain k v where kv: "kv = (k, v)" by (cases kv)
  let ?t = "s\<lparr>wire_log := wire_log s @ [WSent (note_on k v)], sent := dict_set k v (sent s),
    used_channels := insert (nk_channel k) (used_channels s)\<rparr>"
  have "send_message e (note_on k v) s = (True, s\<lparr>wire_log := wire_log s @ [WSent (note_on k v)]\<rparr>)"
    using Cons.prems by (simp add: send_message_def port_send_def)
  then have "send_ons e (kv # ks) s = send_ons e ks ?t" by (simp add: kv)
  with Cons.IH [of ?t] Cons.prems show ?case by (simp add: kv)
qed

definition reconciled :: "output_configuration \<Rightarrow> note_state \<Rightarrow> note_state \<Rightarrow> midi_note_key \<Rightarrow> int option" where
  "reconciled c old desired k =
     (case (dict_get desired k, dict_get old k) of
        (None, _) \<Rightarrow> None
      | (Some new, None) \<Rightarrow> Some new
      | (Some new, Some v) \<Rightarrow>
          if velocity_changes c v new \<and> velocity_policy c \<noteq> IGNORE_WHILE_HELD then Some new else Some v)"

lemma scan_sent_keys:
  assumes "dict_ok xs"
  shows "k \<in> set (fst (scan_sent c desired xs)) \<longleftrightarrow>
      (\<exists>old. dict_get xs k = Some old \<and> (case dict_get desired k of None \<Rightarrow> True
         | Some new \<Rightarrow> velocity_changes c old new \<and> velocity_policy c = RETRIGGER))"
    and "k \<in> fst ` set (snd (scan_sent c desired xs)) \<longleftrightarrow>
      (\<exists>old new. dict_get xs k = Some old \<and> dict_get desired k = Some new \<and>
         velocity_changes c old new \<and> velocity_policy c \<noteq> IGNORE_WHILE_HELD)"
  unfolding scan_sent_offs scan_sent_on_list dict_get_eq_Some [OF assms]
  by (force split: option.splits)+

lemma reconcile_lookup:
  assumes "dict_ok old" and "dict_ok desired"
  shows "dict_get (fold (\<lambda>(k, v). dict_set k v) (note_ons_of desired c old)
      (fold dict_del (fst (scan_sent c desired old)) old)) k = reconciled c old desired k"
proof -
  have g: "\<forall>(k, v) \<in> set (note_ons_of desired c old). dict_get desired k = Some v"
    using note_ons_of_desired [OF assms(2)] by auto
  have keys: "k \<in> fst ` set (note_ons_of desired c old) \<longleftrightarrow>
      k \<in> fst ` set (snd (scan_sent c desired old)) \<or> dict_get desired k \<noteq> None \<and> dict_get old k = None"
    unfolding note_ons_of_def set_append image_Un set_diff_added by (simp add: dict_get_None_iff)
  show ?thesis
    unfolding dict_get_fold_set [OF g] dict_get_fold_del keys scan_sent_keys [OF assms(1)]
      reconciled_def
    by (cases "dict_get desired k"; cases "dict_get old k") (simp_all del: map_of_eq_None_iff)
qed

lemma reconcile_core:
  assumes "svc_inv s" and "port s \<noteq> None" and "notes_ok desired" and "\<forall>n. send_ok e n"
  shows reconcile_sent: "dict_get (sent (reconcile e desired c s)) k = reconciled c (sent s) desired k"
    and reconcile_log: "wire_log (reconcile e desired c s) =
       wire_log s @ map (\<lambda>k. WSent (note_off k)) (fst (scan_sent c desired (sent s))) @
       map (\<lambda>(k, v). WSent (note_on k v)) (note_ons_of desired c (sent s))"
    and reconcile_port: "port (reconcile e desired c s) = port s"
    and reconcile_rx: "no_failure (wire_log s) \<Longrightarrow>
       rx (wire_log (reconcile e desired c s)) = reconciled c (sent s) desired"
proof -
  let ?offs = "fst (scan_sent c desired (sent s))" and ?ons = "note_ons_of desired c (sent s)"
  let ?s1 = "s\<lparr>wire_log := wire_log s @ map (\<lambda>k. WSent (note_off k)) ?offs,
    sent := fold dict_del ?offs (sent s)\<rparr>"
  have offs: "send_offs e ?offs s = (True, ?s1)" by (rule send_offs_succeeds [OF assms(4,2)])
  obtain used where ons: "send_ons e ?ons ?s1 = (True,
      ?s1\<lparr>wire_log := wire_log ?s1 @ map (\<lambda>(k, v). WSent (note_on k v)) ?ons,
          sent := fold (\<lambda>(k, v). dict_set k v) ?ons (sent ?s1), used_channels := used\<rparr>)"
    using send_ons_succeeds [OF assms(4), of ?s1 ?ons] assms(2) by auto
  have lookup: "dict_get (sent (reconcile e desired c s)) k = reconciled c (sent s) desired k" for k
    using assms(1,3) reconcile_lookup [of "sent s" desired c]
    by (simp add: reconcile_eq offs ons svc_inv_def notes_ok_def)
  then show "dict_get (sent (reconcile e desired c s)) k = reconciled c (sent s) desired k" .
  show log: "wire_log (reconcile e desired c s) =
       wire_log s @ map (\<lambda>k. WSent (note_off k)) ?offs @ map (\<lambda>(k, v). WSent (note_on k v)) ?ons"
    and "port (reconcile e desired c s) = port s"
    by (simp_all add: reconcile_eq offs ons)
  assume "no_failure (wire_log s)"
  then have "no_failure (wire_log (reconcile e desired c s))"
    unfolding log by (auto simp: no_failure_def list_ex_iff)
  with reconcile_rules(1) [OF assms(1,3), of e c] lookup
  show "rx (wire_log (reconcile e desired c s)) = reconciled c (sent s) desired"
    by (simp add: svc_inv_def in_step_def fun_eq_iff)
qed

text \<open>
  C3. Reconciliation: when the port is open and no send fails, reconciling with a desired state
  sends every note-off before every note-on, leaves exactly the desired keys sounding, gives a new
  key its desired velocity, and changes the velocity of a held key only when it moved by at least
  the threshold and the policy is not to ignore it; the same notes sound at the receiver.
\<close>

theorem reconcile_reaches_desired:
  assumes "svc_inv s" and "port s \<noteq> None" and "notes_ok desired" and "\<forall>n. send_ok e n"
  shows "(\<forall>k. dict_get (sent (reconcile e desired c s)) k = reconciled c (sent s) desired k) \<and>
    (\<exists>offs ons. wire_log (reconcile e desired c s) =
       wire_log s @ map (\<lambda>k. WSent (note_off k)) offs @ map (\<lambda>(k, v). WSent (note_on k v)) ons) \<and>
    port (reconcile e desired c s) = port s \<and>
    (no_failure (wire_log s) \<longrightarrow>
       rx (wire_log (reconcile e desired c s)) = reconciled c (sent s) desired)"
  using reconcile_sent [OF assms, of c] reconcile_port [OF assms, of c] reconcile_rx [OF assms, of c]
    reconcile_log [OF assms, of c] by blast

section \<open>What a panic guarantees\<close>

text \<open>The watermark is written by panics only: no action of the sender touches it, nor, performing a
  panic apart, the panic counters.\<close>

abbreviation same_marks :: "service \<Rightarrow> service \<Rightarrow> bool" where
  "same_marks t s \<equiv> ordering t = ordering s \<and> panic_requested t = panic_requested s \<and>
     panic_completed t = panic_completed s"

lemma marks_discard [simp]: "same_marks (discard_desired_state s) s"
  by (simp add: discard_desired_state_def)

lemma marks_mark_output_error [simp]: "same_marks (mark_output_error m s) s"
  by (simp add: mark_output_error_def Let_def)

lemma marks_close_port [simp]: "same_marks (close_port s) s"
  by (simp add: close_port_def split: option.split)

lemma marks_try_sends [simp]: "same_marks (snd (try_sends e ms f s)) s"
  using try_sends_spec [of e ms f s] by auto

lemma marks_panic_current [simp]: "same_marks (snd (panic_current e c f a s)) s"
  using marks_try_sends [of e "panic_messages a s" f s]
  by (simp add: panic_current_def Let_def split_beta)

lemma marks_handle [simp]: "same_marks (handle_send_failure e c s) s"
  by (simp add: handle_send_failure_def)

lemma marks_port_send [simp]: "same_marks (snd (port_send e m s)) s"
  by (simp add: port_send_def)

lemma marks_send_message [simp]: "same_marks (snd (send_message e m s)) s"
  using marks_port_send [of e m s] by (simp add: send_message_def split_beta)

lemma marks_send_offs [simp]: "same_marks (snd (send_offs e ks s)) s"
proof (induction ks arbitrary: s)
  case (Cons k ks)
  then show ?case using marks_send_message [of e "note_off k" s] by (simp add: split_beta)
qed simp

lemma marks_send_ons [simp]: "same_marks (snd (send_ons e ks s)) s"
proof (induction ks arbitrary: s)
  case (Cons kv ks)
  obtain k v where "kv = (k, v)" by (cases kv)
  with Cons show ?case using marks_send_message [of e "note_on k v" s] by (simp add: split_beta)
qed simp

lemma marks_reconcile [simp]: "same_marks (reconcile e d c s) s"
  using marks_send_offs [of e "fst (scan_sent c d (sent s))" s]
  by (simp add: reconcile_eq split_beta)

lemma marks_open_resets [simp]: "same_marks (snd (open_resets e cs s)) s"
proof (induction cs arbitrary: s)
  case (Cons c cs)
  then show ?case using marks_port_send [of e "all_notes_off c" s] by (simp add: split_beta)
qed simp

lemma marks_open_exact_port [simp]: "same_marks (snd (open_exact_port e p d s)) s"
  by (simp add: open_exact_port_def Let_def split_beta)

lemma marks_apply_desired [simp]: "same_marks (apply_desired e d s) s"
  by (simp add: apply_desired_def Let_def split_beta)

lemma marks_refresh [simp]: "same_marks (refresh_port_names e devices s) s"
  by (simp add: refresh_port_names_def Let_def split: option.split)

lemma ordering_perform [simp]: "ordering (perform_action e devices a s) = ordering s"
  by (simp add: perform_action_def Let_def split_beta split: action.split option.split)

lemma ordering_select: "select_action due s = Some (a, s') \<Longrightarrow> ordering s' = ordering s"
  by (auto simp: select_action_def split: if_splits option.splits)

text \<open>
  C4. Staleness is permanent: once a state of some generation is rejected, no step of any thread
  makes the service accept that generation again.
\<close>

theorem stale_is_permanent:
  assumes "step\<^sup>*\<^sup>* w w'" and "is_stale (ordering (svc w)) g"
  shows "is_stale (ordering (svc w')) g"
  using assms
proof (induction rule: rtranclp_induct)
  case (step v w)
  from step.hyps(2) step.IH [OF step.prems] show ?case
  proof (cases rule: step.cases)
    case (panic g')
    with step.IH [OF step.prems] show ?thesis
      by (auto simp: request_panic_def Let_def split: sum.splits dest: so.panic_keeps_stale)
  qed (auto simp: publish_commit_rules(3) refresh_outputs_rules(3) close_begin_rules(3)
      dest: ordering_select)
qed

lemma refresh_keeps:
  assumes "svc_inv s" and "sent s = []" and "pending s = None" and "latest s = None"
  shows "sent (refresh_port_names e devices s) = []"
    and "pending (refresh_port_names e devices s) = None"
    and "latest (refresh_port_names e devices s) = None"
proof -
  have "sent (refresh_port_names e devices s) = [] \<and> pending (refresh_port_names e devices s) = None \<and>
    latest (refresh_port_names e devices s) = None"
  proof (cases devices)
    case None
    have inv: "svc_inv (discard_desired_state s)" using assms(1) by (simp add: discard_desired_state_def)
    show ?thesis
      using panic_rules(1,5,6) [OF inv]
      by (simp add: None refresh_port_names_def Let_def) (simp add: discard_desired_state_def)
  next
    case (Some ds)
    define s1 where "s1 = s\<lparr>available_ports := map fst ds, available_port_ids := map snd ds,
      available_port_entries := zip (map fst ds) (map snd ds)\<rparr>"
    have s1: "svc_inv s1" "sent s1 = []" "pending s1 = None" "latest s1 = None"
      using assms by (simp_all add: s1_def)
    show ?thesis
      using panic_rules(1,5,6) [OF s1(1)] s1(2-4)
      unfolding Some refresh_port_names_def option.case Let_def s1_def [symmetric]
      by (simp split: option.split)
  qed
  then show "sent (refresh_port_names e devices s) = []"
    "pending (refresh_port_names e devices s) = None"
    "latest (refresh_port_names e devices s) = None" by blast+
qed

text \<open>A service with nothing sounding, nothing in its mailbox and no publication under way.\<close>

definition quiet :: "world \<Rightarrow> bool" where
  "quiet w \<longleftrightarrow> sent (svc w) = [] \<and> pending (svc w) = None \<and> latest (svc w) = None \<and>
     in_flight w = [] \<and> (\<forall>d. chosen w \<noteq> Some (ActState d))"

lemma panic_action_quiets:
  assumes "svc_inv s"
  shows "sent (perform_action e devices (ActPanic g) s) = []"
    and "pending (perform_action e devices (ActPanic g) s) = None"
    and "latest (perform_action e devices (ActPanic g) s) = None"
  using panic_rules(1) [OF assms, of e False False "[]"]
  by (auto simp: perform_action_def Let_def split_beta)

lemma close_action_quiets:
  assumes "svc_inv s"
  shows "sent (perform_action e devices ActClose s) = []"
    and "pending (perform_action e devices ActClose s) = pending s"
    and "latest (perform_action e devices ActClose s) = latest s"
  using panic_rules(1,5,6) [OF assms, of e True False "[]"]
  by (simp_all add: perform_action_def Let_def)

lemma refresh_action_quiets:
  assumes "svc_inv s" and "sent s = []" and "pending s = None" and "latest s = None"
  shows "sent (perform_action e devices ActRefresh s) = []"
    and "pending (perform_action e devices ActRefresh s) = None"
    and "latest (perform_action e devices ActRefresh s) = None"
  using refresh_keeps [OF assms, of e devices] by (simp_all add: perform_action_def Let_def)

lemma quiet_step:
  assumes "step w w'" and "quiet w" and "world_inv w" and "in_flight w' = []"
  shows "quiet w'"
  using assms(1)
proof (cases rule: step.cases)
  case (panic g)
  then show ?thesis using assms(2)
    by (auto simp: quiet_def request_panic_def Let_def split: sum.split)
next
  case (select due a s')
  then show ?thesis using assms(2)
    by (auto simp: quiet_def select_action_def split: if_splits option.splits)
next
  case (perform a e devices)
  have inv: "svc_inv (svc w)" using assms(3) by (simp add: world_inv_def)
  show ?thesis
    using perform assms(2) panic_action_quiets [OF inv] close_action_quiets [OF inv]
      refresh_action_quiets [OF inv]
    by (cases a) (auto simp: quiet_def)
qed (use assms(2,4) in \<open>auto simp: quiet_def refresh_outputs_def bind_res_eq_Inr close_begin_def\<close>)

definition step_unpublished :: "world \<Rightarrow> world \<Rightarrow> bool" where
  "step_unpublished w w' \<longleftrightarrow> step w w' \<and> in_flight w' = []"

lemma quiet_steps:
  assumes "step_unpublished\<^sup>*\<^sup>* w w'" and "quiet w" and "reachable w"
  shows "quiet w' \<and> reachable w'"
  using assms
proof (induction rule: rtranclp_induct)
  case (step v w)
  then show ?case
    using quiet_step [of v w] reachable_inv [of v] reachable.step [of v w]
    by (auto simp: step_unpublished_def)
qed simp

text \<open>
  C2. A panic silences: when the sender performs a panic while no publication is between its
  watermark test and its commit, nothing is recorded as sounding afterwards, the mailbox is empty,
  and without send failures the receiver is silent. This lasts over any further steps (port
  refreshes, further panics, closing) until a graph thread starts to publish a state that passes
  the watermark.
\<close>

theorem panic_silences_until_published:
  assumes "reachable w" and "chosen w = Some (ActPanic g)" and "in_flight w = []"
    and "step_unpublished\<^sup>*\<^sup>* (w\<lparr>svc := perform_action e devices (ActPanic g) (svc w), chosen := None\<rparr>) w'"
  shows "sent (svc w') = [] \<and> pending (svc w') = None \<and> latest (svc w') = None \<and>
    (no_failure (wire_log (svc w')) \<longrightarrow> rx (wire_log (svc w')) = Map.empty)"
proof -
  let ?v = "w\<lparr>svc := perform_action e devices (ActPanic g) (svc w), chosen := None\<rparr>"
  have "svc_inv (svc w)" using reachable_inv [OF assms(1)] by (simp add: world_inv_def)
  then have "quiet ?v" using panic_action_quiets assms(3) by (simp add: quiet_def)
  moreover have "reachable ?v" by (rule reachable.step [OF assms(1) step.perform [OF assms(2)]])
  ultimately have "quiet w'" "reachable w'" using quiet_steps [OF assms(4)] by blast+
  then show ?thesis using reachable_inv [of w']
    by (auto simp: quiet_def world_inv_def svc_inv_def in_step_def)
qed

text \<open>The service after its first refresh (the sender always refreshes first), as a witness.\<close>

definition all_ok :: env where
  "all_ok = \<lparr>send_ok = (\<lambda>_. True), open_ok = (\<lambda>_. True)\<rparr>"

definition refreshed :: "string \<Rightarrow> service" where
  "refreshed p = service_init\<lparr>refresh_requested := False, available_ports := [p],
     available_port_ids := [p], available_port_entries := [(p, p)]\<rparr>"

lemma reach_refreshed: "reachable \<lparr>svc = refreshed p, in_flight = [], chosen = None\<rparr>"
proof -
  let ?w = "\<lparr>svc = service_init\<lparr>refresh_requested := False, busy := True\<rparr>, in_flight = [], chosen = Some ActRefresh\<rparr>"
  have "step world_init ?w"
    using step.select [of world_init False ActRefresh "service_init\<lparr>refresh_requested := False, busy := True\<rparr>"]
    by (simp add: world_init_def service_init_def select_action_def)
  then have r: "reachable ?w" by (rule reachable.step [OF reachable.init])
  have "step ?w (?w\<lparr>svc := perform_action all_ok (Some [(p, p)]) ActRefresh (svc ?w), chosen := None\<rparr>)"
    by (rule step.perform) simp
  also have "perform_action all_ok (Some [(p, p)]) ActRefresh (svc ?w) = refreshed p"
    by (simp add: perform_action_def refresh_port_names_def refreshed_def service_init_def Let_def)
  finally show ?thesis using reachable.step [OF r] by fastforce
qed

section \<open>The unlocked watermark test\<close>

lemma open_resets_succeeds:
  assumes "\<forall>n. send_ok e n"
  shows "open_resets e cs s = (True, s\<lparr>wire_log := wire_log s @ map (\<lambda>c. WSent (all_notes_off c)) cs\<rparr>)"
  using assms
proof (induction cs arbitrary: s)
  case (Cons c cs)
  then show ?case by (simp add: port_send_def)
qed simp

lemma apply_desired_fresh_port:
  assumes "\<forall>n. send_ok e n" and "\<forall>n. open_ok e n" and "svc_inv s" and "port s = None"
    and "desired_ok d" and "output_port (ds_configuration d) = p" and "p \<noteq> []"
    and "resolve_port_id p s \<in> set (available_port_ids s)" and "no_failure (wire_log s)"
  shows "rx (wire_log (apply_desired e d s)) = map_of (ds_notes d)"
proof -
  let ?q = "resolve_port_id p s"
  let ?cs = "sorted_list_of_set (nk_channel ` fst ` set (ds_notes d))"
  let ?t = "s\<lparr>selected_port := p, conn_state := CONNECTING, port := Some ?q,
    wire_log := (wire_log s @ [WOpen ?q]) @ map (\<lambda>c. WSent (all_notes_off c)) ?cs, conn_state := CONNECTED, last_error := None\<rparr>"
  have sent: "sent s = []" using assms(3,4) by (simp add: svc_inv_def)
  have log: "rx (wire_log s) = Map.empty" using assms(3,9) sent by (simp add: svc_inv_def in_step_def)
  have rx: "rx (wire_log ?t) = Map.empty"
    using log by (simp add: rx_def fold_rx_resets fun_eq_iff)
  have inv: "svc_inv ?t" using rx sent by (simp add: svc_inv_def in_step_def)
  have fine: "no_failure (wire_log ?t)" using assms(9) by (auto simp: no_failure_def list_ex_iff)
  have open_t: "open_exact_port e ?q d (s\<lparr>selected_port := p\<rparr>) = (True, ?t)"
    using assms(2) by (simp add: open_exact_port_def open_resets_succeeds [OF assms(1)] Let_def)
  have eq: "apply_desired e d s = reconcile e (ds_notes d) (ds_configuration d) ?t"
    unfolding apply_desired_def Let_def assms(6) using assms(4,7,8) open_t by simp
  have d: "notes_ok (ds_notes d)" using assms(5) by (simp add: desired_ok_def)
  have p: "port ?t \<noteq> None" by simp
  show ?thesis
    unfolding eq reconcile_rx [OF inv p d assms(1) fine] using sent
    by (simp add: fun_eq_iff reconciled_def split: option.split)
qed

text \<open>
  C5. The test of the watermark and the commit of a published state are not atomic: for every
  valid state of a positive generation there is an interleaving in which that generation has been
  panicked, every requested panic has completed, and the panicked notes sound at the receiver.
\<close>

theorem stale_state_can_sound_after_panic:
  fixes c :: output_configuration
  assumes "frame_ok f" and "0 < generation_of f" and "output_port c \<noteq> []"
  shows "\<exists>w. reachable w \<and> is_stale (ordering (svc w)) (generation_of f) \<and>
    panic_completed (svc w) = panic_requested (svc w) \<and>
    rx (wire_log (svc w)) = map_of (msf_notes f)"
proof -
  let ?p = "output_port c" and ?g = "generation_of f" and ?d = "desired_from_frame f c"
  let ?s0 = "refreshed ?p"
  let ?o = "\<lparr>stale_upto_generation = ?g\<rparr>"
  let ?s2 = "?s0\<lparr>ordering := ?o, panic_requested := 1\<rparr>"
  let ?s3 = "?s2\<lparr>busy := True\<rparr>"
  let ?s4 = "?s2\<lparr>panic_completed := 1\<rparr>"
  let ?s5 = "?s4\<lparr>pending := Some ?d, latest := Some ?d\<rparr>"
  let ?s6 = "?s4\<lparr>latest := Some ?d, busy := True\<rparr>"
  note simps = refreshed_def service_init_def state_ordering_init_def
  note r0 = reach_refreshed [of ?p]
  have "reachable \<lparr>svc = ?s0, in_flight = [(f, c)], chosen = None\<rparr>"
    using reachable.step [OF r0 step.publish_check [OF assms(1)], of c]
    by (simp add: simps is_stale_def)
  from reachable.step [OF this step.panic [of _ ?g]]
  have "reachable \<lparr>svc = ?s2, in_flight = [(f, c)], chosen = None\<rparr>"
    using assms(2) by (simp add: request_panic_def record_panic_def simps)
  from reachable.step [OF this step.select [of _ False "ActPanic 1" ?s3]]
  have r3: "reachable \<lparr>svc = ?s3, in_flight = [(f, c)], chosen = Some (ActPanic 1)\<rparr>"
    by (simp add: select_action_def simps)
  have "perform_action all_ok None (ActPanic 1) ?s3 = ?s4"
    by (simp add: perform_action_def panic_current_def simps)
  with reachable.step [OF r3 step.perform [of _ "ActPanic 1" all_ok None]]
  have "reachable \<lparr>svc = ?s4, in_flight = [(f, c)], chosen = None\<rparr>" by simp
  from reachable.step [OF this step.publish_commit [of "(f, c)" _ ?s5]]
  have "reachable \<lparr>svc = ?s5, in_flight = [], chosen = None\<rparr>"
    by (simp add: publish_commit_def ensure_open_def simps)
  from reachable.step [OF this step.select [of _ False "ActState ?d" ?s6]]
  have r6: "reachable \<lparr>svc = ?s6, in_flight = [], chosen = Some (ActState ?d)\<rparr>"
    by (simp add: select_action_def simps)
  let ?w = "\<lparr>svc = (apply_desired all_ok ?d ?s6)\<lparr>busy := False\<rparr>, in_flight = [], chosen = None\<rparr>"
  have "reachable ?w"
    using reachable.step [OF r6 step.perform [of _ "ActState ?d" all_ok None]]
    by (simp add: perform_action_def)
  moreover have "is_stale (ordering (svc ?w)) ?g" using assms(2) by (simp add: is_stale_def)
  moreover have "panic_completed (svc ?w) = panic_requested (svc ?w)"
    by (simp add: simps)
  moreover have "rx (wire_log (svc ?w)) = map_of (msf_notes f)"
  proof -
    have "svc_inv ?s6" "desired_ok ?d" using reachable_inv [OF r6] assms(1) by (simp_all add: world_inv_def desired_ok_frame)
    then have "rx (wire_log (apply_desired all_ok ?d ?s6)) = map_of (ds_notes ?d)"
      using assms(3)
      by (intro apply_desired_fresh_port [where p = ?p]) (simp_all add: all_ok_def simps desired_from_frame_def resolve_port_id_def)
    then show ?thesis by (simp add: desired_from_frame_def)
  qed
  ultimately show ?thesis by blast
qed

section \<open>Concrete runs\<close>

text \<open>One note sounding on an open port, and a desired state that moves it and adds another.\<close>

definition sounding :: service where
  "sounding = service_init\<lparr>port := Some ''Synth'', sent := [(MidiNoteKey 0 60, 100)],
     wire_log := [WOpen ''Synth'', WSent (note_on (MidiNoteKey 0 60) 100)]\<rparr>"

definition retrigger :: output_configuration where
  "retrigger = \<lparr>output_port = ''Synth'', velocity_policy = RETRIGGER, velocity_change_threshold = 5\<rparr>"

lemma sounding_inv: "svc_inv sounding" "port sounding \<noteq> None"
proof -
  have "rx (wire_log sounding) = map_of (sent sounding)"
    by (simp add: sounding_def rx_def)
  then show "svc_inv sounding"
    by (simp add: svc_inv_def in_step_def sounding_def notes_ok_def note_key_ok_def dict_ok_def service_init_def)
qed (simp add: sounding_def)

theorem reachable_receiver_in_step_witness:
  "rx (wire_log (refreshed ''Synth'')) = map_of (sent (refreshed ''Synth''))"
  using reachable_receiver_in_step [OF reach_refreshed [of "''Synth''"]]
  by (simp add: refreshed_def service_init_def)

theorem reconcile_reaches_desired_witness:
  "rx (wire_log (reconcile all_ok [(MidiNoteKey 0 60, 80), (MidiNoteKey 1 64, 90)] retrigger sounding))
     (MidiNoteKey 0 60) = Some 80"
proof -
  have "notes_ok [(MidiNoteKey 0 60, 80), (MidiNoteKey 1 64, 90)]"
    by (simp add: notes_ok_def dict_ok_def note_key_ok_def)
  moreover have "no_failure (wire_log sounding)" by (simp add: sounding_def)
  ultimately show ?thesis
    using reconcile_reaches_desired [OF sounding_inv, of "[(MidiNoteKey 0 60, 80), (MidiNoteKey 1 64, 90)]" all_ok retrigger]
    by (simp add: all_ok_def) (simp add: reconciled_def sounding_def velocity_changes_def retrigger_def)
qed

lemma reach_panicking:
  "reachable \<lparr>svc = (refreshed p)\<lparr>ordering := \<lparr>stale_upto_generation = 9\<rparr>, panic_requested := 1, busy := True\<rparr>,
     in_flight = [], chosen = Some (ActPanic 1)\<rparr>" (is "reachable ?w")
proof -
  let ?s = "(refreshed p)\<lparr>ordering := \<lparr>stale_upto_generation = 9\<rparr>, panic_requested := 1\<rparr>"
  from reachable.step [OF reach_refreshed [of p] step.panic [of _ 9]]
  have "reachable \<lparr>svc = ?s, in_flight = [], chosen = None\<rparr>"
    by (simp add: request_panic_def record_panic_def refreshed_def service_init_def state_ordering_init_def)
  from reachable.step [OF this step.select [of _ False "ActPanic 1" "?s\<lparr>busy := True\<rparr>"]]
  show ?thesis by (simp add: select_action_def refreshed_def service_init_def)
qed

theorem stale_is_permanent_witness:
  "is_stale (ordering (snd (request_panic 3
     ((refreshed ''Synth'')\<lparr>ordering := \<lparr>stale_upto_generation = 9\<rparr>\<rparr>)))) 7"
proof -
  let ?w = "\<lparr>svc = (refreshed ''Synth'')\<lparr>ordering := \<lparr>stale_upto_generation = 9\<rparr>\<rparr>, in_flight = [], chosen = None\<rparr>"
  have "step\<^sup>*\<^sup>* ?w (?w\<lparr>svc := snd (request_panic 3 (svc ?w))\<rparr>)"
    by (rule r_into_rtranclp) (rule step.panic)
  from stale_is_permanent [OF this, of 7] show ?thesis by (simp add: is_stale_def)
qed

theorem panic_silences_until_published_witness:
  "sent (close_begin (perform_action all_ok None (ActPanic 1)
     ((refreshed ''Synth'')\<lparr>ordering := \<lparr>stale_upto_generation = 9\<rparr>, panic_requested := 1, busy := True\<rparr>))) = []"
proof -
  let ?s = "(refreshed ''Synth'')\<lparr>ordering := \<lparr>stale_upto_generation = 9\<rparr>, panic_requested := 1, busy := True\<rparr>"
  let ?w = "\<lparr>svc = ?s, in_flight = [], chosen = Some (ActPanic 1)\<rparr>"
  let ?v = "?w\<lparr>svc := perform_action all_ok None (ActPanic 1) (svc ?w), chosen := None\<rparr>"
  have "step_unpublished ?v (?v\<lparr>svc := close_begin (svc ?v)\<rparr>)"
    using step.close [of ?v] by (simp add: step_unpublished_def)
  then have "step_unpublished\<^sup>*\<^sup>* ?v (?v\<lparr>svc := close_begin (svc ?v)\<rparr>)" by (rule r_into_rtranclp)
  from panic_silences_until_published [OF reach_panicking _ _ this] show ?thesis by simp
qed

definition stale_frame :: midi_state_frame where
  "stale_frame = \<lparr>msf_notes = [(MidiNoteKey 0 60, 100)],
     msf_context = \<lparr>clock_id = 1, tick_index = 1, source_frame_index = None, source_time_s = Fin 0,
       received_monotonic_ns = 0, deadline_monotonic_ns = None, is_realtime = True, publish_generation = 4\<rparr>, msf_source_node_id = 1\<rparr>"

theorem stale_state_can_sound_after_panic_witness:
  "\<exists>w. reachable w \<and> is_stale (ordering (svc w)) 4 \<and>
     panic_completed (svc w) = panic_requested (svc w) \<and>
     rx (wire_log (svc w)) (MidiNoteKey 0 60) = Some 100"
proof -
  have f: "frame_ok stale_frame" "generation_of stale_frame = 4" "output_port retrigger \<noteq> []"
    by (simp_all add: frame_ok_def stale_frame_def notes_ok_def dict_ok_def note_key_ok_def generation_of_def retrigger_def)
  from stale_state_can_sound_after_panic [OF f(1) _ f(3)] show ?thesis
    by (auto simp: f(2)) (auto simp: stale_frame_def)
qed

end
