(* ===== verification/GraphModel.thy ===== *)
theory GraphModel
  imports Values
begin

text \<open>
  The graph document of \<^verbatim>\<open>graph/model.py\<close> with the wire records of
  \<^verbatim>\<open>contracts/engine_messages.py\<close> it converts to. The document's dictionaries are only
  read through sorted views, so they are finite maps; parameters and settings likewise. An
  operation that raises leaves the document as it was and is \<open>Inl\<close>. Identifiers the code takes
  from \<open>uuid4()\<close> are arguments.
\<close>

section \<open>Models and their equality\<close>

type_synonym literals = "(string, literal) fmap"

type_synonym point = "pyfloat \<times> pyfloat"

record node_model =
  node_id :: uuid
  node_type_id :: string
  implementation_version :: int
  parameters :: literals
  position :: point
  node_size :: "point option"
  user_label :: "string option"
  collapsed :: bool
  node_ui_state :: literals

definition node_model_init ::
  "uuid \<Rightarrow> string \<Rightarrow> int \<Rightarrow> literals \<Rightarrow> point \<Rightarrow> point option \<Rightarrow> string option \<Rightarrow> bool \<Rightarrow> literals \<Rightarrow>
   node_model res" where
  "node_model_init i t v ps pos sz lbl col ui =
     (if v < 1 then Inl (ValueError (Msg ''implementation_version must be at least 1'' []))
      else Inr \<lparr>node_id = i, node_type_id = t, implementation_version = v, parameters = ps,
        position = pos, node_size = sz, user_label = lbl, collapsed = col, node_ui_state = ui\<rparr>)"

record connection_model =
  conn_id :: uuid
  source_node :: uuid
  source_port :: string
  destination_node :: uuid
  destination_port :: string
  conn_ui_state :: literals

datatype group_kind = GROUP | COMMENT

record group_model =
  group_id :: uuid
  group_kind_of :: group_kind
  group_title :: string
  group_text :: string
  group_position :: point
  group_size :: point
  group_color :: string

definition hex_digit :: "char \<Rightarrow> bool" where
  "hex_digit c \<longleftrightarrow> c \<in> set ''0123456789abcdefABCDEF''"

definition group_model_init ::
  "uuid \<Rightarrow> group_kind \<Rightarrow> string \<Rightarrow> string \<Rightarrow> point \<Rightarrow> point \<Rightarrow> string \<Rightarrow> group_model res" where
  "group_model_init i k title txt pos sz color =
     (if \<not> list_all is_finite [fst pos, snd pos, fst sz, snd sz]
        then Inl (ValueError (Msg ''Group position and size must be finite'' []))
      else if pf_less (fst sz) (Fin 0) \<or> pf_eq (fst sz) (Fin 0) \<or> pf_less (snd sz) (Fin 0) \<or> pf_eq (snd sz) (Fin 0)
        then Inl (ValueError (Msg ''Group size must be positive'' []))
      else if length color \<noteq> 7 \<or> \<not> prefix ''#'' color \<or> list_ex (\<lambda>c. \<not> hex_digit c) (tl color)
        then Inl (ValueError (Msg ''Group color must use #RRGGBB format'' []))
      else Inr \<lparr>group_id = i, group_kind_of = k, group_title = title, group_text = txt,
        group_position = pos, group_size = sz, group_color = color\<rparr>)"

text \<open>Python's \<open>==\<close> on mappings and on the frozen dataclasses.\<close>

definition literals_eq :: "literals \<Rightarrow> literals \<Rightarrow> bool" where
  "literals_eq a b \<longleftrightarrow> fmdom a = fmdom b \<and>
     fBall (fmdom a) (\<lambda>k. lit_eq (the (fmlookup a k)) (the (fmlookup b k)))"

definition point_eq :: "point \<Rightarrow> point \<Rightarrow> bool" where
  "point_eq a b \<longleftrightarrow> pf_eq (fst a) (fst b) \<and> pf_eq (snd a) (snd b)"

definition node_eq :: "node_model \<Rightarrow> node_model \<Rightarrow> bool" where
  "node_eq a b \<longleftrightarrow> node_id a = node_id b \<and> node_type_id a = node_type_id b \<and>
     implementation_version a = implementation_version b \<and> literals_eq (parameters a) (parameters b) \<and>
     point_eq (position a) (position b) \<and> rel_option point_eq (node_size a) (node_size b) \<and>
     user_label a = user_label b \<and> collapsed a = collapsed b \<and>
     literals_eq (node_ui_state a) (node_ui_state b)"

definition connection_eq :: "connection_model \<Rightarrow> connection_model \<Rightarrow> bool" where
  "connection_eq a b \<longleftrightarrow> conn_id a = conn_id b \<and> source_node a = source_node b \<and>
     source_port a = source_port b \<and> destination_node a = destination_node b \<and>
     destination_port a = destination_port b \<and> literals_eq (conn_ui_state a) (conn_ui_state b)"

definition group_eq :: "group_model \<Rightarrow> group_model \<Rightarrow> bool" where
  "group_eq a b \<longleftrightarrow> group_id a = group_id b \<and> group_kind_of a = group_kind_of b \<and>
     group_title a = group_title b \<and> group_text a = group_text b \<and>
     point_eq (group_position a) (group_position b) \<and> point_eq (group_size a) (group_size b) \<and>
     group_color a = group_color b"

lemma pf_eq_sym: "pf_eq a b \<Longrightarrow> pf_eq b a"
  by (cases a; cases b) simp_all

lemma lit_eq_sym: "lit_eq a b \<Longrightarrow> lit_eq b a"
proof -
  have rows: "list_all2 (list_all2 pf_eq) x y \<Longrightarrow> list_all2 (list_all2 pf_eq) y x" for x y
    by (simp add: list_all2_conv_all_nth pf_eq_sym)
  show "lit_eq a b \<Longrightarrow> lit_eq b a"
    by (cases a; cases b) (auto simp: color_eq_def dest: pf_eq_sym rows)
qed

lemma literals_eq_sym: "literals_eq a b \<Longrightarrow> literals_eq b a"
  by (auto simp: literals_eq_def dest: lit_eq_sym)

lemma point_eq_sym: "point_eq a b \<Longrightarrow> point_eq b a"
  by (auto simp: point_eq_def dest: pf_eq_sym)

lemma node_eq_sym: "node_eq a b \<Longrightarrow> node_eq b a"
  by (auto simp: node_eq_def option.rel_sel dest: literals_eq_sym point_eq_sym)

lemma connection_eq_sym: "connection_eq a b \<Longrightarrow> connection_eq b a"
  by (auto simp: connection_eq_def dest: literals_eq_sym)

lemma group_eq_sym: "group_eq a b \<Longrightarrow> group_eq b a"
  by (auto simp: group_eq_def dest: point_eq_sym)

section \<open>Wire form\<close>

record wire_node =
  wn_node_id :: uuid
  wn_type_id :: string
  wn_version :: int
  wn_parameters :: "(string \<times> literal) list"
  wn_position :: point
  wn_size :: "point option"
  wn_user_label :: "string option"
  wn_collapsed :: bool
  wn_ui_state :: "(string \<times> literal) list"

record wire_connection =
  wc_id :: uuid
  wc_source_node :: uuid
  wc_source_port :: string
  wc_destination_node :: uuid
  wc_destination_port :: string
  wc_ui_state :: "(string \<times> literal) list"

text \<open>\<open>dict(items)\<close>: a later item replaces an earlier one of the same key.\<close>

definition dict_of_items :: "(string \<times> literal) list \<Rightarrow> literals" where
  "dict_of_items items = fold (\<lambda>(k, v) m. fmupd k v m) items fmempty"

definition node_to_wire :: "node_model \<Rightarrow> wire_node" where
  "node_to_wire n = \<lparr>wn_node_id = node_id n, wn_type_id = node_type_id n,
     wn_version = implementation_version n, wn_parameters = sorted_list_of_fmap (parameters n),
     wn_position = position n, wn_size = node_size n, wn_user_label = user_label n,
     wn_collapsed = collapsed n, wn_ui_state = sorted_list_of_fmap (node_ui_state n)\<rparr>"

definition node_from_wire :: "wire_node \<Rightarrow> node_model res" where
  "node_from_wire w = node_model_init (wn_node_id w) (wn_type_id w) (wn_version w)
     (dict_of_items (wn_parameters w)) (wn_position w) (wn_size w) (wn_user_label w)
     (wn_collapsed w) (dict_of_items (wn_ui_state w))"

definition connection_to_wire :: "connection_model \<Rightarrow> wire_connection" where
  "connection_to_wire c = \<lparr>wc_id = conn_id c, wc_source_node = source_node c,
     wc_source_port = source_port c, wc_destination_node = destination_node c,
     wc_destination_port = destination_port c, wc_ui_state = sorted_list_of_fmap (conn_ui_state c)\<rparr>"

definition connection_from_wire :: "wire_connection \<Rightarrow> connection_model" where
  "connection_from_wire w = \<lparr>conn_id = wc_id w, source_node = wc_source_node w,
     source_port = wc_source_port w, destination_node = wc_destination_node w,
     destination_port = wc_destination_port w, conn_ui_state = dict_of_items (wc_ui_state w)\<rparr>"

lemma fold_fmupd_lookup:
  "distinct (map fst items) \<Longrightarrow>
   fmlookup (fold (\<lambda>(k, v) m. fmupd k v m) items m) k =
     (case map_of items k of Some v \<Rightarrow> Some v | None \<Rightarrow> fmlookup m k)"
proof (induction items arbitrary: m)
  case (Cons kv items)
  obtain k' v where kv: "kv = (k', v)" by (cases kv)
  have "map_of items k' = None" using Cons.prems by (simp add: kv dict_get_None_iff)
  with Cons.IH [of "fmupd k' v m"] Cons.prems show ?case
    by (cases "k = k'") (simp_all add: kv del: map_of_eq_None_iff split: option.split)
qed simp

lemma dict_of_sorted_items [simp]: "dict_of_items (sorted_list_of_fmap m) = m"
  by (rule fmap_ext)
     (simp add: dict_of_items_def fold_fmupd_lookup distinct_sorted_list_of_fmap split: option.split)

section \<open>Snapshots\<close>

record graph_snapshot =
  snap_document_id :: uuid
  snap_revision :: int
  snap_nodes :: "node_model list"
  snap_connections :: "connection_model list"
  snap_settings :: literals
  snap_groups :: "group_model list"

definition graph_snapshot_init ::
  "uuid \<Rightarrow> int \<Rightarrow> node_model list \<Rightarrow> connection_model list \<Rightarrow> literals \<Rightarrow> group_model list \<Rightarrow>
   graph_snapshot res" where
  "graph_snapshot_init d r ns cs st gs =
     (if r < 0 then Inl (ValueError (Msg ''graph revision cannot be negative'' []))
      else Inr \<lparr>snap_document_id = d, snap_revision = r, snap_nodes = ns, snap_connections = cs,
        snap_settings = st, snap_groups = gs\<rparr>)"

definition snap_node :: "graph_snapshot \<Rightarrow> uuid \<Rightarrow> node_model option" where
  "snap_node s i = List.find (\<lambda>n. node_id n = i) (snap_nodes s)"

record snapshot_payload =
  pl_document_id :: uuid
  pl_revision :: int
  pl_nodes :: "wire_node list"
  pl_connections :: "wire_connection list"
  pl_settings :: "(string \<times> literal) list"

definition snapshot_to_payload :: "graph_snapshot \<Rightarrow> snapshot_payload" where
  "snapshot_to_payload s = \<lparr>pl_document_id = snap_document_id s, pl_revision = snap_revision s,
     pl_nodes = map node_to_wire (snap_nodes s),
     pl_connections = map connection_to_wire (snap_connections s),
     pl_settings = sorted_list_of_fmap (snap_settings s)\<rparr>"

fun nodes_from_wire :: "wire_node list \<Rightarrow> node_model list res" where
  "nodes_from_wire [] = Inr []"
| "nodes_from_wire (w # ws) =
     bind_res (node_from_wire w) (\<lambda>n. bind_res (nodes_from_wire ws) (\<lambda>ns. Inr (n # ns)))"

definition snapshot_from_payload :: "snapshot_payload \<Rightarrow> graph_snapshot res" where
  "snapshot_from_payload p =
     bind_res (nodes_from_wire (pl_nodes p)) (\<lambda>ns.
       graph_snapshot_init (pl_document_id p) (pl_revision p) ns
         (map connection_from_wire (pl_connections p)) (dict_of_items (pl_settings p)) [])"

text \<open>What the constructors guarantee of a snapshot.\<close>

definition snapshot_constructed :: "graph_snapshot \<Rightarrow> bool" where
  "snapshot_constructed s \<longleftrightarrow> 0 \<le> snap_revision s \<and>
     (\<forall>n \<in> set (snap_nodes s). 1 \<le> implementation_version n)"

lemma node_wire_roundtrip:
  "1 \<le> implementation_version n \<Longrightarrow> node_from_wire (node_to_wire n) = Inr n"
  by (simp add: node_from_wire_def node_to_wire_def node_model_init_def)

lemma connection_wire_roundtrip [simp]: "connection_from_wire (connection_to_wire c) = c"
  by (simp add: connection_from_wire_def connection_to_wire_def)

lemma nodes_wire_roundtrip:
  "\<forall>n \<in> set ns. 1 \<le> implementation_version n \<Longrightarrow> nodes_from_wire (map node_to_wire ns) = Inr ns"
  by (induction ns) (simp_all add: node_wire_roundtrip)

text \<open>
  Wire round trip: rebuilding a snapshot from the payload the engine process receives gives
  the same snapshot except for its groups, which the payload leaves out on purpose.
\<close>

theorem snapshot_wire_roundtrip:
  assumes "snapshot_constructed s"
  shows "snapshot_from_payload (snapshot_to_payload s) = Inr (s\<lparr>snap_groups := []\<rparr>)"
proof -
  have "map connection_from_wire (map connection_to_wire cs) = cs" for cs
    by (induction cs) simp_all
  with assms show ?thesis
    by (simp add: snapshot_from_payload_def snapshot_to_payload_def snapshot_constructed_def
        nodes_wire_roundtrip graph_snapshot_init_def)
qed

lemma snapshot_of_nodes_constructed:
  "nodes_from_wire ws = Inr ns \<Longrightarrow> \<forall>n \<in> set ns. 1 \<le> implementation_version n"
  by (induction ws arbitrary: ns)
     (auto simp: bind_res_eq_Inr node_from_wire_def node_model_init_def split: if_splits)

section \<open>The document\<close>

record graph_document =
  document_id :: uuid
  revision :: int
  g_nodes :: "(uuid, node_model) fmap"
  g_connections :: "(uuid, connection_model) fmap"
  g_groups :: "(uuid, group_model) fmap"
  g_settings :: literals

definition document_init :: "uuid \<Rightarrow> graph_document" where
  "document_init i = \<lparr>document_id = i, revision = 0, g_nodes = fmempty, g_connections = fmempty,
     g_groups = fmempty, g_settings = fmempty\<rparr>"

text \<open>The three loops of \<open>from_snapshot\<close>: a repeated identifier raises.\<close>

fun index_unique :: "string \<Rightarrow> ('a \<Rightarrow> uuid) \<Rightarrow> 'a list \<Rightarrow> (uuid, 'a) fmap \<Rightarrow> (uuid, 'a) fmap res" where
  "index_unique msg key [] m = Inr m"
| "index_unique msg key (x # xs) m =
     (if key x |\<in>| fmdom m then Inl (ValueError (Msg msg [ArgId (key x)]))
      else index_unique msg key xs (fmupd (key x) x m))"

definition document_from_snapshot :: "graph_snapshot \<Rightarrow> graph_document res" where
  "document_from_snapshot s =
     bind_res (index_unique ''Snapshot contains duplicate node id: {}'' node_id (snap_nodes s) fmempty) (\<lambda>ns.
     bind_res (index_unique ''Snapshot contains duplicate connection id: {}'' conn_id (snap_connections s) fmempty) (\<lambda>cs.
     bind_res (index_unique ''Snapshot contains duplicate group id: {}'' group_id (snap_groups s) fmempty) (\<lambda>gs.
       Inr \<lparr>document_id = snap_document_id s, revision = snap_revision s, g_nodes = ns,
         g_connections = cs, g_groups = gs, g_settings = snap_settings s\<rparr>)))"

definition doc_nodes :: "graph_document \<Rightarrow> node_model list" where
  "doc_nodes d = sorted_values (g_nodes d)"

definition doc_connections :: "graph_document \<Rightarrow> connection_model list" where
  "doc_connections d = sorted_values (g_connections d)"

definition doc_groups :: "graph_document \<Rightarrow> group_model list" where
  "doc_groups d = sorted_values (g_groups d)"

definition touch :: "graph_document \<Rightarrow> graph_document" where
  "touch d = d\<lparr>revision := revision d + 1\<rparr>"

definition require_node :: "graph_document \<Rightarrow> uuid \<Rightarrow> node_model res" where
  "require_node d i = (case fmlookup (g_nodes d) i of None \<Rightarrow> Inl (KeyError (Msg ''Unknown node: {}'' [ArgId i]))
     | Some n \<Rightarrow> Inr n)"

definition require_connection :: "graph_document \<Rightarrow> uuid \<Rightarrow> connection_model res" where
  "require_connection d i = (case fmlookup (g_connections d) i of
       None \<Rightarrow> Inl (KeyError (Msg ''Unknown connection: {}'' [ArgId i]))
     | Some c \<Rightarrow> Inr c)"

subsection \<open>Groups\<close>

definition restore_group :: "group_model \<Rightarrow> bool \<Rightarrow> graph_document \<Rightarrow> graph_document res" where
  "restore_group g replace_existing d =
     (case fmlookup (g_groups d) (group_id g) of
        Some old \<Rightarrow>
          if \<not> replace_existing then Inl (ValueError (Msg ''Group already exists: {}'' [ArgId (group_id g)]))
          else if group_eq old g then Inr d
          else Inr (touch (d\<lparr>g_groups := fmupd (group_id g) g (g_groups d)\<rparr>))
      | None \<Rightarrow> Inr (touch (d\<lparr>g_groups := fmupd (group_id g) g (g_groups d)\<rparr>)))"

definition add_group :: "group_kind \<Rightarrow> string \<Rightarrow> string \<Rightarrow> point \<Rightarrow> point \<Rightarrow> string \<Rightarrow> uuid \<Rightarrow>
    graph_document \<Rightarrow> graph_document res" where
  "add_group k title txt pos sz color ident d =
     bind_res (group_model_init ident k title txt pos sz color) (\<lambda>g. restore_group g False d)"

definition remove_group :: "uuid \<Rightarrow> graph_document \<Rightarrow> graph_document res" where
  "remove_group i d =
     (if i |\<notin>| fmdom (g_groups d) then Inl (KeyError (Msg ''Unknown group: {}'' [ArgId i]))
      else Inr (touch (d\<lparr>g_groups := fmdrop i (g_groups d)\<rparr>)))"

subsection \<open>Nodes\<close>

definition incoming_connection :: "graph_document \<Rightarrow> uuid \<Rightarrow> string \<Rightarrow> connection_model option" where
  "incoming_connection d n p =
     List.find (\<lambda>c. destination_node c = n \<and> destination_port c = p) (doc_connections d)"

definition incident_connections :: "graph_document \<Rightarrow> uuid set \<Rightarrow> connection_model list" where
  "incident_connections d ns =
     filter (\<lambda>c. source_node c \<in> ns \<or> destination_node c \<in> ns) (doc_connections d)"

definition add_node :: "string \<Rightarrow> int \<Rightarrow> literals \<Rightarrow> point \<Rightarrow> uuid \<Rightarrow> graph_document \<Rightarrow> graph_document res" where
  "add_node t v ps pos ident d =
     (if ident |\<in>| fmdom (g_nodes d) then Inl (ValueError (Msg ''Node already exists: {}'' [ArgId ident]))
      else bind_res (node_model_init ident t v ps pos None None False fmempty) (\<lambda>n.
        Inr (touch (d\<lparr>g_nodes := fmupd ident n (g_nodes d)\<rparr>))))"

definition restore_node :: "node_model \<Rightarrow> bool \<Rightarrow> graph_document \<Rightarrow> graph_document res" where
  "restore_node n replace_existing d =
     (case fmlookup (g_nodes d) (node_id n) of
        Some old \<Rightarrow>
          if \<not> replace_existing then Inl (ValueError (Msg ''Node already exists: {}'' [ArgId (node_id n)]))
          else if node_eq old n then Inr d
          else Inr (touch (d\<lparr>g_nodes := fmupd (node_id n) n (g_nodes d)\<rparr>))
      | None \<Rightarrow> Inr (touch (d\<lparr>g_nodes := fmupd (node_id n) n (g_nodes d)\<rparr>)))"

definition touches :: "uuid \<Rightarrow> connection_model \<Rightarrow> bool" where
  "touches i c \<longleftrightarrow> source_node c = i \<or> destination_node c = i"

definition remove_node :: "uuid \<Rightarrow> graph_document \<Rightarrow> graph_document res" where
  "remove_node i d =
     (if i |\<notin>| fmdom (g_nodes d) then Inl (KeyError (Msg ''Unknown node: {}'' [ArgId i]))
      else Inr (touch (d\<lparr>g_nodes := fmdrop i (g_nodes d),
        g_connections := fmfilter (\<lambda>k. \<not> touches i (the (fmlookup (g_connections d) k))) (g_connections d)\<rparr>)))"

definition same_literal :: "literals \<Rightarrow> string \<Rightarrow> literal \<Rightarrow> bool" where
  "same_literal m k v = (case fmlookup m k of Some old \<Rightarrow> lit_eq old v | None \<Rightarrow> False)"

definition set_parameter :: "uuid \<Rightarrow> string \<Rightarrow> literal \<Rightarrow> graph_document \<Rightarrow> graph_document res" where
  "set_parameter i p v d = bind_res (require_node d i) (\<lambda>n.
     if same_literal (parameters n) p v then Inr d
     else Inr (touch (d\<lparr>g_nodes := fmupd i (n\<lparr>parameters := fmupd p v (parameters n)\<rparr>) (g_nodes d)\<rparr>)))"

definition clear_parameter :: "uuid \<Rightarrow> string \<Rightarrow> graph_document \<Rightarrow> graph_document res" where
  "clear_parameter i p d = bind_res (require_node d i) (\<lambda>n.
     if p |\<notin>| fmdom (parameters n) then Inr d
     else Inr (touch (d\<lparr>g_nodes := fmupd i (n\<lparr>parameters := fmdrop p (parameters n)\<rparr>) (g_nodes d)\<rparr>)))"

definition set_position :: "uuid \<Rightarrow> point \<Rightarrow> graph_document \<Rightarrow> graph_document res" where
  "set_position i pos d = bind_res (require_node d i) (\<lambda>n.
     if point_eq (position n) pos then Inr d
     else Inr (touch (d\<lparr>g_nodes := fmupd i (n\<lparr>position := pos\<rparr>) (g_nodes d)\<rparr>)))"

subsection \<open>Connections\<close>

definition enters :: "uuid \<Rightarrow> string \<Rightarrow> connection_model \<Rightarrow> bool" where
  "enters n p c \<longleftrightarrow> destination_node c = n \<and> destination_port c = p"

definition drop_entering :: "uuid \<Rightarrow> string \<Rightarrow> (uuid, connection_model) fmap \<Rightarrow> (uuid, connection_model) fmap" where
  "drop_entering n p m = fmfilter (\<lambda>k. \<not> enters n p (the (fmlookup m k))) m"

definition add_connection :: "uuid \<Rightarrow> string \<Rightarrow> uuid \<Rightarrow> string \<Rightarrow> uuid \<Rightarrow> bool \<Rightarrow> graph_document \<Rightarrow>
    graph_document res" where
  "add_connection sn sp dn dp ident replace_existing d =
     bind_res (require_node d sn) (\<lambda>_. bind_res (require_node d dn) (\<lambda>_.
       if (case fmlookup (g_connections d) ident of None \<Rightarrow> False
           | Some collision \<Rightarrow> \<not> (replace_existing \<and> enters dn dp collision))
       then Inl (ValueError (Msg ''Connection already exists: {}'' [ArgId ident]))
       else
         let candidate = \<lparr>conn_id = ident, source_node = sn, source_port = sp, destination_node = dn,
               destination_port = dp, conn_ui_state = fmempty\<rparr>;
             connections = (if replace_existing then drop_entering dn dp (g_connections d) else g_connections d)
         in Inr (touch (d\<lparr>g_connections := fmupd ident candidate connections\<rparr>))))"

definition restore_connection :: "connection_model \<Rightarrow> bool \<Rightarrow> graph_document \<Rightarrow> graph_document res" where
  "restore_connection c replace_input d =
     bind_res (require_node d (source_node c)) (\<lambda>_. bind_res (require_node d (destination_node c)) (\<lambda>_.
       let existing = fmlookup (g_connections d) (conn_id c);
           same = (case existing of None \<Rightarrow> False | Some e \<Rightarrow> connection_eq e c)
       in if existing \<noteq> None \<and> \<not> same \<and>
             \<not> (replace_input \<and> enters (destination_node c) (destination_port c) (the existing))
          then Inl (ValueError (Msg ''Connection already exists: {}'' [ArgId (conn_id c)]))
          else if same then Inr d
          else
            let connections = (if replace_input
                  then drop_entering (destination_node c) (destination_port c) (g_connections d)
                  else g_connections d)
            in Inr (touch (d\<lparr>g_connections := fmupd (conn_id c) c connections\<rparr>))))"

definition remove_connection :: "uuid \<Rightarrow> graph_document \<Rightarrow> graph_document res" where
  "remove_connection i d =
     (if i |\<notin>| fmdom (g_connections d) then Inl (KeyError (Msg ''Unknown connection: {}'' [ArgId i]))
      else Inr (touch (d\<lparr>g_connections := fmdrop i (g_connections d)\<rparr>)))"

definition set_connection_ui_state :: "uuid \<Rightarrow> string \<Rightarrow> literal \<Rightarrow> graph_document \<Rightarrow> graph_document res" where
  "set_connection_ui_state i k v d = bind_res (require_connection d i) (\<lambda>c.
     if same_literal (conn_ui_state c) k v then Inr d
     else Inr (touch (d\<lparr>g_connections :=
       fmupd i (c\<lparr>conn_ui_state := fmupd k v (conn_ui_state c)\<rparr>) (g_connections d)\<rparr>)))"

definition remove_connection_ui_state_key :: "uuid \<Rightarrow> string \<Rightarrow> graph_document \<Rightarrow> graph_document res" where
  "remove_connection_ui_state_key i k d = bind_res (require_connection d i) (\<lambda>c.
     if k |\<notin>| fmdom (conn_ui_state c) then Inr d
     else Inr (touch (d\<lparr>g_connections :=
       fmupd i (c\<lparr>conn_ui_state := fmdrop k (conn_ui_state c)\<rparr>) (g_connections d)\<rparr>)))"

definition set_document_setting :: "string \<Rightarrow> literal \<Rightarrow> graph_document \<Rightarrow> graph_document res" where
  "set_document_setting k v d =
     (if same_literal (g_settings d) k v then Inr d
      else Inr (touch (d\<lparr>g_settings := fmupd k v (g_settings d)\<rparr>)))"

definition doc_snapshot :: "graph_document \<Rightarrow> graph_snapshot res" where
  "doc_snapshot d = graph_snapshot_init (document_id d) (revision d) (doc_nodes d) (doc_connections d)
     (g_settings d) (doc_groups d)"

section \<open>Operations and the invariant\<close>

datatype doc_op =
    AddGroup group_kind string string point point string uuid
  | RestoreGroup group_model bool
  | RemoveGroup uuid
  | AddNode string int literals point uuid
  | RestoreNode node_model bool
  | RemoveNode uuid
  | SetParameter uuid string literal
  | ClearParameter uuid string
  | SetPosition uuid point
  | AddConnection uuid string uuid string uuid bool
  | RestoreConnection connection_model bool
  | RemoveConnection uuid
  | SetConnectionUiState uuid string literal
  | RemoveConnectionUiStateKey uuid string
  | SetDocumentSetting string literal

fun apply_op :: "doc_op \<Rightarrow> graph_document \<Rightarrow> graph_document res" where
  "apply_op (AddGroup k t x p s c i) = add_group k t x p s c i"
| "apply_op (RestoreGroup g r) = restore_group g r"
| "apply_op (RemoveGroup i) = remove_group i"
| "apply_op (AddNode t v ps p i) = add_node t v ps p i"
| "apply_op (RestoreNode n r) = restore_node n r"
| "apply_op (RemoveNode i) = remove_node i"
| "apply_op (SetParameter i p v) = set_parameter i p v"
| "apply_op (ClearParameter i p) = clear_parameter i p"
| "apply_op (SetPosition i p) = set_position i p"
| "apply_op (AddConnection sn sp dn dp i r) = add_connection sn sp dn dp i r"
| "apply_op (RestoreConnection c r) = restore_connection c r"
| "apply_op (RemoveConnection i) = remove_connection i"
| "apply_op (SetConnectionUiState i k v) = set_connection_ui_state i k v"
| "apply_op (RemoveConnectionUiStateKey i k) = remove_connection_ui_state_key i k"
| "apply_op (SetDocumentSetting k v) = set_document_setting k v"

text \<open>
  Every stored value sits under its own identifier, nodes are constructed values, connections
  join nodes of the document, and the revision is not negative.
\<close>

definition nodes_ok :: "(uuid, node_model) fmap \<Rightarrow> bool" where
  "nodes_ok m \<longleftrightarrow> (\<forall>k n. fmlookup m k = Some n \<longrightarrow> node_id n = k \<and> 1 \<le> implementation_version n)"

definition connections_ok :: "uuid fset \<Rightarrow> (uuid, connection_model) fmap \<Rightarrow> bool" where
  "connections_ok ns m \<longleftrightarrow> (\<forall>k c. fmlookup m k = Some c \<longrightarrow>
     conn_id c = k \<and> source_node c |\<in>| ns \<and> destination_node c |\<in>| ns)"

definition groups_ok :: "(uuid, group_model) fmap \<Rightarrow> bool" where
  "groups_ok m \<longleftrightarrow> (\<forall>k g. fmlookup m k = Some g \<longrightarrow> group_id g = k)"

definition doc_ok :: "graph_document \<Rightarrow> bool" where
  "doc_ok d \<longleftrightarrow> nodes_ok (g_nodes d) \<and> connections_ok (fmdom (g_nodes d)) (g_connections d) \<and>
     groups_ok (g_groups d) \<and> 0 \<le> revision d"

text \<open>No input of a node is entered by two connections.\<close>

definition single_inputs :: "graph_document \<Rightarrow> bool" where
  "single_inputs d \<longleftrightarrow> (\<forall>i j c c'. fmlookup (g_connections d) i = Some c \<longrightarrow>
     fmlookup (g_connections d) j = Some c' \<longrightarrow>
     enters (destination_node c') (destination_port c') c \<longrightarrow> i = j)"

text \<open>An operation's own values come from the dataclass constructors.\<close>

fun op_ok :: "doc_op \<Rightarrow> bool" where
  "op_ok (RestoreNode n r) = (1 \<le> implementation_version n)"
| "op_ok _ = True"

text \<open>The callers that keep inputs single replace, or have seen the input free.\<close>

fun op_replaces :: "doc_op \<Rightarrow> graph_document \<Rightarrow> bool" where
  "op_replaces (AddConnection sn sp dn dp i r) d = (r \<or> incoming_connection d dn dp = None)"
| "op_replaces (RestoreConnection c r) d =
     (r \<or> incoming_connection d (destination_node c) (destination_port c) = None)"
| "op_replaces _ d = True"

lemmas op_defs = add_group_def restore_group_def remove_group_def add_node_def restore_node_def
  remove_node_def set_parameter_def clear_parameter_def set_position_def add_connection_def
  restore_connection_def remove_connection_def set_connection_ui_state_def
  remove_connection_ui_state_key_def set_document_setting_def

lemma touch_simps [simp]:
  "document_id (touch d) = document_id d" "revision (touch d) = revision d + 1"
  "g_nodes (touch d) = g_nodes d" "g_connections (touch d) = g_connections d"
  "g_groups (touch d) = g_groups d" "g_settings (touch d) = g_settings d"
  by (simp_all add: touch_def)

lemma require_node_eq [simp]:
  "require_node d i = Inr n \<longleftrightarrow> fmlookup (g_nodes d) i = Some n"
  by (auto simp: require_node_def split: option.splits)

lemma require_connection_eq [simp]:
  "require_connection d i = Inr c \<longleftrightarrow> fmlookup (g_connections d) i = Some c"
  by (auto simp: require_connection_def split: option.splits)

lemma drop_entering_lookup [simp]:
  "fmlookup (drop_entering n p m) k =
    (case fmlookup m k of None \<Rightarrow> None | Some c \<Rightarrow> if enters n p c then None else Some c)"
  by (simp add: drop_entering_def split: option.split)

lemma nodes_ok_upd [intro]:
  "nodes_ok m \<Longrightarrow> node_id n = i \<Longrightarrow> 1 \<le> implementation_version n \<Longrightarrow> nodes_ok (fmupd i n m)"
  by (simp add: nodes_ok_def)

lemma nodes_ok_drop [intro]: "nodes_ok m \<Longrightarrow> nodes_ok (fmdrop i m)"
  by (simp add: nodes_ok_def)

lemma nodes_ok_lookup:
  "nodes_ok m \<Longrightarrow> fmlookup m i = Some n \<Longrightarrow> node_id n = i \<and> 1 \<le> implementation_version n"
  by (simp add: nodes_ok_def)

lemma connections_ok_upd [intro]:
  "connections_ok ns m \<Longrightarrow> conn_id c = i \<Longrightarrow> source_node c |\<in>| ns \<Longrightarrow> destination_node c |\<in>| ns \<Longrightarrow>
   connections_ok ns (fmupd i c m)"
  by (simp add: connections_ok_def)

lemma connections_ok_sub:
  "connections_ok ns m \<Longrightarrow> (\<And>k c. fmlookup m' k = Some c \<Longrightarrow> fmlookup m k = Some c) \<Longrightarrow> connections_ok ns m'"
  by (auto simp: connections_ok_def)

lemma connections_ok_mono: "connections_ok ns m \<Longrightarrow> ns |\<subseteq>| ns' \<Longrightarrow> connections_ok ns' m"
  by (auto simp: connections_ok_def)

lemma connections_ok_insert [intro]: "connections_ok ns m \<Longrightarrow> connections_ok (finsert i ns) m"
  by (auto intro: connections_ok_mono)

lemma connections_ok_remove:
  "connections_ok ns m \<Longrightarrow>
   connections_ok (ns |-| {|i|}) (fmfilter (\<lambda>k. \<not> touches i (the (fmlookup m k))) m)"
  by (auto simp: connections_ok_def touches_def)

lemma connections_ok_enter [intro]:
  "connections_ok ns m \<Longrightarrow> connections_ok ns (drop_entering n p m)"
  by (rule connections_ok_sub) (auto split: option.splits if_splits)

lemma connections_ok_fmdrop [intro]: "connections_ok ns m \<Longrightarrow> connections_ok ns (fmdrop i m)"
  by (rule connections_ok_sub) (auto split: if_splits)

lemma groups_ok_upd [intro]: "groups_ok m \<Longrightarrow> group_id g = i \<Longrightarrow> groups_ok (fmupd i g m)"
  by (simp add: groups_ok_def)

lemma groups_ok_drop [intro]: "groups_ok m \<Longrightarrow> groups_ok (fmdrop i m)"
  by (simp add: groups_ok_def)

lemma fmdom_upd_known [simp]: "fmlookup m i = Some n \<Longrightarrow> finsert i (fmdom m) = fmdom m"
  by (auto simp: fmlookup_dom_iff)

lemma apply_op_inv:
  assumes "apply_op op d = Inr d'" and "doc_ok d" and "op_ok op"
  shows "doc_ok d'"
proof -
  have ok: "nodes_ok (g_nodes d)" "connections_ok (fmdom (g_nodes d)) (g_connections d)"
    "groups_ok (g_groups d)" "0 \<le> revision d"
    using assms(2) by (simp_all add: doc_ok_def)
  note r = nodes_ok_lookup [OF ok(1)]
  have c: "fmlookup (g_connections d) i = Some c \<Longrightarrow>
      conn_id c = i \<and> source_node c |\<in>| fmdom (g_nodes d) \<and> destination_node c |\<in>| fmdom (g_nodes d)" for i c
    using ok(2) by (simp add: connections_ok_def)
  show ?thesis
    using assms(1,3) ok
    by (cases op)
       (auto simp: op_defs Let_def doc_ok_def bind_res_eq_Inr node_model_init_def group_model_init_def
         connections_ok_remove fmlookup_dom_iff split: if_splits option.splits
         intro!: nodes_ok_upd connections_ok_upd groups_ok_upd, (blast dest: r c)+)
qed


lemma doc_connections_iff:
  "c \<in> set (doc_connections d) \<longleftrightarrow> (\<exists>k. fmlookup (g_connections d) k = Some c)"
  by (simp add: doc_connections_def set_sorted_values fmlookup_ran'_iff)

lemma incoming_None_iff:
  "incoming_connection d n p = None \<longleftrightarrow> (\<forall>k c. fmlookup (g_connections d) k = Some c \<longrightarrow> \<not> enters n p c)"
  by (auto simp: incoming_connection_def find_None_iff doc_connections_iff enters_def)

lemma incoming_Some:
  "incoming_connection d n p = Some c \<Longrightarrow>
    (\<exists>k. fmlookup (g_connections d) k = Some c) \<and> enters n p c"
  by (auto simp: incoming_connection_def find_Some_iff enters_def doc_connections_iff [symmetric])

definition single_map :: "(uuid, connection_model) fmap \<Rightarrow> bool" where
  "single_map m \<longleftrightarrow> (\<forall>i j c c'. fmlookup m i = Some c \<longrightarrow> fmlookup m j = Some c' \<longrightarrow>
     enters (destination_node c') (destination_port c') c \<longrightarrow> i = j)"

lemma single_inputs_map: "single_inputs d = single_map (g_connections d)"
  by (simp add: single_inputs_def single_map_def)

lemma single_map_sub:
  "single_map m \<Longrightarrow> (\<And>k c. fmlookup m' k = Some c \<Longrightarrow> fmlookup m k = Some c) \<Longrightarrow> single_map m'"
  unfolding single_map_def by metis

lemma enters_sym: "enters (destination_node a) (destination_port a) b = enters (destination_node b) (destination_port b) a"
  by (auto simp: enters_def)

lemma single_map_upd_free:
  assumes "single_map m" and "\<And>k c'. fmlookup m k = Some c' \<Longrightarrow> k \<noteq> i \<Longrightarrow>
    \<not> enters (destination_node c) (destination_port c) c'"
  shows "single_map (fmupd i c m)"
  unfolding single_map_def
proof (intro allI impI)
  fix a b x y
  assume "fmlookup (fmupd i c m) a = Some x" "fmlookup (fmupd i c m) b = Some y"
    and e: "enters (destination_node y) (destination_port y) x"
  then show "a = b"
    using assms e enters_sym [of y x] unfolding single_map_def by (auto split: if_splits)
qed

lemma single_map_replace:
  "single_map m \<Longrightarrow> single_map (fmupd i c (drop_entering (destination_node c) (destination_port c) m))"
  by (rule single_map_upd_free)
     (auto split: option.splits if_splits intro: single_map_sub)

lemma single_map_same_ends:
  assumes "single_map m" and "fmlookup m i = Some c" and "destination_node c' = destination_node c"
    and "destination_port c' = destination_port c"
  shows "single_map (fmupd i c' m)"
proof (rule single_map_upd_free [OF assms(1)])
  fix k x assume "fmlookup m k = Some x" "k \<noteq> i"
  then show "\<not> enters (destination_node c') (destination_port c') x"
    using assms unfolding single_map_def by metis
qed

lemma single_map_ui_state:
  "single_map m \<Longrightarrow> fmlookup m i = Some c \<Longrightarrow> single_map (fmupd i (c\<lparr>conn_ui_state := u\<rparr>) m)"
  by (rule single_map_same_ends) simp_all

lemma add_connection_single:
  assumes "add_connection sn sp dn dp i r d = Inr d'" and "single_map (g_connections d)"
    and "r \<or> incoming_connection d dn dp = None"
  shows "single_map (g_connections d')"
proof -
  let ?c = "\<lparr>conn_id = i, source_node = sn, source_port = sp, destination_node = dn,
    destination_port = dp, conn_ui_state = fmempty\<rparr>"
  have "g_connections d' = fmupd i ?c (if r then drop_entering dn dp (g_connections d) else g_connections d)"
    using assms(1) by (auto simp: add_connection_def Let_def bind_res_eq_Inr split: if_splits)
  moreover have "single_map (fmupd i ?c (g_connections d))" if "\<not> r"
    by (rule single_map_upd_free [OF assms(2)]) (use assms(3) that in \<open>auto simp: incoming_None_iff\<close>)
  ultimately show ?thesis using single_map_replace [OF assms(2), of i ?c] by auto
qed

lemma restore_connection_single:
  assumes "restore_connection c r d = Inr d'" and "single_map (g_connections d)"
    and "r \<or> incoming_connection d (destination_node c) (destination_port c) = None"
  shows "single_map (g_connections d')"
proof -
  have "g_connections d' = g_connections d \<or> g_connections d' = fmupd (conn_id c) c
     (if r then drop_entering (destination_node c) (destination_port c) (g_connections d) else g_connections d)"
    using assms(1) by (auto simp: restore_connection_def Let_def bind_res_eq_Inr split: if_splits)
  moreover have "single_map (fmupd (conn_id c) c (g_connections d))" if "\<not> r"
    by (rule single_map_upd_free [OF assms(2)]) (use assms(3) that in \<open>auto simp: incoming_None_iff\<close>)
  ultimately show ?thesis
    using single_map_replace [OF assms(2), of "conn_id c" c] assms(2) by auto
qed

lemma apply_op_single:
  assumes "apply_op op d = Inr d'" and "single_inputs d" and "op_replaces op d"
  shows "single_inputs d'"
  using assms unfolding single_inputs_map
proof (cases op)
  case (RemoveNode i)
  then show "single_map (g_connections d')"
    using assms by (auto simp: remove_node_def single_inputs_map split: if_splits intro: single_map_sub)
next
  case (RemoveConnection i)
  then show "single_map (g_connections d')"
    using assms by (auto simp: remove_connection_def single_inputs_map split: if_splits intro: single_map_sub)
next
  case (SetConnectionUiState i k v)
  then show "single_map (g_connections d')"
    using assms by (auto simp: set_connection_ui_state_def single_inputs_map bind_res_eq_Inr
        split: if_splits intro: single_map_ui_state)
next
  case (RemoveConnectionUiStateKey i k)
  then show "single_map (g_connections d')"
    using assms by (auto simp: remove_connection_ui_state_key_def single_inputs_map bind_res_eq_Inr
        split: if_splits intro: single_map_ui_state)
next
  case (AddConnection sn sp dn dp i r)
  then show "single_map (g_connections d')"
    using assms by (auto simp: single_inputs_map intro: add_connection_single)
next
  case (RestoreConnection c r)
  then show "single_map (g_connections d')"
    using assms by (auto simp: single_inputs_map intro: restore_connection_single)
qed (auto simp: op_defs bind_res_eq_Inr split: if_splits option.splits)

lemma apply_ops_inv:
  "foldM apply_op ops d = Inr d' \<Longrightarrow> doc_ok d \<Longrightarrow> list_all op_ok ops \<Longrightarrow> doc_ok d'"
  by (rule foldM_invariant [of apply_op ops d d' doc_ok])
     (auto simp: list_all_iff intro: apply_op_inv)

lemma document_init_ok [simp]: "doc_ok (document_init i)"
  by (simp add: doc_ok_def document_init_def nodes_ok_def connections_ok_def groups_ok_def)



text \<open>
  C27. Single inputs: an operation that adds or restores a connection with replacement of the
  input, or at an input seen free, keeps every input entered by at most one connection; so do all
  other operations.
\<close>

theorem inputs_stay_single:
  assumes "apply_op op d = Inr d'" and "single_inputs d" and "op_replaces op d"
  shows "single_inputs d'"
  using assms by (rule apply_op_single)

text \<open>
  C28. Removing a node removes exactly the node and the connections that touch it; no connection
  of the result mentions it, and everything else is kept.
\<close>

theorem remove_node_exact:
  assumes "remove_node i d = Inr d'"
  shows "fmlookup (g_nodes d') = (fmlookup (g_nodes d))(i := None) \<and>
    (\<forall>k. fmlookup (g_connections d') k =
       (case fmlookup (g_connections d) k of None \<Rightarrow> None
        | Some c \<Rightarrow> if source_node c = i \<or> destination_node c = i then None else Some c)) \<and>
    incident_connections d' {i} = [] \<and> g_groups d' = g_groups d \<and> g_settings d' = g_settings d"
proof -
  have d': "d' = touch (d\<lparr>g_nodes := fmdrop i (g_nodes d),
        g_connections := fmfilter (\<lambda>k. \<not> touches i (the (fmlookup (g_connections d) k))) (g_connections d)\<rparr>)"
    using assms by (simp add: remove_node_def split: if_splits)
  have conns: "fmlookup (g_connections d') k =
       (case fmlookup (g_connections d) k of None \<Rightarrow> None
        | Some c \<Rightarrow> if source_node c = i \<or> destination_node c = i then None else Some c)" for k
    by (simp add: d' touches_def split: option.split)
  then have "incident_connections d' {i} = []"
    by (auto simp: incident_connections_def filter_empty_conv doc_connections_iff
        split: option.splits if_splits)
  with conns show ?thesis by (simp add: d' fun_eq_iff)
qed

section \<open>Snapshots of documents\<close>

lemma index_unique_iff:
  "(\<exists>m'. index_unique msg key xs m = Inr m') \<longleftrightarrow>
     distinct (map key xs) \<and> (\<forall>x \<in> set xs. key x |\<notin>| fmdom m)"
  by (induction xs arbitrary: m) (auto, metis image_eqI)

lemma index_unique_fold:
  "index_unique msg key xs m = Inr m' \<Longrightarrow> m' = fold (\<lambda>x. fmupd (key x) x) xs m"
  by (induction xs arbitrary: m) (auto split: if_splits)

lemma fold_values_items:
  "\<forall>(k, x) \<in> set items. key x = k \<Longrightarrow>
   fold (\<lambda>x. fmupd (key x) x) (map snd items) m = fold (\<lambda>(k, v) m. fmupd k v m) items m"
  by (induction items arbitrary: m) auto

lemma fold_sorted_items: "fold (\<lambda>(k, v) m. fmupd k v m) (sorted_list_of_fmap m) fmempty = m"
  by (rule fmap_ext)
     (simp add: fold_fmupd_lookup distinct_sorted_list_of_fmap split: option.split)

lemma index_sorted_values:
  assumes "\<And>k x. fmlookup m k = Some x \<Longrightarrow> key x = k"
  shows "index_unique msg key (sorted_values m) fmempty = Inr m"
proof -
  have keys: "\<forall>(k, x) \<in> set (sorted_list_of_fmap m). key x = k"
    using assms by (auto simp: sorted_list_of_fmap_iff)
  have "distinct (map key (sorted_values m))" by (rule distinct_sorted_values [OF assms])
  then obtain m' where m': "index_unique msg key (sorted_values m) fmempty = Inr m'"
    using index_unique_iff [of msg key "sorted_values m" fmempty] by auto
  from index_unique_fold [OF this] have "m' = m"
    unfolding sorted_values_def fold_values_items [OF keys] fold_sorted_items .
  with m' show ?thesis by simp
qed

text \<open>
  C29. Snapshot round trip: the document rebuilt from the snapshot of a consistent document is
  that document, revision included.
\<close>

theorem snapshot_restores_document:
  assumes "doc_ok d"
  shows "bind_res (doc_snapshot d) document_from_snapshot = Inr d"
proof -
  have "node_id n = k" if "fmlookup (g_nodes d) k = Some n" for k n
    using assms that by (simp add: doc_ok_def nodes_ok_def)
  moreover have "conn_id c = k" if "fmlookup (g_connections d) k = Some c" for k c
    using assms that by (simp add: doc_ok_def connections_ok_def)
  moreover have "group_id g = k" if "fmlookup (g_groups d) k = Some g" for k g
    using assms that by (simp add: doc_ok_def groups_ok_def)
  ultimately show ?thesis
    using assms
    by (simp add: doc_snapshot_def graph_snapshot_init_def doc_ok_def document_from_snapshot_def
        doc_nodes_def doc_connections_def doc_groups_def index_sorted_values)
qed

text \<open>
  Restoring a snapshot succeeds exactly when its nodes, its connections and its groups have
  distinct identifiers: a malformed snapshot raises instead of silently losing elements.
\<close>

theorem restore_rejects_duplicates:
  "(\<exists>d. document_from_snapshot s = Inr d) \<longleftrightarrow>
     distinct (map node_id (snap_nodes s)) \<and> distinct (map conn_id (snap_connections s)) \<and>
     distinct (map group_id (snap_groups s))"
  using index_unique_iff [of "''Snapshot contains duplicate node id: {}''" node_id "snap_nodes s" fmempty]
    index_unique_iff [of "''Snapshot contains duplicate connection id: {}''" conn_id "snap_connections s" fmempty]
    index_unique_iff [of "''Snapshot contains duplicate group id: {}''" group_id "snap_groups s" fmempty]
  by (auto simp: document_from_snapshot_def bind_res_eq_Inr)

section \<open>Connecting\<close>

text \<open>
  Connecting with replacement: the new connection is afterwards the one that occupies the
  input, connections of other inputs are untouched, and nodes are unchanged.
\<close>

theorem add_connection_occupies_input:
  assumes "add_connection sn sp dn dp i True d = Inr d'" and "doc_ok d"
  shows "(\<exists>c. incoming_connection d' dn dp = Some c \<and> conn_id c = i \<and> source_node c = sn \<and> source_port c = sp) \<and>
    (\<forall>n p. (n, p) \<noteq> (dn, dp) \<longrightarrow>
       {c \<in> set (doc_connections d'). enters n p c} = {c \<in> set (doc_connections d). enters n p c}) \<and>
    g_nodes d' = g_nodes d"
proof -
  let ?c = "\<lparr>conn_id = i, source_node = sn, source_port = sp, destination_node = dn,
    destination_port = dp, conn_ui_state = fmempty\<rparr>"
  have g: "g_connections d' = fmupd i ?c (drop_entering dn dp (g_connections d))"
    and nodes: "g_nodes d' = g_nodes d"
    and free: "\<And>old. fmlookup (g_connections d) i = Some old \<Longrightarrow> enters dn dp old"
    using assms(1) by (auto simp: add_connection_def Let_def bind_res_eq_Inr split: if_splits option.splits)
  have only: "c = ?c" if "fmlookup (g_connections d') k = Some c" "enters dn dp c" for k c
    using that by (auto simp: g split: if_splits option.splits)
  have "incoming_connection d' dn dp \<noteq> None"
    unfolding incoming_None_iff by (auto simp: g enters_def)
  then obtain c where c: "incoming_connection d' dn dp = Some c" by blast
  from incoming_Some [OF c] only have "c = ?c" by blast
  moreover have "{c \<in> set (doc_connections d'). enters n p c} = {c \<in> set (doc_connections d). enters n p c}"
    if "(n, p) \<noteq> (dn, dp)" for n p
  proof (intro set_eqI iffI)
    fix c assume "c \<in> {c \<in> set (doc_connections d'). enters n p c}"
    then show "c \<in> {c \<in> set (doc_connections d). enters n p c}"
      using that by (auto simp: doc_connections_iff g enters_def split: if_splits option.splits)
  next
    fix c assume "c \<in> {c \<in> set (doc_connections d). enters n p c}"
    then obtain k where k: "fmlookup (g_connections d) k = Some c" and e: "enters n p c"
      by (auto simp: doc_connections_iff)
    then have "\<not> enters dn dp c" "k \<noteq> i" using that free by (auto simp: enters_def)
    with k e show "c \<in> {c \<in> set (doc_connections d'). enters n p c}"
      by (auto simp: doc_connections_iff g intro!: exI [of _ k])
  qed
  ultimately show ?thesis using c nodes by auto
qed

section \<open>Concrete documents\<close>

definition demo_ops :: "doc_op list" where
  "demo_ops = [AddNode ''source'' 1 fmempty (Fin 0, Fin 0) 1, AddNode ''sink'' 2 fmempty (Fin 3, Fin 4) 2,
     AddConnection 1 ''out'' 2 ''in'' 7 True]"

definition demo_document :: graph_document where
  "demo_document = \<lparr>document_id = 5, revision = 3,
     g_nodes = fmupd 2 \<lparr>node_id = 2, node_type_id = ''sink'', implementation_version = 2,
         parameters = fmempty, position = (Fin 3, Fin 4), node_size = None, user_label = None,
         collapsed = False, node_ui_state = fmempty\<rparr>
       (fmupd 1 \<lparr>node_id = 1, node_type_id = ''source'', implementation_version = 1,
         parameters = fmempty, position = (Fin 0, Fin 0), node_size = None, user_label = None,
         collapsed = False, node_ui_state = fmempty\<rparr> fmempty),
     g_connections = fmupd 7 \<lparr>conn_id = 7, source_node = 1, source_port = ''out'', destination_node = 2,
         destination_port = ''in'', conn_ui_state = fmempty\<rparr> (drop_entering 2 ''in'' fmempty),
     g_groups = fmempty, g_settings = fmempty\<rparr>"

lemma demo_built: "foldM apply_op demo_ops (document_init 5) = Inr demo_document"
  by (simp add: demo_ops_def document_init_def add_node_def node_model_init_def add_connection_def
      require_node_def touch_def demo_document_def)

lemma demo_ok: "doc_ok demo_document"
  by (rule apply_ops_inv [OF demo_built document_init_ok]) (simp add: demo_ops_def)

lemma demo_reconnect:
  "\<exists>d. add_connection 2 ''out'' 2 ''in'' 8 True demo_document = Inr d \<and>
     fmlookup (g_connections d) 7 = None"
  by (simp add: add_connection_def require_node_def demo_document_def touch_def enters_def)

theorem snapshot_wire_roundtrip_witness:
  "snapshot_from_payload (snapshot_to_payload \<lparr>snap_document_id = 5, snap_revision = 3, snap_nodes = [],
     snap_connections = [\<lparr>conn_id = 7, source_node = 1, source_port = ''out'', destination_node = 2,
         destination_port = ''in'', conn_ui_state = fmempty\<rparr>], snap_settings = fmempty, snap_groups = []\<rparr>) =
   Inr \<lparr>snap_document_id = 5, snap_revision = 3, snap_nodes = [],
     snap_connections = [\<lparr>conn_id = 7, source_node = 1, source_port = ''out'', destination_node = 2,
         destination_port = ''in'', conn_ui_state = fmempty\<rparr>], snap_settings = fmempty, snap_groups = []\<rparr>"
  using snapshot_wire_roundtrip [of "\<lparr>snap_document_id = 5, snap_revision = 3, snap_nodes = [],
     snap_connections = [\<lparr>conn_id = 7, source_node = 1, source_port = ''out'', destination_node = 2,
         destination_port = ''in'', conn_ui_state = fmempty\<rparr>], snap_settings = fmempty, snap_groups = []\<rparr>"]
  by (simp add: snapshot_constructed_def)


theorem inputs_stay_single_witness:
  "\<exists>d. apply_op (AddConnection 2 ''out'' 2 ''in'' 8 True) demo_document = Inr d \<and> single_inputs d"
proof -
  let ?c = "\<lparr>conn_id = 7, source_node = 1, source_port = ''out'', destination_node = 2,
    destination_port = ''in'', conn_ui_state = fmempty\<rparr>"
  have empty: "single_map fmempty" by (simp add: single_map_def)
  have "single_inputs demo_document"
    unfolding single_inputs_map demo_document_def graph_document.select_convs
    using single_map_replace [OF empty, of 7 ?c] by simp
  moreover obtain d where "apply_op (AddConnection 2 ''out'' 2 ''in'' 8 True) demo_document = Inr d"
    using demo_reconnect by auto
  moreover have "op_replaces (AddConnection 2 ''out'' 2 ''in'' 8 True) demo_document" by simp
  ultimately show ?thesis using inputs_stay_single by blast
qed

theorem remove_node_exact_witness:
  "\<exists>d. remove_node 1 demo_document = Inr d \<and> incident_connections d {1} = []"
proof -
  have "\<exists>d. remove_node 1 demo_document = Inr d"
    by (simp add: remove_node_def demo_document_def)
  then show ?thesis using remove_node_exact [of 1 demo_document] by blast
qed

theorem snapshot_restores_document_witness:
  "bind_res (doc_snapshot demo_document) document_from_snapshot = Inr demo_document"
  by (rule snapshot_restores_document [OF demo_ok])

theorem add_connection_occupies_input_witness:
  "\<exists>d c. add_connection 2 ''out'' 2 ''in'' 8 True demo_document = Inr d \<and>
     incoming_connection d 2 ''in'' = Some c \<and> conn_id c = 8"
proof -
  obtain d where d: "add_connection 2 ''out'' 2 ''in'' 8 True demo_document = Inr d"
    using demo_reconnect by blast
  from conjunct1 [OF add_connection_occupies_input [OF d demo_ok]] d show ?thesis by metis
qed

end
