(* ===== verification/Topology.thy ===== *)
theory Topology
  imports GraphModel
begin

text \<open>
  The two graph traversals of the compiler (\<^verbatim>\<open>graph/compiler.py\<close>):
  \<open>_topological_order\<close>, Kahn's algorithm with a sorted ready list, and
  \<open>_upstream_reachable\<close>, the backward search from the demand roots. The order is
  characterised step by step (each position holds the least node whose predecessors all stand
  before it), so it does not depend on the order of the connections; what is left out is exactly
  what a cycle reaches.
\<close>

section \<open>The order\<close>

type_synonym counts = "(uuid, int) fmap"

text \<open>
  The dictionary \<open>outgoing\<close> of sets is the set of its pairs; parallel connections count once.
\<close>

fun count_edges :: "connection_model list \<Rightarrow> (uuid \<times> uuid) set \<Rightarrow> counts \<Rightarrow> ((uuid \<times> uuid) set \<times> counts) res" where
  "count_edges [] outgoing m = Inr (outgoing, m)"
| "count_edges (c # cs) outgoing m =
     (let e = (source_node c, destination_node c) in
      if e \<in> outgoing then count_edges cs outgoing m
      else case fmlookup m (destination_node c) of
          None \<Rightarrow> Inl (KeyError (Msg ''{}'' [ArgId (destination_node c)]))
        | Some k \<Rightarrow> count_edges cs (insert e outgoing) (fmupd (destination_node c) (k + 1) m))"

fun release :: "uuid list \<Rightarrow> uuid list \<Rightarrow> counts \<Rightarrow> (uuid list \<times> counts) res" where
  "release [] ready m = Inr (ready, m)"
| "release (d # ds) ready m =
     (case fmlookup m d of
        None \<Rightarrow> Inl (KeyError (Msg ''{}'' [ArgId d]))
      | Some k \<Rightarrow>
          release ds (if k - 1 = 0 then sort (ready @ [d]) else ready) (fmupd d (k - 1) m))"

definition waiting :: "counts \<Rightarrow> uuid set" where
  "waiting m = {n. \<exists>k. fmlookup m n = Some k \<and> 0 < k}"

lemma finite_waiting [simp]: "finite (waiting m)"
  by (rule finite_subset [of _ "fset (fmdom m)"]) (auto simp: waiting_def fmlookup_dom_iff)

lemma release_waiting:
  "release ds ready m = Inr (ready', m') \<Longrightarrow>
   length ready' + card (waiting m') \<le> length ready + card (waiting m)"
proof (induction ds arbitrary: ready m)
  case (Cons d ds)
  from Cons.prems obtain k where k: "fmlookup m d = Some k"
    and r: "release ds (if k - 1 = 0 then sort (ready @ [d]) else ready) (fmupd d (k - 1) m) = Inr (ready', m')"
    by (auto split: option.splits)
  have "length (if k - 1 = 0 then sort (ready @ [d]) else ready) + card (waiting (fmupd d (k - 1) m))
      \<le> length ready + card (waiting m)"
  proof (cases "k = 1")
    case True
    then have "d \<in> waiting m" "waiting (fmupd d (k - 1) m) = waiting m - {d}"
      using k by (auto simp: waiting_def)
    moreover have "Suc (card (waiting m - {d})) = card (waiting m)"
      by (rule card_Suc_Diff1) (use calculation in simp_all)
    ultimately show ?thesis using True by simp
  next
    case False
    then have "waiting (fmupd d (k - 1) m) \<subseteq> waiting m"
      using k by (auto simp: waiting_def split: if_splits)
    then have "card (waiting (fmupd d (k - 1) m)) \<le> card (waiting m)" by (simp add: card_mono)
    with False show ?thesis by simp
  qed
  with Cons.IH [OF r] show ?case by linarith
qed simp

function kahn :: "(uuid \<times> uuid) set \<Rightarrow> uuid list \<Rightarrow> counts \<Rightarrow> uuid list \<Rightarrow> (uuid list \<times> counts) res" where
  "kahn outgoing ready m order =
     (case ready of
        [] \<Rightarrow> Inr (order, m)
      | n # rest \<Rightarrow>
          (case release (sorted_list_of_set (outgoing `` {n})) rest m of
             Inl e \<Rightarrow> Inl e
           | Inr (ready', m') \<Rightarrow> kahn outgoing ready' m' (order @ [n])))"
  by pat_completeness auto
termination
  by (relation "measure (\<lambda>(outgoing, ready, m, order). length ready + card (waiting m))")
     (auto dest!: release_waiting)

declare kahn.simps [simp del]

text \<open>The nodes with no predecessor, and the nodes left with some, are enumerated in text order.\<close>

definition nodes_with :: "(int \<Rightarrow> bool) \<Rightarrow> counts \<Rightarrow> uuid list" where
  "nodes_with P m = map fst (filter (\<lambda>(n, k). P k) (sorted_list_of_fmap m))"

definition zero_counts :: "uuid fset \<Rightarrow> counts" where
  "zero_counts nodes = fmap_of_list (map (\<lambda>n. (n, 0)) (sorted_list_of_fset nodes))"

text \<open>The order, and the nodes reported with \<open>graph_cycle\<close>.\<close>

definition topological_order :: "uuid fset \<Rightarrow> connection_model list \<Rightarrow> (uuid list \<times> uuid list) res" where
  "topological_order nodes cs =
     bind_res (count_edges cs {} (zero_counts nodes)) (\<lambda>(outgoing, m).
     bind_res (kahn outgoing (nodes_with (\<lambda>k. k = 0) m) m []) (\<lambda>(order, m).
       Inr (order, if length order \<noteq> fcard nodes then nodes_with (\<lambda>k. 0 < k) m else [])))"

text \<open>
  The backward search. \<open>pending\<close> is a stack; the order in which Python enumerates a set is
  not specified, the model takes the text order.
\<close>

definition predecessors :: "connection_model list \<Rightarrow> uuid \<Rightarrow> uuid set" where
  "predecessors cs n = set (map source_node (filter (\<lambda>c. destination_node c = n) cs))"

fun visit :: "uuid list \<Rightarrow> uuid set \<times> uuid list \<Rightarrow> uuid set \<times> uuid list" where
  "visit [] st = st"
| "visit (p # ps) (reachable, pending) =
     visit ps (if p \<in> reachable then (reachable, pending) else (insert p reachable, pending @ [p]))"

lemma visit_result:
  "visit ps (reachable, pending) = (reachable', pending') \<Longrightarrow>
   reachable' = reachable \<union> set ps \<and> set pending' = set pending \<union> (set ps - reachable) \<and>
   (set ps \<subseteq> reachable \<longrightarrow> pending' = pending)"
  by (induction ps arbitrary: reachable pending) (force split: if_splits)+

function search :: "connection_model list \<Rightarrow> uuid set \<Rightarrow> uuid list \<Rightarrow> uuid set" where
  "search cs reachable pending =
     (if pending = [] then reachable
      else case visit (sorted_list_of_set (predecessors cs (last pending))) (reachable, butlast pending) of
          (reachable', pending') \<Rightarrow> search cs reachable' pending')"
  by pat_completeness auto
termination
proof (relation "measures [\<lambda>(cs, reachable, pending). card (set (map source_node cs) - reachable),
      \<lambda>(cs, reachable, pending). length pending]", simp, goal_cases)
  case (1 cs reachable pending r' p')
  let ?ps = "predecessors cs (last pending)"
  have ps: "?ps \<subseteq> set (map source_node cs)" by (auto simp: predecessors_def)
  have fin: "finite ?ps" by (simp add: predecessors_def)
  from visit_result [OF 1(2) [symmetric]] fin have r: "r' = reachable \<union> ?ps"
    and p: "?ps \<subseteq> reachable \<Longrightarrow> p' = butlast pending"
    by simp_all
  show ?case
  proof (cases "?ps \<subseteq> reachable")
    case True
    then have "r' = reachable" "p' = butlast pending" using r p by auto
    with 1(1) show ?thesis by simp
  next
    case False
    then have "set (map source_node cs) - r' \<subset> set (map source_node cs) - reachable"
      using r ps by blast
    then have "card (set (map source_node cs) - r') < card (set (map source_node cs) - reachable)"
      by (rule psubset_card_mono [rotated]) simp
    then show ?thesis by simp
  qed
qed

declare search.simps [simp del]

definition upstream_reachable :: "uuid set \<Rightarrow> connection_model list \<Rightarrow> uuid set" where
  "upstream_reachable roots cs = search cs roots (sorted_list_of_set roots)"

section \<open>The search finds the ancestors\<close>

definition edges :: "connection_model list \<Rightarrow> (uuid \<times> uuid) set" where
  "edges cs = set (map (\<lambda>c. (source_node c, destination_node c)) cs)"

lemma finite_edges [simp]: "finite (edges cs)"
  by (simp add: edges_def)

lemma predecessors_edges: "predecessors cs n = {s. (s, n) \<in> edges cs}"
  by (auto simp: predecessors_def edges_def)

lemma search_sound:
  assumes "finite reachable" and "set pending \<subseteq> reachable"
    and "\<forall>n \<in> reachable - set pending. predecessors cs n \<subseteq> reachable"
  shows "search cs reachable pending = ((edges cs)\<inverse>)\<^sup>* `` reachable"
  using assms
proof (induction cs reachable pending rule: search.induct)
  case (1 cs reachable pending)
  show ?case
  proof (cases "pending = []")
    case True
    have "n \<in> reachable" if "(r, n) \<in> ((edges cs)\<inverse>)\<^sup>*" "r \<in> reachable" for r n
      using that by (induction rule: rtrancl_induct) (use 1(4) True predecessors_edges in auto)
    then have "((edges cs)\<inverse>)\<^sup>* `` reachable = reachable" by blast
    with True show ?thesis by (simp add: search.simps [of cs reachable "[]"])
  next
    case False
    let ?ps = "predecessors cs (last pending)"
    obtain r' p' where v: "visit (sorted_list_of_set ?ps) (reachable, butlast pending) = (r', p')"
      by (metis surj_pair)
    have fin: "finite ?ps" by (simp add: predecessors_def)
    from visit_result [OF v] fin have r: "r' = reachable \<union> ?ps"
      and p: "set p' = set (butlast pending) \<union> (?ps - reachable)" by simp_all
    have pend: "set pending = insert (last pending) (set (butlast pending))"
      using False by (metis append_butlast_last_id list.simps(15) set_append Un_insert_right sup_bot.right_neutral set_empty list.set(1))
    have "search cs r' p' = ((edges cs)\<inverse>)\<^sup>* `` r'"
    proof (rule 1(1) [OF False, of r' p'])
      show "(r', p') = visit (sorted_list_of_set ?ps) (reachable, butlast pending)" by (simp add: v)
      show "finite r'" using 1(2) fin r by simp
      show "set p' \<subseteq> r'" using p r 1(3) pend by auto
      show "\<forall>n \<in> r' - set p'. predecessors cs n \<subseteq> r'" using p r 1(4) pend by auto
    qed
    moreover have "((edges cs)\<inverse>)\<^sup>* `` r' = ((edges cs)\<inverse>)\<^sup>* `` reachable"
    proof -
      have "n \<in> ((edges cs)\<inverse>)\<^sup>* `` reachable" if "p \<in> ?ps" "(p, n) \<in> ((edges cs)\<inverse>)\<^sup>*" for p n
      proof -
        have "(last pending, p) \<in> (edges cs)\<inverse>" using that(1) by (simp add: predecessors_edges)
        then have "(last pending, n) \<in> ((edges cs)\<inverse>)\<^sup>*" using that(2) by (rule converse_rtrancl_into_rtrancl)
        moreover have "last pending \<in> reachable" using False 1(3) by auto
        ultimately show ?thesis by blast
      qed
      then show ?thesis unfolding r by blast
    qed
    ultimately show ?thesis using False v by (simp add: search.simps [of cs reachable pending])
  qed
qed

lemma upstream_reachable_ancestors:
  assumes "finite roots"
  shows "upstream_reachable roots cs = {n. \<exists>r \<in> roots. (n, r) \<in> (edges cs)\<^sup>*}"
proof -
  have "upstream_reachable roots cs = ((edges cs)\<inverse>)\<^sup>* `` roots"
    unfolding upstream_reachable_def by (rule search_sound) (use assms in simp_all)
  then show ?thesis by (auto simp: rtrancl_converse)
qed

section \<open>The order is the greedy order\<close>

text \<open>The nodes that can come next when the nodes of \<open>P\<close> are placed.\<close>

definition available :: "(uuid \<times> uuid) set \<Rightarrow> uuid set \<Rightarrow> uuid set \<Rightarrow> uuid set" where
  "available E N P = {n \<in> N - P. \<forall>s. (s, n) \<in> E \<longrightarrow> s \<in> P}"

definition greedy :: "(uuid \<times> uuid) set \<Rightarrow> uuid set \<Rightarrow> uuid list \<Rightarrow> bool" where
  "greedy E N xs \<longleftrightarrow> (\<forall>i < length xs. xs ! i \<in> available E N (set (take i xs)) \<and>
     (\<forall>y \<in> available E N (set (take i xs)). xs ! i \<le> y))"

lemma greedy_snoc:
  "greedy E N xs \<Longrightarrow> n \<in> available E N (set xs) \<Longrightarrow> \<forall>y \<in> available E N (set xs). n \<le> y \<Longrightarrow>
   greedy E N (xs @ [n])"
  by (auto simp: greedy_def nth_append less_Suc_eq)

lemma greedy_position:
  assumes "greedy E N xs" and "j < length xs" and "(s, xs ! j) \<in> E"
  shows "\<exists>i < j. xs ! i = s"
proof -
  have "s \<in> set (take j xs)" using assms by (simp add: greedy_def available_def)
  with assms(2) show ?thesis by (auto simp: in_set_conv_nth)
qed

lemma greedy_closed: "greedy E N xs \<Longrightarrow> x \<in> set xs \<Longrightarrow> (s, x) \<in> E \<Longrightarrow> s \<in> set xs"
proof -
  assume g: "greedy E N xs" and x: "x \<in> set xs" and e: "(s, x) \<in> E"
  from x obtain j where j: "j < length xs" "xs ! j = x" by (auto simp: in_set_conv_nth)
  with greedy_position [OF g j(1)] e obtain i where "i < j" "xs ! i = s" by blast
  with j(1) show "s \<in> set xs" by auto
qed

definition open_count :: "(uuid \<times> uuid) set \<Rightarrow> uuid set \<Rightarrow> uuid \<Rightarrow> int" where
  "open_count E P n = int (card {s. (s, n) \<in> E \<and> s \<notin> P})"

lemma finite_preds: "finite E \<Longrightarrow> finite {s. (s, n) \<in> E \<and> s \<notin> P}"
  by (rule finite_subset [of _ "fst ` E"]) (auto intro: rev_image_eqI)

lemma open_count_insert:
  assumes "finite E" and "p \<notin> P"
  shows "open_count E (insert p P) n = open_count E P n - (if (p, n) \<in> E then 1 else 0)"
proof (cases "(p, n) \<in> E")
  case True
  have "{s. (s, n) \<in> E \<and> s \<notin> insert p P} = {s. (s, n) \<in> E \<and> s \<notin> P} - {p}" by blast
  moreover have "Suc (card ({s. (s, n) \<in> E \<and> s \<notin> P} - {p})) = card {s. (s, n) \<in> E \<and> s \<notin> P}"
    by (rule card_Suc_Diff1) (use True assms(2) finite_preds [OF assms(1)] in simp_all)
  ultimately show ?thesis using True by (simp add: open_count_def)
next
  case False
  then have "{s. (s, n) \<in> E \<and> s \<notin> insert p P} = {s. (s, n) \<in> E \<and> s \<notin> P}" by blast
  with False show ?thesis by (simp add: open_count_def)
qed

lemma open_count_zero: "finite E \<Longrightarrow> open_count E P n = 0 \<longleftrightarrow> (\<forall>s. (s, n) \<in> E \<longrightarrow> s \<in> P)"
  using finite_preds [of E n P] by (auto simp: open_count_def)

lemma available_count: "finite E \<Longrightarrow> available E N P = {n \<in> N - P. open_count E P n = 0}"
  by (simp add: available_def open_count_zero)

definition kahn_inv :: "(uuid \<times> uuid) set \<Rightarrow> uuid set \<Rightarrow> uuid list \<Rightarrow> uuid list \<Rightarrow> counts \<Rightarrow> bool" where
  "kahn_inv E N order ready m \<longleftrightarrow>
     sorted ready \<and> distinct ready \<and> set ready = available E N (set order) \<and>
     distinct order \<and> set order \<subseteq> N \<and> greedy E N order \<and>
     (\<forall>n. fmlookup m n = (if n \<in> N then Some (open_count E (set order) n) else None))"

lemma release_ok:
  assumes "distinct ds" and "set ds \<subseteq> fset (fmdom m)" and "sorted ready" and "distinct ready"
    and "set ds \<inter> set ready = {}"
  shows "\<exists>r' m'. release ds ready m = Inr (r', m') \<and> sorted r' \<and> distinct r' \<and>
    set r' = set ready \<union> {d \<in> set ds. fmlookup m d = Some 1} \<and>
    (\<forall>x. fmlookup m' x = (if x \<in> set ds then map_option (\<lambda>k. k - 1) (fmlookup m x) else fmlookup m x))"
  using assms
proof (induction ds arbitrary: ready m)
  case (Cons d ds)
  from Cons.prems(2) obtain k where k: "fmlookup m d = Some k" by (auto simp: fmlookup_dom_iff)
  let ?r = "if k - 1 = 0 then sort (ready @ [d]) else ready" and ?m = "fmupd d (k - 1) m"
  have "distinct ds" "set ds \<subseteq> fset (fmdom ?m)" "sorted ?r" "distinct ?r" "set ds \<inter> set ?r = {}"
    using Cons.prems by auto
  from Cons.IH [OF this] obtain r' m' where
    r: "release ds ?r ?m = Inr (r', m')" "sorted r'" "distinct r'"
      "set r' = set ?r \<union> {x \<in> set ds. fmlookup ?m x = Some 1}"
    and m: "\<forall>x. fmlookup m' x = (if x \<in> set ds then map_option (\<lambda>k. k - 1) (fmlookup ?m x) else fmlookup ?m x)"
    by blast
  have "set r' = set ready \<union> {x \<in> set (d # ds). fmlookup m x = Some 1}"
  proof -
    have "d \<notin> set ds" using Cons.prems(1) by simp
    then have "{x \<in> set ds. fmlookup ?m x = Some 1} = {x \<in> set ds. fmlookup m x = Some 1}"
      by (intro Collect_cong) auto
    then have "set r' = set ?r \<union> {x \<in> set ds. fmlookup m x = Some 1}" by (simp only: r(4))
    moreover have "set ?r = set ready \<union> (if fmlookup m d = Some 1 then {d} else {})" using k by simp
    ultimately show ?thesis by (auto split: if_splits)
  qed
  moreover have "\<forall>x. fmlookup m' x = (if x \<in> set (d # ds) then map_option (\<lambda>k. k - 1) (fmlookup m x) else fmlookup m x)"
  proof
    fix x
    show "fmlookup m' x = (if x \<in> set (d # ds) then map_option (\<lambda>k. k - 1) (fmlookup m x) else fmlookup m x)"
    proof (cases "x = d")
      case True
      then have "x \<notin> set ds" using Cons.prems(1) by simp
      with spec [OF m, of x] True k show ?thesis by simp
    next
      case False
      with spec [OF m, of x] show ?thesis by simp
    qed
  qed
  moreover have "release (d # ds) ready m = Inr (r', m')" using k r(1) by simp
  ultimately show ?case using r(2,3) by blast
qed auto

lemma kahn_step:
  assumes inv: "kahn_inv E N order (n # rest) m" and E: "finite E" "E \<subseteq> N \<times> N"
  shows "\<exists>r' m'. release (sorted_list_of_set (E `` {n})) rest m = Inr (r', m') \<and>
    kahn_inv E N (order @ [n]) r' m'"
proof -
  let ?D = "E `` {n}" and ?P = "set order"
  from inv have s: "sorted (n # rest)" "distinct (n # rest)" "set (n # rest) = available E N ?P"
    and o: "distinct order" "?P \<subseteq> N" "greedy E N order"
    and m: "\<And>x. fmlookup m x = (if x \<in> N then Some (open_count E ?P x) else None)"
    by (simp_all add: kahn_inv_def)
  have n: "n \<in> available E N ?P" "\<forall>y \<in> available E N ?P. n \<le> y" "n \<notin> ?P" "n \<in> N"
    using s by (auto simp: available_def)
  have finD: "finite ?D" by (rule finite_subset [OF _ finite_imageI [OF E(1), of snd]]) force
  have dom: "set (sorted_list_of_set ?D) \<subseteq> fset (fmdom m)"
    using E(2) finD by (auto simp: fmlookup_dom_iff m)
  have disj: "set (sorted_list_of_set ?D) \<inter> set rest = {}"
    using finD n(3) s(3) by (auto simp: available_def)
  from release_ok [OF _ dom _ _ disj] s obtain r' m' where
    r: "release (sorted_list_of_set ?D) rest m = Inr (r', m')" "sorted r'" "distinct r'"
      "set r' = set rest \<union> {d \<in> ?D. fmlookup m d = Some 1}"
    and m': "\<forall>x. fmlookup m' x = (if x \<in> ?D then map_option (\<lambda>k. k - 1) (fmlookup m x) else fmlookup m x)"
    using finD by auto
  have count: "open_count E (insert n ?P) x = open_count E ?P x - (if (n, x) \<in> E then 1 else 0)" for x
    by (rule open_count_insert [OF E(1) n(3)])
  have m'': "fmlookup m' x = (if x \<in> N then Some (open_count E (insert n ?P) x) else None)" for x
    using m' E(2) by (auto simp: m count)
  have rest: "set rest = available E N ?P - {n}" using s(2) s(3) [symmetric] by auto
  have "(n, n) \<notin> E" using n by (auto simp: available_def)
  have closed: "(n, x) \<notin> E" if "x \<in> ?P" for x using greedy_closed [OF o(3) that] n(3) by blast
  have zero: "(n, x) \<notin> E" if "open_count E ?P x = 0" for x
    using that n(3) by (auto simp: open_count_zero [OF E(1)])
  have "x \<in> set r' \<longleftrightarrow> x \<in> available E N (insert n ?P)" for x
    using E(2) n(3) closed [of x] zero [of x] \<open>(n, n) \<notin> E\<close>
    by (cases "(n, x) \<in> E") (auto simp: r(4) rest available_count [OF E(1)] m count)
  then have "set r' = available E N (insert n ?P)" by blast
  moreover have "greedy E N (order @ [n])" using greedy_snoc [OF o(3) n(1,2)] .
  ultimately have "kahn_inv E N (order @ [n]) r' m'"
    using r(2,3) o n m'' by (simp add: kahn_inv_def)
  with r(1) show ?thesis by blast
qed

lemma kahn_ok:
  assumes "kahn_inv E N order ready m" and "finite E" and "E \<subseteq> N \<times> N"
  shows "\<exists>order' m'. kahn E ready m order = Inr (order', m') \<and> kahn_inv E N order' [] m'"
  using assms
proof (induction E ready m order rule: kahn.induct)
  case (1 E ready m order)
  show ?case
  proof (cases ready)
    case Nil
    with 1 show ?thesis by (simp add: kahn.simps)
  next
    case (Cons n rest)
    from kahn_step [OF 1(2) [unfolded Cons] 1(3,4)] obtain r' m' where
      r: "release (sorted_list_of_set (E `` {n})) rest m = Inr (r', m')" "kahn_inv E N (order @ [n]) r' m'"
      by blast
    from 1(1) [OF Cons r(1) refl r(2) 1(3,4)] r(1) Cons show ?thesis
      by (simp add: kahn.simps [of E "n # rest"])
  qed
qed

lemma count_edges_ok:
  assumes "\<And>c. c \<in> set cs \<Longrightarrow> destination_node c \<in> N" and "finite outgoing"
    and "\<And>n. fmlookup m n = (if n \<in> N then Some (open_count outgoing {} n) else None)"
  shows "\<exists>m'. count_edges cs outgoing m = Inr (outgoing \<union> edges cs, m') \<and>
    (\<forall>n. fmlookup m' n = (if n \<in> N then Some (open_count (outgoing \<union> edges cs) {} n) else None))"
  using assms
proof (induction cs arbitrary: outgoing m)
  case Nil
  then show ?case by (simp add: edges_def)
next
  case (Cons c cs)
  let ?s = "source_node c" and ?d = "destination_node c"
  have d: "?d \<in> N" and rest: "\<And>c. c \<in> set cs \<Longrightarrow> destination_node c \<in> N" using Cons.prems(1) by simp_all
  show ?case
  proof (cases "(?s, ?d) \<in> outgoing")
    case True
    then have "outgoing \<union> edges (c # cs) = outgoing \<union> edges cs"
      and "count_edges (c # cs) outgoing m = count_edges cs outgoing m" by (auto simp: edges_def)
    with Cons.IH [OF rest Cons.prems(2,3)] show ?thesis by (simp only:)
  next
    case False
    let ?o = "insert (?s, ?d) outgoing" and ?m = "fmupd ?d (open_count outgoing {} ?d + 1) m"
    have more: "open_count ?o {} n = open_count outgoing {} n + (if n = ?d then 1 else 0)" for n
    proof (cases "n = ?d")
      case True
      have "{s. (s, ?d) \<in> ?o \<and> s \<notin> {}} = insert ?s {s. (s, ?d) \<in> outgoing \<and> s \<notin> {}}" by auto
      with True False finite_preds [OF Cons.prems(2), of ?d "{}"] show ?thesis
        by (simp add: open_count_def)
    qed (auto simp: open_count_def)
    have m: "fmlookup ?m n = (if n \<in> N then Some (open_count ?o {} n) else None)" for n
      using d by (auto simp: more Cons.prems(3))
    have fin: "finite ?o" using Cons.prems(2) by simp
    have "?o \<union> edges cs = outgoing \<union> edges (c # cs)" by (auto simp: edges_def)
    moreover have "count_edges (c # cs) outgoing m = count_edges cs ?o ?m"
      using False d by (simp add: Cons.prems(3))
    ultimately show ?thesis using Cons.IH [OF rest fin m] by (simp only:)
  qed
qed

lemma lookup_zero_counts: "fmlookup (zero_counts nodes) n = (if n \<in> fset nodes then Some 0 else None)"
  by (simp add: zero_counts_def fmlookup_of_list map_of_map_restrict restrict_map_def sorted_list_of_fset.rep_eq
      flip: comp_def)

lemma set_nodes_with: "set (nodes_with P m) = {n. \<exists>k. fmlookup m n = Some k \<and> P k}"
  by (auto simp: nodes_with_def sorted_list_of_fmap_iff image_iff)

lemma sorted_nodes_with: "sorted (nodes_with P m) \<and> distinct (nodes_with P m)"
  unfolding nodes_with_def
  using distinct_sorted_list_of_fmap [of m] sorted_sorted_list_of_fmap [of m]
  by (simp add: distinct_map_filter sorted_filter)

definition cycle_reaches :: "(uuid \<times> uuid) set \<Rightarrow> uuid \<Rightarrow> bool" where
  "cycle_reaches E n \<longleftrightarrow> (\<exists>c. (c, c) \<in> E\<^sup>+ \<and> (c, n) \<in> E\<^sup>*)"

lemma greedy_trancl:
  assumes "(a, b) \<in> E\<^sup>+" and "greedy E N xs" and "j < length xs" and "b = xs ! j"
  shows "\<exists>i < j. xs ! i = a"
  using assms
proof (induction arbitrary: j rule: trancl_induct)
  case (base b)
  then show ?case using greedy_position by blast
next
  case (step y z)
  then obtain k where "k < j" "xs ! k = y" using greedy_position by blast
  with step.IH [of k] step.prems show ?case by (meson less_trans)
qed

lemma greedy_no_cycle:
  assumes "greedy E N xs" and "distinct xs" and "n \<in> set xs"
  shows "\<not> cycle_reaches E n"
proof
  assume "cycle_reaches E n"
  then obtain c where c: "(c, c) \<in> E\<^sup>+" "(c, n) \<in> E\<^sup>*" by (auto simp: cycle_reaches_def)
  from c(2) assms(3) have "c \<in> set xs"
    by (induction rule: converse_rtrancl_induct) (auto dest: greedy_closed [OF assms(1)])
  then obtain j where j: "j < length xs" "c = xs ! j" by (auto simp: in_set_conv_nth)
  from greedy_trancl [OF c(1) assms(1) j] obtain i where "i < j" "xs ! i = c" by blast
  with j assms(2) show False by (simp add: nth_eq_iff_index_eq)
qed

lemma unplaced_from_cycle:
  assumes "finite E" and "E \<subseteq> N \<times> N" and "available E N P = {}" and "n \<in> N - P"
  shows "cycle_reaches E n"
proof (rule ccontr)
  assume no: "\<not> cycle_reaches E n"
  define A where "A = {a \<in> N - P. (a, n) \<in> E\<^sup>*}"
  define F where "F = E \<inter> A \<times> A"
  have "acyclic F"
    unfolding acyclic_def
  proof (intro allI notI)
    fix c assume c: "(c, c) \<in> F\<^sup>+"
    then have "(c, c) \<in> E\<^sup>+" using trancl_mono [of "(c, c)" F E] by (auto simp: F_def)
    moreover have "c \<in> A" using c by (induction rule: trancl_induct) (auto simp: F_def)
    ultimately show False using no by (auto simp: cycle_reaches_def A_def)
  qed
  moreover have "finite F" using assms(1) by (simp add: F_def)
  ultimately have wf: "wf F" by (simp add: finite_acyclic_wf)
  have "n \<in> A" using assms(4) by (simp add: A_def)
  with wf obtain z where z: "z \<in> A" "\<And>y. (y, z) \<in> F \<Longrightarrow> y \<notin> A" by (meson wfE_min)
  then have "z \<notin> available E N P" "z \<in> N - P" using assms(3) by (auto simp: A_def)
  then obtain y where y: "(y, z) \<in> E" "y \<notin> P" by (auto simp: available_def)
  have "(z, n) \<in> E\<^sup>*" using z(1) by (simp add: A_def)
  with y(1) have "(y, n) \<in> E\<^sup>*" by (rule converse_rtrancl_into_rtrancl)
  moreover have "y \<in> N - P" using assms(2) y by blast
  ultimately have "y \<in> A" by (simp add: A_def)
  moreover from this have "(y, z) \<in> F" using y(1) z(1) by (simp add: F_def)
  ultimately show False using z(2) by blast
qed

text \<open>
  What the traversal returns when the connections join nodes of the graph: the order places the
  least available node at every step until none is available, and what it leaves out, reported
  in text order, is exactly what some cycle reaches.
\<close>

lemma topological_order_ok:
  assumes "\<And>c. c \<in> set cs \<Longrightarrow> source_node c |\<in>| nodes \<and> destination_node c |\<in>| nodes"
  shows "\<exists>order cyc. topological_order nodes cs = Inr (order, cyc) \<and>
    distinct order \<and> greedy (edges cs) (fset nodes) order \<and>
    available (edges cs) (fset nodes) (set order) = {} \<and> set order \<subseteq> fset nodes \<and>
    sorted cyc \<and> distinct cyc \<and> set cyc = fset nodes - set order \<and>
    set cyc = {n \<in> fset nodes. cycle_reaches (edges cs) n}"
proof -
  let ?E = "edges cs" and ?N = "fset nodes"
  have E: "finite ?E" "?E \<subseteq> ?N \<times> ?N" using assms by (auto simp: edges_def)
  have z: "fmlookup (zero_counts nodes) n = (if n \<in> ?N then Some (open_count {} {} n) else None)" for n
    by (simp add: lookup_zero_counts open_count_def)
  have "\<And>c. c \<in> set cs \<Longrightarrow> destination_node c \<in> ?N" using assms by blast
  from count_edges_ok [OF this finite.emptyI z, of cs] obtain m where
    count: "count_edges cs {} (zero_counts nodes) = Inr ({} \<union> ?E, m)"
      "\<forall>n. fmlookup m n = (if n \<in> ?N then Some (open_count ({} \<union> ?E) {} n) else None)" by blast
  then have m: "count_edges cs {} (zero_counts nodes) = Inr (?E, m)"
      "fmlookup m n = (if n \<in> ?N then Some (open_count ?E {} n) else None)" for n
    by (simp_all only: Un_empty_left)
  have "set (nodes_with (\<lambda>k. k = 0) m) = available ?E ?N {}"
    by (auto simp: set_nodes_with m(2) available_count [OF E(1)] split: if_splits)
  then have "kahn_inv ?E ?N [] (nodes_with (\<lambda>k. k = 0) m) m"
    using m(2) sorted_nodes_with [of "\<lambda>k. k = 0" m] by (simp add: kahn_inv_def greedy_def)
  from kahn_ok [OF this E] obtain order m' where
    k: "kahn ?E (nodes_with (\<lambda>k. k = 0) m) m [] = Inr (order, m')" "kahn_inv ?E ?N order [] m'" by blast
  let ?cyc = "if length order \<noteq> fcard nodes then nodes_with (\<lambda>k. 0 < k) m' else []"
  have o: "distinct order" "greedy ?E ?N order" "available ?E ?N (set order) = {}" "set order \<subseteq> ?N"
    and m': "\<And>n. fmlookup m' n = (if n \<in> ?N then Some (open_count ?E (set order) n) else None)"
    using k(2) by (simp_all add: kahn_inv_def)
  have "open_count ?E (set order) n = 0" if "n \<in> set order" for n
    using greedy_closed [OF o(2) that] by (simp add: open_count_zero [OF E(1)])
  moreover have "open_count ?E (set order) n \<noteq> 0" if "n \<in> ?N - set order" for n
    using o(3) that by (auto simp: available_count [OF E(1)])
  moreover have "0 \<le> open_count ?E (set order) n" for n by (simp add: open_count_def)
  ultimately have w: "set (nodes_with (\<lambda>k. 0 < k) m') = ?N - set order"
    by (force simp: set_nodes_with m' order_less_le split: if_splits)
  have len: "length order = fcard nodes \<longleftrightarrow> set order = ?N"
    using distinct_card [OF o(1)] card_subset_eq [OF finite_fset o(4)] by (auto simp: fcard.rep_eq)
  have c: "set ?cyc = ?N - set order" using w len by auto
  moreover have "?N - set order = {n \<in> ?N. cycle_reaches ?E n}"
    using unplaced_from_cycle [OF E o(3)] greedy_no_cycle [OF o(2,1)] by blast
  moreover have "topological_order nodes cs = Inr (order, ?cyc)"
    by (simp add: topological_order_def m(1) k(1))
  moreover have "sorted ?cyc" "distinct ?cyc" using sorted_nodes_with by simp_all
  ultimately show ?thesis using o by (intro exI [of _ order] exI [of _ ?cyc]) simp
qed

text \<open>
  C11. The topological order is exact: on connections between known nodes the sort never raises; every
  position of its order holds the least node whose predecessors all stand before it, so that the
  order does not depend on the order of the connections; every connection out of the order points
  forward; and the nodes it reports instead are those a cycle reaches, on the cycle or only behind
  it.
\<close>

theorem topological_order_exact:
  assumes "\<forall>c \<in> set cs. source_node c |\<in>| nodes \<and> destination_node c |\<in>| nodes"
  shows "\<exists>order cyc. topological_order nodes cs = Inr (order, cyc) \<and> distinct order \<and>
    (\<forall>i < length order. order ! i \<in> available (edges cs) (fset nodes) (set (take i order)) \<and>
       (\<forall>y \<in> available (edges cs) (fset nodes) (set (take i order)). order ! i \<le> y)) \<and>
    (\<forall>j < length order. \<forall>s. (s, order ! j) \<in> edges cs \<longrightarrow> (\<exists>i < j. order ! i = s)) \<and>
    set order = {n \<in> fset nodes. \<not> cycle_reaches (edges cs) n} \<and>
    sorted cyc \<and> distinct cyc \<and> set cyc = {n \<in> fset nodes. cycle_reaches (edges cs) n}"
proof -
  from topological_order_ok [OF bspec [OF assms]] obtain order cyc where
    o: "topological_order nodes cs = Inr (order, cyc)" "distinct order" "greedy (edges cs) (fset nodes) order"
      "set order \<subseteq> fset nodes" "sorted cyc" "distinct cyc" "set cyc = fset nodes - set order"
      "set cyc = {n \<in> fset nodes. cycle_reaches (edges cs) n}" by blast
  from o(4,7,8) have "set order = {n \<in> fset nodes. \<not> cycle_reaches (edges cs) n}" by blast
  with o greedy_position [OF o(3)] show ?thesis unfolding greedy_def by blast
qed

definition two_cycle_tail :: "connection_model list" where
  "two_cycle_tail = map (\<lambda>(i, a, b). \<lparr>conn_id = i, source_node = a, source_port = ''o'', destination_node = b,
     destination_port = ''i'', conn_ui_state = fmempty\<rparr>) [(10, 1, 2), (11, 2, 1), (12, 2, 3), (13, 4, 5)]"

theorem topological_order_exact_witness:
  "topological_order {|1, 2, 3, 4, 5|} two_cycle_tail = Inr ([4, 5], [1, 2, 3]) \<and> cycle_reaches (edges two_cycle_tail) 3"
proof -
  have run: "topological_order {|1, 2, 3, 4, 5|} two_cycle_tail = Inr ([4, 5], [1, 2, 3])" by code_simp
  have "\<forall>c \<in> set two_cycle_tail. source_node c |\<in>| {|1, 2, 3, 4, 5|} \<and> destination_node c |\<in>| {|1, 2, 3, 4, 5|}"
    by (simp add: two_cycle_tail_def)
  from topological_order_exact [OF this]
  have "set [1, 2, 3] = {n \<in> fset {|1, 2, 3, 4, 5|}. cycle_reaches (edges two_cycle_tail) n}" unfolding run by blast
  then have "3 \<in> {n \<in> fset {|1, 2, 3, 4, 5|}. cycle_reaches (edges two_cycle_tail) n}" by (metis insertI1 insertCI list.set(2))
  with run show ?thesis by blast
qed

end
