(* ===== verification/NodeBase.thy ===== *)
theory NodeBase
  imports Values
begin

text \<open>
  Node definitions of \<^verbatim>\<open>nodes/base.py\<close>, \<^verbatim>\<open>nodes/registry.py\<close> and
  \<^verbatim>\<open>nodes/migrations.py\<close>: port and parameter specifications, the value ladder that
  validates, sanitises and converts parameter values, the execution contract of a node type, the
  registry, and the migration chain of persisted payloads. The callables a node author attaches
  to a contract (port type resolver, required input resolver, parameter validator) are function
  fields of its record.
\<close>

section \<open>Port types and ports\<close>

text \<open>\<open>PortType | TypeVariable | ArrayTypeVariable\<close>\<close>

datatype type_expr =
    PT port_type
  | TypeVariable string "port_type set" "port_type option"
  | ArrayTypeVariable string "port_type set"

definition type_variable_init :: "string \<Rightarrow> port_type set \<Rightarrow> port_type option \<Rightarrow> type_expr res" where
  "type_variable_init nm allowed dflt =
     (if \<not> variable_name_ok nm then Inl (ValueError (Msg ''Invalid type-variable name: {}'' [ArgStr nm]))
      else case dflt of
          Some t \<Rightarrow>
            if allowed \<noteq> {} \<and> t \<notin> allowed
            then Inl (ValueError (Msg ''Type variable {} default is not among its allowed types'' [ArgStr nm]))
            else Inr (TypeVariable nm allowed dflt)
        | None \<Rightarrow> Inr (TypeVariable nm allowed dflt))"

definition array_type_variable_init :: "string \<Rightarrow> port_type set \<Rightarrow> type_expr res" where
  "array_type_variable_init nm allowed =
     bind_res (type_variable_init nm allowed None) (\<lambda>_. Inr (ArrayTypeVariable nm allowed))"

record input_port_spec =
  ip_id :: string
  ip_label :: string
  ip_type :: type_expr
  ip_required :: bool

definition input_port_init :: "string \<Rightarrow> string \<Rightarrow> type_expr \<Rightarrow> bool \<Rightarrow> input_port_spec res" where
  "input_port_init i lbl t req =
     bind_res (validate_stable_id i ''input port'') (\<lambda>_.
       Inr \<lparr>ip_id = i, ip_label = lbl, ip_type = t, ip_required = req\<rparr>)"

record output_port_spec =
  op_id :: string
  op_label :: string
  op_type :: type_expr

definition output_port_init :: "string \<Rightarrow> string \<Rightarrow> type_expr \<Rightarrow> output_port_spec res" where
  "output_port_init i lbl t =
     bind_res (validate_stable_id i ''output port'') (\<lambda>_. Inr \<lparr>op_id = i, op_label = lbl, op_type = t\<rparr>)"

record variadic_input_spec =
  id_prefix :: string
  va_label :: string
  va_type :: type_expr
  minimum_count :: nat

definition variadic_input_init :: "string \<Rightarrow> string \<Rightarrow> type_expr \<Rightarrow> nat \<Rightarrow> variadic_input_spec res" where
  "variadic_input_init p lbl t m =
     bind_res (validate_stable_id p ''variadic input prefix'') (\<lambda>_.
       if m < 1 then Inl (ValueError (Msg ''Variadic input minimum_count must be at least 1'' []))
       else Inr \<lparr>id_prefix = p, va_label = lbl, va_type = t, minimum_count = m\<rparr>)"

text \<open>\<open>index\<close>: the full match of \<open>prefix_([1-9][0-9]*)\<close>.\<close>

definition variadic_index :: "variadic_input_spec \<Rightarrow> string \<Rightarrow> nat option" where
  "variadic_index v port_id =
     (let p = id_prefix v @ ''_'' in
      if prefix p port_id \<and> positive_numeral (drop (length p) port_id)
      then Some (read_nat (drop (length p) port_id)) else None)"

definition variadic_port :: "variadic_input_spec \<Rightarrow> nat \<Rightarrow> input_port_spec res" where
  "variadic_port v index =
     (if index < 1 then Inl (ValueError (Msg ''Variadic input index must be at least 1'' []))
      else input_port_init (id_prefix v @ ''_'' @ show_nat index) (va_label v @ '' '' @ show_nat index)
        (va_type v) (index \<le> minimum_count v))"

text \<open>The port of a valid index, without the checks, which then always pass.\<close>

definition variadic_socket :: "variadic_input_spec \<Rightarrow> nat \<Rightarrow> input_port_spec" where
  "variadic_socket v index =
     \<lparr>ip_id = id_prefix v @ ''_'' @ show_nat index, ip_label = va_label v @ '' '' @ show_nat index,
      ip_type = va_type v, ip_required = (index \<le> minimum_count v)\<rparr>"

lemma show_nat_digits: "list_all is_digit (show_nat n)"
proof (induction n rule: show_nat.induct)
  case (1 n)
  then show ?case by (cases "n < 10") (simp_all add: show_nat.simps [of n])
qed

lemma stable_id_append:
  "stable_id p \<Longrightarrow> list_all (\<lambda>x. is_lower x \<or> is_digit x \<or> x = CHR ''_'') q \<Longrightarrow> stable_id (p @ q)"
  by (cases p) auto

lemma variadic_port_socket:
  assumes "stable_id (id_prefix v)" and "1 \<le> n"
  shows "variadic_port v n = Inr (variadic_socket v n)"
proof -
  have "list_all (\<lambda>x. is_lower x \<or> is_digit x \<or> x = CHR ''_'') (''_'' @ show_nat n)"
    using show_nat_digits [of n] by (auto simp: list_all_iff)
  then have "stable_id (id_prefix v @ ''_'' @ show_nat n)"
    using stable_id_append [OF assms(1)] by blast
  with assms(2) show ?thesis
    by (simp add: variadic_port_def input_port_init_def validate_stable_id_def variadic_socket_def)
qed

lemma variadic_index_port:
  "0 < n \<Longrightarrow> variadic_index v (id_prefix v @ ''_'' @ show_nat n) = Some n"
  by (simp add: variadic_index_def Let_def positive_numeral_show_nat)

lemma variadic_index_inverse:
  assumes "variadic_index v p = Some n"
  shows "p = id_prefix v @ ''_'' @ show_nat n" and "0 < n"
proof -
  let ?q = "id_prefix v @ ''_''"
  from assms have pre: "prefix ?q p" and num: "positive_numeral (drop (length ?q) p)"
    and n: "n = read_nat (drop (length ?q) p)"
    unfolding variadic_index_def Let_def by (simp_all split: if_splits)
  from pre have "p = ?q @ drop (length ?q) p" by (auto simp: prefix_def)
  with show_read_nat [OF num] n show "p = id_prefix v @ ''_'' @ show_nat n" "0 < n" by auto
qed

section \<open>Parameters\<close>

datatype update_mode = LIVE | RECOMPILE | RESTART_SOURCE

datatype editor_hint = HINT_DEFAULT | SLIDER | TIMESTAMP | LOOP_RANGE

datatype device_kind = CAMERA_INPUT | MIDI_OUTPUT | AUDIO_OUTPUT

record parameter_spec =
  ps_id :: string
  ps_label :: string
  ps_type :: port_type
  ps_default :: literal
  ps_help :: string
  ps_minimum :: "literal option"
  ps_maximum :: "literal option"
  ps_choices :: "literal list"
  ps_connectable :: "bool option"
  ps_connected_type :: "port_type option"
  ps_update_mode :: update_mode
  ps_editor_hint :: editor_hint
  ps_applicable :: "port_type list"
  ps_step :: "int option"
  ps_device_kind :: "device_kind option"

text \<open>Names for messages: \<open>value_type.value\<close> and \<open>type(value).__name__\<close>.\<close>

definition port_type_value :: "port_type \<Rightarrow> string" where
  "port_type_value t = (case t of IMAGE \<Rightarrow> ''IMAGE'' | CHANNEL \<Rightarrow> ''CHANNEL'' | FLOAT \<Rightarrow> ''FLOAT''
     | INT_T \<Rightarrow> ''INT'' | BOOL \<Rightarrow> ''BOOL'' | COLOR \<Rightarrow> ''COLOR'' | MATRIX \<Rightarrow> ''MATRIX''
     | MIDI_STATE \<Rightarrow> ''MIDI_STATE'' | STRING \<Rightarrow> ''STRING'' | SCALAR_ARRAY \<Rightarrow> ''SCALAR_ARRAY''
     | IMAGE_ARRAY \<Rightarrow> ''IMAGE_ARRAY'' | CHANNEL_ARRAY \<Rightarrow> ''CHANNEL_ARRAY'')"

fun py_type_name :: "literal \<Rightarrow> string" where
  "py_type_name (LFloat _) = ''float''"
| "py_type_name (LInt _) = ''int''"
| "py_type_name (LBool _) = ''bool''"
| "py_type_name (LStr _) = ''str''"
| "py_type_name (LColor _) = ''ColorValue''"
| "py_type_name (LMatrix _) = ''NumericMatrix''"
| "py_type_name LNone = ''NoneType''"

fun matches_port_type :: "literal \<Rightarrow> port_type \<Rightarrow> bool" where
  "matches_port_type (LFloat _) t = (t = FLOAT)"
| "matches_port_type (LInt _) t = (t = INT_T)"
| "matches_port_type (LBool _) t = (t = BOOL)"
| "matches_port_type (LStr _) t = (t = STRING)"
| "matches_port_type (LColor _) t = (t = COLOR)"
| "matches_port_type (LMatrix _) t = (t = MATRIX)"
| "matches_port_type LNone t = False"

definition expected_got :: "port_type \<Rightarrow> literal \<Rightarrow> message" where
  "expected_got t v = Msg ''expected {}, got {}'' [ArgStr (port_type_value t), ArgStr (py_type_name v)]"

text \<open>\<open>a < b\<close> between numbers of any of Python's numeric types.\<close>

definition num_less :: "literal \<Rightarrow> literal \<Rightarrow> bool" where
  "num_less a b = (case (lit_num a, lit_num b) of (Some x, Some y) \<Rightarrow> pf_less x y | _ \<Rightarrow> False)"

fun int_of_literal :: "literal \<Rightarrow> int" where
  "int_of_literal (LInt i) = i"
| "int_of_literal (LBool b) = (if b then 1 else 0)"
| "int_of_literal _ = 0"

definition step_origin :: "parameter_spec \<Rightarrow> int" where
  "step_origin p = (case ps_minimum p of Some m \<Rightarrow> int_of_literal m | None \<Rightarrow> 0)"

fun is_number :: "literal \<Rightarrow> bool" where
  "is_number (LFloat _) = True"
| "is_number (LInt _) = True"
| "is_number _ = False"

definition validate_number :: "parameter_spec \<Rightarrow> literal \<Rightarrow> message option" where
  "validate_number p v =
     (if (case v of LFloat f \<Rightarrow> \<not> is_finite f | _ \<Rightarrow> False) then Some (Msg ''must be finite'' [])
      else if (case ps_minimum p of Some m \<Rightarrow> num_less v m | None \<Rightarrow> False)
        then Some (Msg ''must be at least the minimum'' [])
      else if (case ps_maximum p of Some m \<Rightarrow> num_less m v | None \<Rightarrow> False)
        then Some (Msg ''must be at most the maximum'' [])
      else if (case ps_step p of
                 Some st \<Rightarrow> (int_of_literal v - step_origin p) mod st \<noteq> 0 | None \<Rightarrow> False)
        then Some (Msg ''must use increments of {} from {}'' [ArgInt (the (ps_step p)), ArgInt (step_origin p)])
      else None)"

definition validate_parameter :: "parameter_spec \<Rightarrow> literal \<Rightarrow> message option" where
  "validate_parameter p v =
     (if \<not> matches_port_type v (ps_type p) then Some (expected_got (ps_type p) v)
      else if ps_choices p \<noteq> [] \<and> \<not> list_ex (\<lambda>c. lit_eq c v) (ps_choices p)
        then Some (Msg ''expected one of the choices'' [])
      else if is_number v then validate_number p v
      else None)"

text \<open>The checks of a specification's own constructor.\<close>

fun bound_is_finite :: "literal \<Rightarrow> bool res" where
  "bound_is_finite (LFloat f) = Inr (is_finite f)"
| "bound_is_finite (LInt i) =
     (if float_of_int i = None then Inl (OverflowError (Msg ''int too large to convert to float'' [])) else Inr True)"
| "bound_is_finite _ = Inr False"

definition check_bound :: "port_type \<Rightarrow> literal option \<Rightarrow> unit res" where
  "check_bound t b = (case b of None \<Rightarrow> Inr ()
     | Some m \<Rightarrow> bind_res (bound_is_finite m) (\<lambda>fin.
         if \<not> fin then Inl (ValueError (Msg ''Parameter bounds must be finite numbers'' []))
         else if t = INT_T \<and> (case m of LInt _ \<Rightarrow> False | _ \<Rightarrow> True)
           then Inl (ValueError (Msg ''INT parameter bounds must be integers'' []))
         else Inr ()))"

definition check_bounds :: "parameter_spec \<Rightarrow> unit res" where
  "check_bounds p =
     (if ps_minimum p = None \<and> ps_maximum p = None then Inr ()
      else if ps_type p \<notin> {FLOAT, INT_T}
        then Inl (ValueError (Msg ''Parameter bounds require a numeric value type'' []))
      else bind_res (check_bound (ps_type p) (ps_minimum p)) (\<lambda>_.
        bind_res (check_bound (ps_type p) (ps_maximum p)) (\<lambda>_.
          case (ps_minimum p, ps_maximum p) of
            (Some lo, Some hi) \<Rightarrow>
              if num_less hi lo then Inl (ValueError (Msg ''Parameter minimum cannot exceed maximum'' []))
              else Inr ()
          | _ \<Rightarrow> Inr ())))"

definition check_step :: "parameter_spec \<Rightarrow> unit res" where
  "check_step p = (case ps_step p of None \<Rightarrow> Inr ()
     | Some st \<Rightarrow>
        if ps_type p \<noteq> INT_T then Inl (ValueError (Msg ''Parameter steps currently require an INT value type'' []))
        else if st < 1 then Inl (ValueError (Msg ''Parameter step must be a positive integer'' []))
        else if ps_choices p \<noteq> []
          then Inl (ValueError (Msg ''Parameter step and explicit choices cannot be combined'' []))
        else Inr ())"

definition parameter_spec_init :: "parameter_spec \<Rightarrow> parameter_spec res" where
  "parameter_spec_init p =
     bind_res (validate_stable_id (ps_id p) ''parameter'') (\<lambda>_.
       if ps_device_kind p \<noteq> None \<and> ps_type p \<noteq> STRING
         then Inl (ValueError (Msg ''Device parameters must use the STRING value type'' []))
       else bind_res (check_bounds p) (\<lambda>_. bind_res (check_step p) (\<lambda>_.
         if validate_parameter p (ps_default p) \<noteq> None
           then Inl (ValueError (Msg ''Invalid default for parameter {}'' [ArgStr (ps_id p)]))
         else Inr p)))"

section \<open>Sanitising and converting values\<close>

fun to_pyfloat :: "literal \<Rightarrow> pyfloat res" where
  "to_pyfloat (LFloat f) = Inr f"
| "to_pyfloat (LInt i) = (case float_of_int i of Some x \<Rightarrow> Inr (Fin x)
     | None \<Rightarrow> Inl (OverflowError (Msg ''int too large to convert to float'' [])))"
| "to_pyfloat (LBool b) = Inr (Fin (if b then 1 else 0))"
| "to_pyfloat v = Inl (TypeError (Msg ''float() argument must be a number'' []))"

definition pf_max :: "pyfloat \<Rightarrow> pyfloat \<Rightarrow> pyfloat" where
  "pf_max a b = (if pf_less a b then b else a)"

definition pf_min :: "pyfloat \<Rightarrow> pyfloat \<Rightarrow> pyfloat" where
  "pf_min a b = (if pf_less b a then b else a)"

fun pf_distance :: "pyfloat \<Rightarrow> pyfloat \<Rightarrow> pyfloat" where
  "pf_distance (Fin a) (Fin b) = Fin \<bar>fl_sub a b\<bar>"
| "pf_distance NaN _ = NaN"
| "pf_distance _ NaN = NaN"
| "pf_distance PosInf PosInf = NaN"
| "pf_distance NegInf NegInf = NaN"
| "pf_distance _ _ = PosInf"

text \<open>\<open>min(xs, key=...)\<close>: the first of the smallest.\<close>

fun argmin :: "('k \<Rightarrow> 'k \<Rightarrow> bool) \<Rightarrow> ('a \<Rightarrow> 'k) \<Rightarrow> 'a \<Rightarrow> 'a list \<Rightarrow> 'a" where
  "argmin lt key best [] = best"
| "argmin lt key best (c # cs) = argmin lt key (if lt (key c) (key best) then c else best) cs"

definition float_choices :: "literal list \<Rightarrow> pyfloat list" where
  "float_choices cs = List.map_filter (\<lambda>c. case c of LFloat f \<Rightarrow> Some f | _ \<Rightarrow> None) cs"

definition int_choices :: "literal list \<Rightarrow> int list" where
  "int_choices cs = List.map_filter (\<lambda>c. case c of LInt i \<Rightarrow> Some i | _ \<Rightarrow> None) cs"

definition sanitize_float :: "parameter_spec \<Rightarrow> pyfloat \<Rightarrow> pyfloat res" where
  "sanitize_float p f =
     (if \<not> is_finite f then Inl (ValueError (Msg ''must be finite'' []))
      else
        bind_res (case ps_minimum p of None \<Rightarrow> Inr f
                  | Some m \<Rightarrow> bind_res (to_pyfloat m) (\<lambda>x. Inr (pf_max f x))) (\<lambda>f1.
        bind_res (case ps_maximum p of None \<Rightarrow> Inr f1
                  | Some m \<Rightarrow> bind_res (to_pyfloat m) (\<lambda>x. Inr (pf_min f1 x))) (\<lambda>f2.
        Inr (case float_choices (ps_choices p) of [] \<Rightarrow> f2
             | c # cs \<Rightarrow> argmin pf_less (\<lambda>c. pf_distance c f2) c cs))))"

text \<open>\<open>a / b\<close> on integers: the correctly rounded quotient.\<close>

definition true_div :: "int \<Rightarrow> int \<Rightarrow> rat res" where
  "true_div a b =
     (let q = of_int a / of_int b :: rat in
      if 2 ^ 1024 - 2 ^ 970 \<le> \<bar>q\<bar> then Inl (OverflowError (Msg ''integer division result too large for a float'' []))
      else Inr (fl q))"

definition snap_to_step :: "parameter_spec \<Rightarrow> int \<Rightarrow> int \<Rightarrow> int res" where
  "snap_to_step p st n =
     (let origin = step_origin p in
      bind_res (true_div (n - origin) st) (\<lambda>q.
      bind_res (case ps_minimum p of None \<Rightarrow> Inr \<lfloor>fl_add q (1/2)\<rfloor>
         | Some m \<Rightarrow> bind_res (true_div (int_of_literal m - origin) st) (\<lambda>lo.
             Inr (max \<lfloor>fl_add q (1/2)\<rfloor> \<lceil>lo\<rceil>))) (\<lambda>k1.
      bind_res (case ps_maximum p of None \<Rightarrow> Inr k1
         | Some m \<Rightarrow> bind_res (true_div (int_of_literal m - origin) st) (\<lambda>hi. Inr (min k1 \<lfloor>hi\<rfloor>))) (\<lambda>k2.
      Inr (origin + k2 * st)))))"

definition sanitize_int :: "parameter_spec \<Rightarrow> int \<Rightarrow> int res" where
  "sanitize_int p n =
     (let n1 = (case ps_minimum p of None \<Rightarrow> n | Some m \<Rightarrow> max n (int_of_literal m));
          n2 = (case ps_maximum p of None \<Rightarrow> n1 | Some m \<Rightarrow> min n1 (int_of_literal m))
      in bind_res (case ps_step p of None \<Rightarrow> Inr n2 | Some st \<Rightarrow> snap_to_step p st n2) (\<lambda>n3.
         Inr (case int_choices (ps_choices p) of [] \<Rightarrow> n3
              | c # cs \<Rightarrow> argmin (<) (\<lambda>c. \<bar>c - n3\<bar>) c cs)))"

definition check_literal :: "parameter_spec \<Rightarrow> literal \<Rightarrow> literal res" where
  "check_literal p v =
     (if matches_port_type v (ps_type p) then Inr v else Inl (ValueError (expected_got (ps_type p) v)))"

definition sanitize_value :: "parameter_spec \<Rightarrow> literal \<Rightarrow> literal res" where
  "sanitize_value p v =
     bind_res (check_literal p v) (\<lambda>w.
     bind_res (case w of
         LFloat f \<Rightarrow> bind_res (sanitize_float p f) (\<lambda>x. Inr (LFloat x))
       | LInt n \<Rightarrow> bind_res (sanitize_int p n) (\<lambda>x. Inr (LInt x))
       | _ \<Rightarrow> Inr w) (\<lambda>converted.
       case validate_parameter p converted of
         Some msg \<Rightarrow> Inl (ValueError msg)
       | None \<Rightarrow> Inr converted))"

text \<open>Live socket values: \<open>int\<close> drives \<open>float\<close> controls and \<open>float\<close>, rounded, drives \<open>int\<close> ones.\<close>

fun live_to_float :: "runtime_value \<Rightarrow> literal res" where
  "live_to_float (RFloat f) = Inr (LFloat f)"
| "live_to_float (RInt i) = (case float_of_int i of Some x \<Rightarrow> Inr (LFloat (Fin x))
     | None \<Rightarrow> Inl (OverflowError (Msg ''int too large to convert to float'' [])))"
| "live_to_float _ = Inl (ValueError (Msg ''expected numeric scalar'' []))"

fun live_to_int :: "runtime_value \<Rightarrow> literal res" where
  "live_to_int (RInt i) = Inr (LInt i)"
| "live_to_int (RFloat (Fin x)) = Inr (LInt (round_half_even x))"
| "live_to_int (RFloat _) = Inl (ValueError (Msg ''expected a finite numeric scalar'' []))"
| "live_to_int _ = Inl (ValueError (Msg ''expected numeric scalar'' []))"

fun live_to_bool :: "runtime_value \<Rightarrow> literal res" where
  "live_to_bool (RBool b) = Inr (LBool b)"
| "live_to_bool _ = Inl (ValueError (Msg ''expected BOOL'' []))"

definition check_live_scalar :: "parameter_spec \<Rightarrow> runtime_value \<Rightarrow> literal res" where
  "check_live_scalar p v =
     (case ps_type p of
        FLOAT \<Rightarrow> live_to_float v
      | INT_T \<Rightarrow> live_to_int v
      | BOOL \<Rightarrow> live_to_bool v
      | t \<Rightarrow> Inl (ValueError (Msg ''{} parameters do not accept live scalar input'' [ArgStr (port_type_value t)])))"

definition connected_value :: "parameter_spec \<Rightarrow> runtime_value \<Rightarrow> literal res" where
  "connected_value p v = bind_res (check_live_scalar p v) (sanitize_value p)"

section \<open>Groups, kinds and sockets\<close>

record parameter_group_spec =
  pg_id :: string
  pg_label :: string
  pg_parameter_ids :: "string list"

definition parameter_group_init :: "string \<Rightarrow> string \<Rightarrow> string list \<Rightarrow> parameter_group_spec res" where
  "parameter_group_init i lbl ids =
     bind_res (validate_stable_id i ''parameter group'') (\<lambda>_.
       if ids = [] then Inl (ValueError (Msg ''Parameter group must contain at least one parameter'' []))
       else bind_res (foldM (\<lambda>x _. validate_stable_id x ''grouped parameter'') ids ()) (\<lambda>_.
         bind_res (ensure_unique ids ''grouped parameter'') (\<lambda>_.
           Inr \<lparr>pg_id = i, pg_label = lbl, pg_parameter_ids = ids\<rparr>)))"

datatype execution_kind = SOURCE | STATELESS | STATEFUL | SINK | VISUALIZER

datatype cache_policy = AUTO | NEVER | STATIC

text \<open>\<open>_resolve_parameter_socket\<close>\<close>

definition default_connectable :: "parameter_spec \<Rightarrow> execution_kind \<Rightarrow> cache_policy \<Rightarrow> bool" where
  "default_connectable p kind policy \<longleftrightarrow>
     ps_type p \<in> {FLOAT, INT_T, BOOL} \<and> ps_update_mode p = LIVE \<and>
     kind \<notin> {SOURCE, VISUALIZER} \<and> policy \<noteq> STATIC"

definition resolve_parameter_socket ::
  "parameter_spec \<Rightarrow> execution_kind \<Rightarrow> cache_policy \<Rightarrow> parameter_spec res" where
  "resolve_parameter_socket p kind policy =
     (let connectable = (case ps_connectable p of Some b \<Rightarrow> b | None \<Rightarrow> default_connectable p kind policy) in
      bind_res
        (if connectable then
           (if ps_type p \<in> {FLOAT, INT_T} then Inr (Some FLOAT)
            else if ps_type p = BOOL then Inr (Some BOOL)
            else if ps_connected_type p = None
              then Inl (ValueError (Msg ''Connectable parameter {} requires connected_port_type'' [ArgStr (ps_id p)]))
            else Inr (ps_connected_type p))
         else Inr None)
        (\<lambda>t. parameter_spec_init (p\<lparr>ps_connectable := Some connectable, ps_connected_type := t\<rparr>)))"

section \<open>The execution contract\<close>

text \<open>
  The runtime factory is left to the scheduler, which receives runtimes as a parameter; of the
  source configuration builder only its presence is checked.
\<close>

record execution_contract =
  ec_type_id :: string
  ec_version :: int
  ec_kind :: execution_kind
  ec_inputs :: "input_port_spec list"
  ec_outputs :: "output_port_spec list"
  ec_parameters :: "parameter_spec list"
  ec_variadic :: "variadic_input_spec option"
  ec_cache_policy :: cache_policy
  ec_handles_no_data :: bool
  ec_port_type_resolver :: "(string \<Rightarrow> bool \<Rightarrow> (string, literal) fmap \<Rightarrow> type_expr res) option"
  ec_required_input_resolver :: "((string, literal) fmap \<Rightarrow> string list) option"
  ec_parameter_validator :: "((string, literal) fmap \<Rightarrow> message list) option"
  ec_source_outputs :: "(string \<times> string) option"
  ec_has_config_builder :: bool

definition contract_output :: "execution_contract \<Rightarrow> string \<Rightarrow> output_port_spec option" where
  "contract_output c i = List.find (\<lambda>p. op_id p = i) (ec_outputs c)"

definition contract_parameter :: "execution_contract \<Rightarrow> string \<Rightarrow> parameter_spec option" where
  "contract_parameter c i = List.find (\<lambda>p. ps_id p = i) (ec_parameters c)"

text \<open>An index the pattern accepts is positive, so \<open>port\<close> does not raise on it.\<close>

definition contract_input :: "execution_contract \<Rightarrow> string \<Rightarrow> input_port_spec option" where
  "contract_input c i =
     (case List.find (\<lambda>p. ip_id p = i) (ec_inputs c) of
        Some p \<Rightarrow> Some p
      | None \<Rightarrow> (case ec_variadic c of None \<Rightarrow> None
          | Some v \<Rightarrow> map_option (variadic_socket v) (variadic_index v i)))"

definition source_outputs_init :: "string \<Rightarrow> string \<Rightarrow> (string \<times> string) res" where
  "source_outputs_init img idx =
     bind_res (validate_stable_id img ''source image port'') (\<lambda>_.
     bind_res (validate_stable_id idx ''source processed-index port'') (\<lambda>_.
       if img = idx then Inl (ValueError (Msg ''Source image and processed-index ports must differ'' []))
       else Inr (img, idx)))"

fun resolve_sockets :: "parameter_spec list \<Rightarrow> execution_kind \<Rightarrow> cache_policy \<Rightarrow> parameter_spec list res" where
  "resolve_sockets [] kind policy = Inr []"
| "resolve_sockets (p # ps) kind policy =
     bind_res (resolve_parameter_socket p kind policy) (\<lambda>q.
       bind_res (resolve_sockets ps kind policy) (\<lambda>qs. Inr (q # qs)))"

definition check_contract_ports :: "execution_contract \<Rightarrow> unit res" where
  "check_contract_ports c =
     bind_res (ensure_unique (map ip_id (ec_inputs c)) ''input port'') (\<lambda>_.
     bind_res (ensure_unique (map op_id (ec_outputs c)) ''output port'') (\<lambda>_.
     bind_res (ensure_unique (map ps_id (ec_parameters c)) ''parameter'') (\<lambda>_.
       let overlapping = set (map ip_id (ec_inputs c)) \<inter> set (map ps_id (ec_parameters c)) in
       if overlapping \<noteq> {} then
         Inl (ValueError (Msg ''Input ports and parameters share stable IDs: {}''
           [ArgStrs (sorted_list_of_set overlapping)]))
       else (case ec_variadic c of None \<Rightarrow> Inr ()
          | Some v \<Rightarrow>
             if list_ex (\<lambda>p. variadic_index v (ip_id p) \<noteq> None) (ec_inputs c)
               then Inl (ValueError (Msg ''Fixed input IDs must not overlap the variadic input family'' []))
             else if list_ex (\<lambda>p. variadic_index v (ps_id p) \<noteq> None) (ec_parameters c)
               then Inl (ValueError (Msg ''Parameter IDs must not overlap the variadic input family'' []))
             else Inr ()))))"

definition check_contract_source :: "execution_contract \<Rightarrow> unit res" where
  "check_contract_source c =
     bind_res (case ec_source_outputs c of None \<Rightarrow> Inr ()
        | Some (img, idx) \<Rightarrow>
           if ec_kind c \<noteq> SOURCE then
             Inl (ValueError (Msg ''Non-source node {} must not declare a source output contract'' [ArgStr (ec_type_id c)]))
           else foldM (\<lambda>i _. if contract_output c i = None
               then Inl (ValueError (Msg ''Source output port {} of {} is not declared in its outputs''
                      [ArgStr i, ArgStr (ec_type_id c)]))
               else Inr ()) [img, idx] ()) (\<lambda>_.
     if ec_has_config_builder c \<and> ec_kind c \<noteq> SOURCE then
       Inl (ValueError (Msg ''Non-source node {} must not declare a source config builder'' [ArgStr (ec_type_id c)]))
     else Inr ())"

definition execution_contract_init :: "execution_contract \<Rightarrow> execution_contract res" where
  "execution_contract_init c =
     (if \<not> type_id_ok (ec_type_id c) then Inl (ValueError (Msg ''Invalid node type ID: {}'' [ArgStr (ec_type_id c)]))
      else if ec_version c < 1 then Inl (ValueError (Msg ''implementation_version must be at least 1'' []))
      else bind_res (resolve_sockets (ec_parameters c) (ec_kind c) (ec_cache_policy c)) (\<lambda>ps.
        let c = c\<lparr>ec_parameters := ps\<rparr> in
        bind_res (check_contract_ports c) (\<lambda>_. bind_res (check_contract_source c) (\<lambda>_. Inr c))))"

text \<open>\<open>input_ports\<close>: fixed ports and the effective sockets of the family, in numeric order.\<close>

function next_free :: "nat list \<Rightarrow> nat \<Rightarrow> nat" where
  "next_free used n = (if n \<in> set used then next_free used (n + 1) else n)"
  by pat_completeness auto
termination
proof (relation "measure (\<lambda>(used, n). card {x \<in> set used. n \<le> x})", simp, clarsimp)
  fix used :: "nat list" and n assume "n \<in> set used"
  then have "n \<in> {x \<in> set used. n \<le> x}" by simp
  moreover have "n \<notin> {x \<in> set used. Suc n \<le> x}" by simp
  moreover have "{x \<in> set used. Suc n \<le> x} \<subseteq> {x \<in> set used. n \<le> x}" by (simp add: Collect_mono)
  ultimately have "{x \<in> set used. Suc n \<le> x} \<subset> {x \<in> set used. n \<le> x}" by blast
  then show "card {x \<in> set used. Suc n \<le> x} < card {x \<in> set used. n \<le> x}"
    by (rule psubset_card_mono [OF finite_subset [OF Collect_restrict finite_set]])
qed

declare next_free.simps [simp del]

definition family_indexes :: "variadic_input_spec \<Rightarrow> string list \<Rightarrow> bool \<Rightarrow> nat list" where
  "family_indexes v conn_ports include_next =
     (let used = remdups (List.map_filter (variadic_index v) conn_ports);
          indexes = set [1..<minimum_count v + 1] \<union> set used
      in sorted_list_of_set
        (if include_next \<and> indexes \<subseteq> set used then insert (next_free used 1) indexes else indexes))"

definition input_ports :: "execution_contract \<Rightarrow> string list \<Rightarrow> bool \<Rightarrow> input_port_spec list" where
  "input_ports c conn_ports include_next =
     (case ec_variadic c of None \<Rightarrow> ec_inputs c
      | Some v \<Rightarrow> ec_inputs c @ map (variadic_socket v) (family_indexes v conn_ports include_next))"

text \<open>The loop over the declared parameters, and \<open>parameter_values\<close>.\<close>

fun collect_values :: "parameter_spec list \<Rightarrow> (string, literal) fmap \<Rightarrow>
    (string, literal) fmap \<times> message list \<Rightarrow> (string, literal) fmap \<times> message list" where
  "collect_values [] literals (vs, errs) = (vs, errs)"
| "collect_values (p # ps) literals (vs, errs) =
     (let v = (case fmlookup literals (ps_id p) of Some v \<Rightarrow> v | None \<Rightarrow> ps_default p) in
      case validate_parameter p v of
        Some err \<Rightarrow> collect_values ps literals
          (fmupd (ps_id p) (ps_default p) vs,
           errs @ [if err = Msg ''must be finite'' []
                   then Msg ''parameter {}: {} must be finite'' [ArgStr (ps_id p), ArgStr (ps_id p)]
                   else (case err of Msg t args \<Rightarrow> Msg (''parameter {} '' @ t) (ArgStr (ps_id p) # args))])
      | None \<Rightarrow> collect_values ps literals (fmupd (ps_id p) v vs, errs))"

definition parameter_values :: "execution_contract \<Rightarrow> (string, literal) fmap \<Rightarrow>
    (string, literal) fmap \<times> message list" where
  "parameter_values c literals =
     (let known = map ps_id (ec_parameters c);
          unknown = sorted_list_of_set (fset (fmdom literals) - set known);
          errs0 = map (\<lambda>i. Msg ''unknown parameter {}'' [ArgStr i]) unknown;
          (vs, errs) = collect_values (ec_parameters c) literals (fmempty, errs0)
      in case ec_parameter_validator c of
           Some f \<Rightarrow> (vs, if errs = [] then f vs else errs)
         | None \<Rightarrow> (vs, errs))"

definition port_type_of :: "execution_contract \<Rightarrow> string \<Rightarrow> bool \<Rightarrow> (string, literal) fmap \<Rightarrow> type_expr res" where
  "port_type_of c port_id is_output params =
     (case ec_port_type_resolver c of
        Some f \<Rightarrow> f port_id is_output params
      | None \<Rightarrow>
         (case (if is_output then map_option op_type (contract_output c port_id)
                else map_option ip_type (contract_input c port_id)) of
            Some t \<Rightarrow> Inr t
          | None \<Rightarrow> Inl (KeyError (Msg ''Unknown port {} on {}'' [ArgStr port_id, ArgStr (ec_type_id c)]))))"

definition required_inputs :: "execution_contract \<Rightarrow> (string, literal) fmap \<Rightarrow> string set" where
  "required_inputs c params =
     set (case ec_required_input_resolver c of
            Some f \<Rightarrow> f params
          | None \<Rightarrow> map ip_id (filter ip_required (ec_inputs c))) \<union>
     (case ec_variadic c of None \<Rightarrow> {} | Some v \<Rightarrow> {id_prefix v})"

section \<open>Node definitions and the registry\<close>

text \<open>Of the presentation the definition reads the groups, of the persistence the migrations.\<close>

datatype json =
    JNull | JBool bool | JInt int | JFloat pyfloat | JStr string
  | JArr "json list" | JObj "(string \<times> json) list"

type_synonym json_object = "(string, json) dict"

type_synonym node_migration = "json_object \<Rightarrow> json_object res"

record persistence_descriptor =
  pd_migrations :: "(int, node_migration) dict"
  pd_media_parameter :: "string option"

record node_definition =
  nd_execution :: execution_contract
  nd_aliases :: "string list"
  nd_groups :: "parameter_group_spec list"
  nd_persistence :: "persistence_descriptor option"

text \<open>
  The editor's aliases must contain text and differ up to case; \<open>strip\<close> and \<open>casefold\<close> are
  Python's, applied by the author of the record.
\<close>

definition presentation_init :: "(string \<Rightarrow> string) \<Rightarrow> (string \<Rightarrow> string) \<Rightarrow> string list \<Rightarrow> unit res" where
  "presentation_init strip casefold aliases =
     (if list_ex (\<lambda>a. strip a = []) aliases then Inl (ValueError (Msg ''Node aliases must not be empty'' []))
      else ensure_unique (map casefold aliases) ''node alias'')"

definition check_migration_chain :: "string \<Rightarrow> int \<Rightarrow> int list \<Rightarrow> unit res" where
  "check_migration_chain t version keys =
     (if keys = [] then Inr ()
      else if Min (set keys) < 0
        then Inl (ValueError (Msg ''Node {} has a migration from a negative version'' [ArgStr t]))
      else if version \<le> Max (set keys)
        then Inl (ValueError (Msg ''Node {} at implementation_version {} registers unreachable migration {}''
               [ArgStr t, ArgInt version, ArgInt (Max (set keys))]))
      else if set [Min (set keys)..version - 1] - set keys \<noteq> {}
        then Inl (ValueError (Msg ''Node {} has no migration from version(s)''
               (ArgStr t # map ArgInt (sorted_list_of_set (set [Min (set keys)..version - 1] - set keys)))))
      else Inr ())"

definition check_groups :: "execution_contract \<Rightarrow> parameter_group_spec list \<Rightarrow> unit res" where
  "check_groups c groups =
     (let grouped = concat (map pg_parameter_ids groups);
          unknown = set grouped - set (map ps_id (ec_parameters c)) in
      bind_res (ensure_unique grouped ''grouped parameter'') (\<lambda>_.
        if unknown \<noteq> {} then
          Inl (ValueError (Msg ''Parameter groups reference unknown parameters: {}'' [ArgStrs (sorted_list_of_set unknown)]))
        else Inr ()))"

definition check_media_parameter :: "execution_contract \<Rightarrow> string option \<Rightarrow> unit res" where
  "check_media_parameter c media =
     (case media of None \<Rightarrow> Inr ()
      | Some i \<Rightarrow> (case contract_parameter c i of
           None \<Rightarrow> Inl (ValueError (Msg ''Media reference parameter {} of {} is not declared in its parameters''
                      [ArgStr i, ArgStr (ec_type_id c)]))
         | Some p \<Rightarrow> if ps_type p \<noteq> STRING
             then Inl (ValueError (Msg ''Media reference parameter {} must be a string'' [ArgStr i]))
             else Inr ()))"

definition node_definition_init :: "node_definition \<Rightarrow> node_definition res" where
  "node_definition_init d =
     bind_res (check_groups (nd_execution d) (nd_groups d)) (\<lambda>_.
     bind_res (case nd_persistence d of None \<Rightarrow> Inr ()
        | Some p \<Rightarrow> check_media_parameter (nd_execution d) (pd_media_parameter p)) (\<lambda>_.
     bind_res (check_migration_chain (ec_type_id (nd_execution d)) (ec_version (nd_execution d))
        (case nd_persistence d of None \<Rightarrow> [] | Some p \<Rightarrow> dict_keys (pd_migrations p))) (\<lambda>_.
     Inr d)))"

text \<open>\<open>nodes/registry.py\<close>\<close>

type_synonym node_registry = "(string, node_definition) fmap"

definition registry_register :: "node_definition \<Rightarrow> node_registry \<Rightarrow> node_registry res" where
  "registry_register d r =
     (let t = ec_type_id (nd_execution d) in
      if t |\<in>| fmdom r then Inl (ValueError (Msg ''Node type already registered: {}'' [ArgStr t]))
      else Inr (fmupd t d r))"

definition registry_init :: "node_definition list \<Rightarrow> node_registry res" where
  "registry_init ds = foldM registry_register ds fmempty"

definition registry_require :: "node_registry \<Rightarrow> string \<Rightarrow> node_definition res" where
  "registry_require r t = (case fmlookup r t of
       None \<Rightarrow> Inl (KeyError (Msg ''Unknown node type: {}'' [ArgStr t])) | Some d \<Rightarrow> Inr d)"

definition registry_definitions :: "node_registry \<Rightarrow> node_definition list" where
  "registry_definitions r = sorted_values r"

section \<open>Migrations\<close>

text \<open>Python's equality on JSON values; numbers compare across types, objects without order.\<close>

fun json_num :: "json \<Rightarrow> pyfloat option" where
  "json_num (JFloat f) = Some f"
| "json_num (JInt i) = Some (Fin (of_int i))"
| "json_num (JBool b) = Some (Fin (if b then 1 else 0))"
| "json_num _ = None"

fun json_eq :: "json \<Rightarrow> json \<Rightarrow> bool"
  and json_eq_list :: "json list \<Rightarrow> json list \<Rightarrow> bool"
  and json_eq_items :: "(string \<times> json) list \<Rightarrow> (string \<times> json) list \<Rightarrow> bool" where
  "json_eq JNull b = (b = JNull)"
| "json_eq (JStr a) b = (b = JStr a)"
| "json_eq (JArr xs) b = (case b of JArr ys \<Rightarrow> json_eq_list xs ys | _ \<Rightarrow> False)"
| "json_eq (JObj xs) b = (case b of JObj ys \<Rightarrow> length xs = length ys \<and> json_eq_items xs ys | _ \<Rightarrow> False)"
| "json_eq (JBool x) b = (case json_num b of Some y \<Rightarrow> pf_eq (Fin (if x then 1 else 0)) y | None \<Rightarrow> False)"
| "json_eq (JInt x) b = (case json_num b of Some y \<Rightarrow> pf_eq (Fin (of_int x)) y | None \<Rightarrow> False)"
| "json_eq (JFloat x) b = (case json_num b of Some y \<Rightarrow> pf_eq x y | None \<Rightarrow> False)"
| "json_eq_list [] ys = (ys = [])"
| "json_eq_list (x # xs) ys = (case ys of [] \<Rightarrow> False | y # ys' \<Rightarrow> json_eq x y \<and> json_eq_list xs ys')"
| "json_eq_items [] ys = True"
| "json_eq_items ((k, x) # xs) ys =
     ((case map_of ys k of None \<Rightarrow> False | Some y \<Rightarrow> json_eq x y) \<and> json_eq_items xs ys)"

text \<open>\<open>data.get(key)\<close> of an absent key is \<open>None\<close>, as is a null entry.\<close>

definition json_get :: "json_object \<Rightarrow> string \<Rightarrow> json" where
  "json_get d k = (case dict_get d k of Some v \<Rightarrow> v | None \<Rightarrow> JNull)"

definition json_version :: "json_object \<Rightarrow> int res" where
  "json_version d = (case json_get d ''implementation_version'' of
       JInt v \<Rightarrow> if v < 0 then Inl (ValueError (Msg ''Node implementation_version must be a non-negative integer'' []))
                 else Inr v
     | _ \<Rightarrow> Inl (ValueError (Msg ''Node implementation_version must be a non-negative integer'' [])))"

type_synonym migration_step = "string \<times> int \<times> int"

function migrate_loop :: "string \<Rightarrow> (int, node_migration) dict \<Rightarrow> int \<Rightarrow> int \<Rightarrow> json_object \<Rightarrow>
    migration_step list \<Rightarrow> (json_object \<times> migration_step list) res" where
  "migrate_loop t ms target version d steps =
     (if \<not> version < target then Inr (d, steps)
      else case dict_get ms version of
          None \<Rightarrow> Inl (ValueError (Msg ''No node migration is registered for {} version {}'' [ArgStr t, ArgInt version]))
        | Some m \<Rightarrow>
            bind_res (m d) (\<lambda>d'. bind_res (json_version d') (\<lambda>next_version.
              if next_version \<noteq> version + 1
                then Inl (ValueError (Msg ''Node migration {} version {} must produce version {}''
                       [ArgStr t, ArgInt version, ArgInt (version + 1)]))
              else if \<not> json_eq (json_get d' ''id'') (json_get d ''id'') \<or>
                      \<not> json_eq (json_get d' ''type_id'') (json_get d ''type_id'')
                then Inl (ValueError (Msg ''Node migrations cannot change node identity or type'' []))
              else migrate_loop t ms target (version + 1) d' (steps @ [(t, version, version + 1)]))))"
  by pat_completeness auto
termination
  by (relation "measure (\<lambda>(t, ms, target, version, d, steps). nat (target - version))") auto

declare migrate_loop.simps [simp del]

definition migrate_node_data :: "string \<Rightarrow> (int, node_migration) dict \<Rightarrow> json_object \<Rightarrow> int \<Rightarrow>
    (json_object \<times> migration_step list) res" where
  "migrate_node_data t ms d target =
     bind_res (json_version d) (\<lambda>version.
       if target < version then
         Inl (ValueError (Msg ''{} version {} is newer than supported version {}''
           [ArgStr t, ArgInt version, ArgInt target]))
       else migrate_loop t ms target version d [])"

definition migration_parameters :: "json_object \<Rightarrow> json_object res" where
  "migration_parameters d = (case json_get d ''parameters'' of JObj ps \<Rightarrow> Inr ps
     | _ \<Rightarrow> Inl (ValueError (Msg ''Node parameters must be an object before migration'' [])))"

end
