(* ===== verification/TypeGroups.thy ===== *)
theory TypeGroups
  imports NodeBase "HOL-Library.Product_Lexorder"
begin

text \<open>
  The union-find structure \<open>_TypeGroups\<close> of \<^verbatim>\<open>graph/compiler.py\<close>, which settles
  the type variables of generic ports. Keys are a node and a variable name, ordered as the code
  sorts them. \<open>find\<close> compresses paths; it recurs with a bound, the number of keys, which the
  invariant shows to be enough (a parent never follows its child in the key order). The
  main result is independence of order: what a variable resolves to is determined by the set of
  constraints on its class.
\<close>

section \<open>State and operations\<close>

type_synonym var_key = "uuid \<times> string"

type_synonym 'k parents = "('k, 'k) fmap"

record 'k type_groups =
  tg_parent :: "'k parents"
  tg_candidates :: "('k, port_type set) fmap"
  tg_allowed :: "('k, port_type set) fmap"
  tg_defaults :: "('k, port_type set) fmap"

definition groups_init :: "'k type_groups" where
  "groups_init = \<lparr>tg_parent = fmempty, tg_candidates = fmempty, tg_allowed = fmempty, tg_defaults = fmempty\<rparr>"

definition get_set :: "('k, port_type set) fmap \<Rightarrow> 'k \<Rightarrow> port_type set" where
  "get_set m k = (case fmlookup m k of Some s \<Rightarrow> s | None \<Rightarrow> {})"

definition groups_add :: "'k \<Rightarrow> port_type set \<Rightarrow> port_type option \<Rightarrow> 'k type_groups \<Rightarrow> 'k type_groups" where
  "groups_add key allowed_types default_type g =
     (let g = (if key |\<in>| fmdom (tg_parent g) then g else g\<lparr>tg_parent := fmupd key key (tg_parent g)\<rparr>);
          g = (if allowed_types = {} then g
               else g\<lparr>tg_allowed := fmupd key (case fmlookup (tg_allowed g) key of
                        None \<Rightarrow> allowed_types | Some current \<Rightarrow> current \<inter> allowed_types) (tg_allowed g)\<rparr>)
      in case default_type of None \<Rightarrow> g
         | Some d \<Rightarrow> g\<lparr>tg_defaults := fmupd key (insert d (get_set (tg_defaults g) key)) (tg_defaults g)\<rparr>)"

fun find_root :: "nat \<Rightarrow> 'k parents \<Rightarrow> 'k \<Rightarrow> ('k \<times> 'k parents) res" where
  "find_root n m key =
     (case fmlookup m key of
        None \<Rightarrow> Inl (KeyError (Msg ''unknown type variable'' []))
      | Some parent \<Rightarrow>
          if parent = key then Inr (key, m)
          else case n of 0 \<Rightarrow> Inl RecursionError
             | Suc n' \<Rightarrow> bind_res (find_root n' m parent) (\<lambda>(r, m'). Inr (r, fmupd key r m')))"

declare find_root.simps [simp del]

definition groups_find :: "'k \<Rightarrow> 'k type_groups \<Rightarrow> ('k \<times> 'k type_groups) res" where
  "groups_find key g =
     bind_res (find_root (fcard (fmdom (tg_parent g))) (tg_parent g) key) (\<lambda>(r, m).
       Inr (r, g\<lparr>tg_parent := m\<rparr>))"

definition merge_allowed :: "port_type set option \<Rightarrow> port_type set option \<Rightarrow> port_type set option" where
  "merge_allowed l r =
     (case (l, r) of
        (None, None) \<Rightarrow> None | (None, Some b) \<Rightarrow> Some b | (Some a, None) \<Rightarrow> Some a
      | (Some a, Some b) \<Rightarrow> Some (a \<inter> b))"

text \<open>Moving the entries of the child to the root.\<close>

definition link :: "'k \<Rightarrow> 'k \<Rightarrow> 'k type_groups \<Rightarrow> 'k type_groups" where
  "link rt child g =
     (let defaults = get_set (tg_defaults g) rt \<union> get_set (tg_defaults g) child;
          cleared = fmdrop child (fmdrop rt (tg_defaults g));
          allowed = fmdrop child (fmdrop rt (tg_allowed g))
      in g\<lparr>tg_parent := fmupd child rt (tg_parent g),
           tg_candidates := fmupd rt (get_set (tg_candidates g) rt \<union> get_set (tg_candidates g) child)
             (fmdrop child (tg_candidates g)),
           tg_defaults := (if defaults = {} then cleared else fmupd rt defaults cleared),
           tg_allowed := (case merge_allowed (fmlookup (tg_allowed g) rt) (fmlookup (tg_allowed g) child) of
              None \<Rightarrow> allowed | Some s \<Rightarrow> fmupd rt s allowed)\<rparr>)"

definition groups_union :: "'k::linorder \<Rightarrow> 'k \<Rightarrow> 'k type_groups \<Rightarrow> 'k type_groups res" where
  "groups_union left right g =
     bind_res (groups_find left g) (\<lambda>(left_root, g). bind_res (groups_find right g) (\<lambda>(right_root, g).
       if left_root = right_root then Inr g
       else Inr (link (min left_root right_root) (max left_root right_root) g)))"

definition groups_constrain :: "'k \<Rightarrow> port_type \<Rightarrow> 'k type_groups \<Rightarrow> 'k type_groups res" where
  "groups_constrain key t g =
     bind_res (groups_find key g) (\<lambda>(r, g).
       Inr (g\<lparr>tg_candidates := fmupd r (insert t (get_set (tg_candidates g) r)) (tg_candidates g)\<rparr>))"

text \<open>The decision on the merged sets, and the two queries; a query compresses paths, too.\<close>

definition decide :: "port_type set \<Rightarrow> port_type set option \<Rightarrow> port_type set \<Rightarrow> port_type option" where
  "decide candidates allowed defaults =
     (if (case allowed of Some a \<Rightarrow> \<not> candidates \<subseteq> a | None \<Rightarrow> False) then None
      else if candidates = {} then
        (if card defaults = 1 then
           (let d = the_elem defaults in
            if (case allowed of None \<Rightarrow> True | Some a \<Rightarrow> d \<in> a) then Some d else None)
         else None)
      else if card candidates = 1 then Some (the_elem candidates)
      else if candidates \<subseteq> {INT_T, FLOAT} then Some FLOAT
      else None)"

definition conflict :: "port_type set \<Rightarrow> port_type set option \<Rightarrow> port_type set" where
  "conflict candidates allowed =
     (case allowed of
        Some a \<Rightarrow>
          if \<not> candidates \<subseteq> a then (if candidates - a = {} then candidates else candidates - a)
          else if card candidates \<le> 1 \<or> candidates \<subseteq> {INT_T, FLOAT} then {} else candidates
      | None \<Rightarrow> if card candidates \<le> 1 \<or> candidates \<subseteq> {INT_T, FLOAT} then {} else candidates)"

definition groups_resolve :: "'k \<Rightarrow> 'k type_groups \<Rightarrow> (port_type option \<times> 'k type_groups) res" where
  "groups_resolve key g =
     bind_res (groups_find key g) (\<lambda>(r, g).
       Inr (decide (get_set (tg_candidates g) r) (fmlookup (tg_allowed g) r) (get_set (tg_defaults g) r), g))"

definition groups_conflict :: "'k \<Rightarrow> 'k type_groups \<Rightarrow> (port_type set \<times> 'k type_groups) res" where
  "groups_conflict key g =
     bind_res (groups_find key g) (\<lambda>(r, g).
       Inr (conflict (get_set (tg_candidates g) r) (fmlookup (tg_allowed g) r), g))"

section \<open>Roots\<close>

inductive leads :: "'k::linorder parents \<Rightarrow> 'k \<Rightarrow> 'k \<Rightarrow> bool" for m where
  here: "fmlookup m r = Some r \<Longrightarrow> leads m r r"
| up: "fmlookup m k = Some p \<Longrightarrow> p \<noteq> k \<Longrightarrow> leads m p r \<Longrightarrow> leads m k r"

inductive_cases leadsE: "leads m k r"

definition parents_ok :: "'k::linorder parents \<Rightarrow> bool" where
  "parents_ok m \<longleftrightarrow> (\<forall>k p. fmlookup m k = Some p \<longrightarrow> p |\<in>| fmdom m \<and> p \<le> k)"

lemma leads_root: "leads m k r \<Longrightarrow> fmlookup m r = Some r"
  by (induction rule: leads.induct)

lemma leads_det: "leads m k r \<Longrightarrow> leads m k r' \<Longrightarrow> r = r'"
proof (induction rule: leads.induct)
  case (here r)
  then show ?case by (auto elim: leadsE)
next
  case (up k p r)
  have "leads m p r'"
    using up.prems up.hyps(1,2) by (auto elim: leadsE)
  then show ?case by (rule up.IH)
qed

lemma leads_dom: "leads m k r \<Longrightarrow> k |\<in>| fmdom m"
  by (auto elim: leadsE simp: fmlookup_dom_iff)

lemma leads_le: "leads m k r \<Longrightarrow> parents_ok m \<Longrightarrow> r \<le> k"
proof (induction rule: leads.induct)
  case (up k p r)
  then have "p \<le> k" by (simp add: parents_ok_def)
  with up show ?case by auto
qed simp

definition rank :: "'k::linorder parents \<Rightarrow> 'k \<Rightarrow> nat" where
  "rank m k = card {x \<in> fset (fmdom m). x < k}"

lemma rank_less: "k |\<in>| fmdom m \<Longrightarrow> rank m k < fcard (fmdom m)"
  unfolding rank_def fcard.rep_eq by (intro psubset_card_mono) auto

lemma rank_parent: "parents_ok m \<Longrightarrow> fmlookup m k = Some p \<Longrightarrow> p \<noteq> k \<Longrightarrow> rank m p < rank m k"
proof -
  assume ok: "parents_ok m" and p: "fmlookup m k = Some p" "p \<noteq> k"
  then have lt: "p < k" and dom: "p |\<in>| fmdom m" by (auto simp: parents_ok_def order_less_le)
  have "{x \<in> fset (fmdom m). x < p} \<subset> {x \<in> fset (fmdom m). x < k}"
    using lt dom by (auto intro: less_trans)
  then show ?thesis unfolding rank_def by (intro psubset_card_mono) auto
qed

text \<open>Pointing a key directly at its root changes no root.\<close>

lemma leads_compress:
  assumes ok: "parents_ok m" and k: "leads m k r" "r \<noteq> k"
  shows "parents_ok (fmupd k r m)" and "leads (fmupd k r m) x y \<longleftrightarrow> leads m x y"
proof -
  have root: "fmlookup m r = Some r" by (rule leads_root [OF k(1)])
  show "parents_ok (fmupd k r m)"
    using ok leads_le [OF k(1) ok] leads_dom [OF k(1)] root
    by (auto simp: parents_ok_def fmlookup_dom_iff)
  have one: "leads m x y \<Longrightarrow> leads (fmupd k r m) x y" for x y
  proof (induction rule: leads.induct)
    case (here y)
    then have "y \<noteq> k" using k leads_det leads.here by blast
    with here show ?case by (auto intro: leads.here)
  next
    case (up x p y)
    show ?case
    proof (cases "x = k")
      case True
      then have "y = r" using k(1) up.hyps leads.up leads_det by blast
      have "leads (fmupd k r m) r r" using root k(2) by (auto intro: leads.here)
      then show ?thesis using True k(2) \<open>y = r\<close> by (auto intro: leads.up)
    next
      case False
      with up show ?thesis by (auto intro: leads.up)
    qed
  qed
  have two: "leads (fmupd k r m) x y \<Longrightarrow> leads m x y" for x y
  proof (induction rule: leads.induct)
    case (here y)
    then show ?case using k(2) by (auto split: if_splits intro: leads.here)
  next
    case (up x p y)
    show ?case
    proof (cases "x = k")
      case True
      with up have "p = r" by simp
      then have "y = r" using up.IH leads.here [of m r] root leads_det by blast
      with True k(1) show ?thesis by simp
    next
      case False
      with up show ?thesis by (auto intro: leads.up)
    qed
  qed
  show "leads (fmupd k r m) x y \<longleftrightarrow> leads m x y" using one two by blast
qed

lemma find_root_leads:
  assumes "parents_ok m" and "k |\<in>| fmdom m" and "rank m k \<le> n"
  shows "\<exists>r m'. find_root n m k = Inr (r, m') \<and> leads m k r \<and> parents_ok m' \<and>
    fmdom m' = fmdom m \<and> (\<forall>x y. leads m' x y \<longleftrightarrow> leads m x y)"
  using assms
proof (induction n arbitrary: k)
  case 0
  then obtain p where p: "fmlookup m k = Some p" by (auto simp: fmlookup_dom_iff)
  with 0 have "p = k" using rank_parent [of m k p] by (cases "p = k") auto
  with 0 p show ?case by (auto simp: find_root.simps [of 0] intro: leads.here)
next
  case (Suc n)
  then obtain p where p: "fmlookup m k = Some p" by (auto simp: fmlookup_dom_iff)
  show ?case
  proof (cases "p = k")
    case True
    with Suc p show ?thesis by (auto simp: find_root.simps [of "Suc n"] intro: leads.here)
  next
    case False
    have "rank m p \<le> n" using rank_parent [OF Suc.prems(1) p False] Suc.prems(3) by simp
    moreover have "p |\<in>| fmdom m" using Suc.prems(1) p by (simp add: parents_ok_def)
    ultimately obtain r m' where r: "find_root n m p = Inr (r, m')" "leads m p r" "parents_ok m'"
      "fmdom m' = fmdom m" "\<forall>x y. leads m' x y \<longleftrightarrow> leads m x y"
      using Suc.IH [OF Suc.prems(1)] by blast
    have k: "leads m k r" using leads.up [OF p False r(2)] .
    have "p < k" using p False Suc.prems(1) by (auto simp: parents_ok_def order_less_le)
    then have "r \<noteq> k" using leads_le [OF r(2) Suc.prems(1)] by auto
    then have c: "parents_ok (fmupd k r m')" "leads (fmupd k r m') x y \<longleftrightarrow> leads m' x y" for x y
      using leads_compress [OF r(3), of k r] k r(5) by auto
    have "find_root (Suc n) m k = Inr (r, fmupd k r m')"
      using p False r(1) by (simp add: find_root.simps [of "Suc n"])
    moreover have "fmdom (fmupd k r m') = fmdom m" using Suc.prems(2) r(4) by auto
    ultimately show ?thesis using c k r(5) by blast
  qed
qed

lemma groups_find_leads:
  assumes "parents_ok (tg_parent g)" and "k |\<in>| fmdom (tg_parent g)"
  shows "\<exists>r m'. groups_find k g = Inr (r, g\<lparr>tg_parent := m'\<rparr>) \<and> leads (tg_parent g) k r \<and> parents_ok m' \<and>
    fmdom m' = fmdom (tg_parent g) \<and> (\<forall>x y. leads m' x y \<longleftrightarrow> leads (tg_parent g) x y)"
proof -
  have "rank (tg_parent g) k \<le> fcard (fmdom (tg_parent g))"
    using rank_less [OF assms(2)] by simp
  from find_root_leads [OF assms this] show ?thesis by (auto simp: groups_find_def)
qed

text \<open>Linking the root \<open>c\<close> under the root \<open>r\<close>.\<close>

lemma leads_link:
  assumes "parents_ok m" and "fmlookup m r = Some r" and "fmlookup m c = Some c" and "r < c"
  shows "parents_ok (fmupd c r m)"
    and "leads (fmupd c r m) x y \<longleftrightarrow> (if leads m x c then y = r else leads m x y)"
proof -
  show "parents_ok (fmupd c r m)"
    using assms by (auto simp: parents_ok_def fmlookup_dom_iff)
  have r: "leads (fmupd c r m) r r" using assms(2,4) by (auto intro: leads.here)
  have one: "leads m x z \<Longrightarrow> leads (fmupd c r m) x (if z = c then r else z)" for x z
  proof (induction rule: leads.induct)
    case (here z)
    then show ?case using r assms(4) by (auto intro: leads.here leads.up)
  next
    case (up x p z)
    then have "x \<noteq> c" using assms(3) by auto
    with up show ?case by (auto intro: leads.up)
  qed
  have dom: "leads (fmupd c r m) x z \<Longrightarrow> \<exists>w. leads m x w" for x z
  proof (induction rule: leads.induct)
    case (here z)
    then show ?case using assms(3,4) by (auto split: if_splits intro: leads.here)
  next
    case (up x p z)
    show ?case
    proof (cases "x = c")
      case True
      then show ?thesis using leads.here [OF assms(3)] by blast
    next
      case False
      from up.IH obtain w where "leads m p w" by blast
      moreover have "fmlookup m x = Some p" using False up.hyps(1) by simp
      ultimately show ?thesis using up.hyps(2) leads.up by blast
    qed
  qed
  show "leads (fmupd c r m) x y \<longleftrightarrow> (if leads m x c then y = r else leads m x y)"
  proof (cases "leads m x c")
    case True
    from one [OF this] have l: "leads (fmupd c r m) x r" by simp
    then have "leads (fmupd c r m) x y \<longleftrightarrow> y = r" using leads_det [OF _ l] by blast
    with True show ?thesis by simp
  next
    case False
    have "leads (fmupd c r m) x y \<Longrightarrow> leads m x y"
    proof -
      assume y: "leads (fmupd c r m) x y"
      then obtain w where w: "leads m x w" using dom by blast
      with False have "w \<noteq> c" by blast
      with one [OF w] have "leads (fmupd c r m) x w" by simp
      from leads_det [OF y this] w show "leads m x y" by simp
    qed
    moreover have "leads m x y \<Longrightarrow> leads (fmupd c r m) x y"
      using False one [of x y] by (cases "y = c") auto
    ultimately show ?thesis using False by auto
  qed
qed

section \<open>What the constraints mean\<close>

datatype 'k constraint = Same 'k 'k | Bound 'k port_type

type_synonym 'k var_decl = "'k \<times> port_type set \<times> port_type option"

definition same :: "'k constraint list \<Rightarrow> 'k \<Rightarrow> 'k \<Rightarrow> bool" where
  "same cs = (\<lambda>x y. Same x y \<in> set cs \<or> Same y x \<in> set cs)\<^sup>*\<^sup>*"

text \<open>Everything some key of the class of \<open>k\<close> contributes.\<close>

definition gather :: "'k constraint list \<Rightarrow> ('k \<Rightarrow> 'a \<Rightarrow> bool) \<Rightarrow> 'k \<Rightarrow> 'a set" where
  "gather cs q k = {x. \<exists>k'. same cs k k' \<and> q k' x}"

definition class_candidates :: "'k constraint list \<Rightarrow> 'k \<Rightarrow> port_type set" where
  "class_candidates cs = gather cs (\<lambda>k t. Bound k t \<in> set cs)"

definition meet :: "port_type set set \<Rightarrow> port_type set option" where
  "meet s = (if s = {} then None else Some (\<Inter> s))"

definition declares :: "'k var_decl list \<Rightarrow> 'k \<Rightarrow> port_type set \<Rightarrow> bool" where
  "declares ds k a \<longleftrightarrow> a \<noteq> {} \<and> (\<exists>d. (k, a, d) \<in> set ds)"

definition has_default :: "'k var_decl list \<Rightarrow> 'k \<Rightarrow> port_type \<Rightarrow> bool" where
  "has_default ds k d \<longleftrightarrow> (\<exists>a. (k, a, Some d) \<in> set ds)"

definition class_allowed :: "'k var_decl list \<Rightarrow> 'k constraint list \<Rightarrow> 'k \<Rightarrow> port_type set option" where
  "class_allowed ds cs k = meet (gather cs (declares ds) k)"

definition class_defaults :: "'k var_decl list \<Rightarrow> 'k constraint list \<Rightarrow> 'k \<Rightarrow> port_type set" where
  "class_defaults ds cs = gather cs (has_default ds)"

text \<open>Running the declarations, then the constraints, as the compiler does.\<close>

definition run_declarations :: "'k var_decl list \<Rightarrow> 'k type_groups" where
  "run_declarations ds = fold (\<lambda>(k, a, d). groups_add k a d) ds groups_init"

fun run_constraint :: "'k::linorder constraint \<Rightarrow> 'k type_groups \<Rightarrow> 'k type_groups res" where
  "run_constraint (Same a b) g = groups_union a b g"
| "run_constraint (Bound k t) g = groups_constrain k t g"

definition run_groups :: "'k::linorder var_decl list \<Rightarrow> 'k constraint list \<Rightarrow> 'k type_groups res" where
  "run_groups ds cs = foldM run_constraint cs (run_declarations ds)"

fun constraint_keys :: "'k constraint \<Rightarrow> 'k set" where
  "constraint_keys (Same a b) = {a, b}"
| "constraint_keys (Bound k t) = {k}"

lemma same_refl [simp]: "same cs k k"
  by (simp add: same_def)

lemma same_Nil [simp]: "same [] a b \<longleftrightarrow> a = b"
proof
  assume "same [] a b"
  then show "a = b" unfolding same_def by (induction rule: rtranclp_induct) simp_all
qed simp

lemma gather_Nil [simp]: "gather [] q k = {x. q k x}"
  by (simp add: gather_def)

lemma same_sym:
  assumes "same cs a b"
  shows "same cs b a"
  using assms unfolding same_def
proof (induction rule: rtranclp_induct)
  case (step y z)
  then show ?case by (auto intro: converse_rtranclp_into_rtranclp)
qed simp

lemma same_trans: "same cs a b \<Longrightarrow> same cs b c \<Longrightarrow> same cs a c"
  unfolding same_def by (rule rtranclp_trans)

lemma same_Bound [simp]: "same (cs @ [Bound k t]) = same cs"
  by (simp add: same_def)

lemma same_mono: "same cs a b \<Longrightarrow> same (cs @ ds) a b"
  unfolding same_def by (rule rtranclp_mono [THEN predicate2D, rotated]) auto

lemma same_snoc:
  "same (cs @ [Same a b]) x y \<longleftrightarrow>
     same cs x y \<or> (same cs x a \<and> same cs b y) \<or> (same cs x b \<and> same cs a y)"
proof
  have ab: "same (cs @ [Same a b]) a b" unfolding same_def by (rule r_into_rtranclp) simp
  assume "same cs x y \<or> (same cs x a \<and> same cs b y) \<or> (same cs x b \<and> same cs a y)"
  then show "same (cs @ [Same a b]) x y"
    using ab same_sym [OF ab] same_mono [of cs _ _ "[Same a b]"] by (meson same_trans)
next
  assume "same (cs @ [Same a b]) x y"
  then show "same cs x y \<or> (same cs x a \<and> same cs b y) \<or> (same cs x b \<and> same cs a y)"
    unfolding same_def [of "cs @ [Same a b]"]
  proof (induction rule: rtranclp_induct)
    case (step y z)
    then have "same cs y z \<or> (y = a \<and> z = b) \<or> (y = b \<and> z = a)"
      by (auto simp: same_def intro: r_into_rtranclp)
    with step.IH show ?case by (metis same_refl same_sym same_trans)
  qed simp
qed

lemma gather_same: "same cs k k' \<Longrightarrow> gather cs q k = gather cs q k'"
  unfolding gather_def by (auto intro: same_trans same_sym)

lemma gather_snoc:
  "gather (cs @ [Same a b]) q k =
     (if same cs k a \<or> same cs k b then gather cs q a \<union> gather cs q b else gather cs q k)"
proof (cases "same cs k a \<or> same cs k b")
  case True
  have "same (cs @ [Same a b]) k k' \<longleftrightarrow> same cs a k' \<or> same cs b k'" for k'
    unfolding same_snoc using True by (metis same_sym same_trans)
  with True show ?thesis by (auto simp: gather_def)
next
  case False
  then have "same (cs @ [Same a b]) k k' \<longleftrightarrow> same cs k k'" for k' unfolding same_snoc by blast
  with False show ?thesis by (simp add: gather_def)
qed

lemma meet_union: "meet (s \<union> t) = merge_allowed (meet s) (meet t)"
  by (auto simp: meet_def merge_allowed_def)

lemma meet_insert: "meet (insert a s) = Some (case meet s of None \<Rightarrow> a | Some c \<Rightarrow> c \<inter> a)"
  by (auto simp: meet_def)

section \<open>The structure implements the constraints\<close>

definition entries_at_roots :: "'k type_groups \<Rightarrow> bool" where
  "entries_at_roots g \<longleftrightarrow> (\<forall>k. k |\<in>| fmdom (tg_candidates g) \<or> k |\<in>| fmdom (tg_allowed g) \<or>
     k |\<in>| fmdom (tg_defaults g) \<longrightarrow> fmlookup (tg_parent g) k = Some k)"

definition holds :: "'k var_decl list \<Rightarrow> 'k constraint list \<Rightarrow> 'k type_groups \<Rightarrow> 'k \<Rightarrow> bool" where
  "holds ds cs g r \<longleftrightarrow> get_set (tg_candidates g) r = class_candidates cs r \<and>
     fmlookup (tg_allowed g) r = class_allowed ds cs r \<and> get_set (tg_defaults g) r = class_defaults ds cs r"

definition correct :: "'k::linorder var_decl list \<Rightarrow> 'k constraint list \<Rightarrow> 'k type_groups \<Rightarrow> bool" where
  "correct ds cs g \<longleftrightarrow> parents_ok (tg_parent g) \<and> fset (fmdom (tg_parent g)) = fst ` set ds \<and>
     entries_at_roots g \<and>
     (\<forall>a b r. leads (tg_parent g) a r \<longrightarrow> b \<in> fst ` set ds \<longrightarrow> (leads (tg_parent g) b r \<longleftrightarrow> same cs a b)) \<and>
     (\<forall>r. fmlookup (tg_parent g) r = Some r \<longrightarrow> holds ds cs g r)"

text \<open>Declarations only: every key is its own root.\<close>

lemma fold_add:
  "\<lbrakk>\<forall>k. fmlookup (tg_parent g) k = (if k \<in> fst ` set ds0 then Some k else None);
    tg_candidates g = fmempty; entries_at_roots g; \<forall>k. holds ds0 [] g k\<rbrakk> \<Longrightarrow>
   (let g' = fold (\<lambda>(k, a, d). groups_add k a d) ds g in
     (\<forall>k. fmlookup (tg_parent g') k = (if k \<in> fst ` set (ds0 @ ds) then Some k else None)) \<and>
     tg_candidates g' = fmempty \<and> entries_at_roots g' \<and> (\<forall>k. holds (ds0 @ ds) [] g' k))"
proof (induction ds arbitrary: g ds0)
  case Nil
  then show ?case by simp
next
  case (Cons x ds)
  obtain k a d where x: "x = (k, a, d)" by (cases x)
  let ?g = "groups_add k a d g"
  have dec: "{y. declares (ds0 @ [(k, a, d)]) p y} =
      (if p = k \<and> a \<noteq> {} then insert a {y. declares ds0 p y} else {y. declares ds0 p y})" for p
    by (auto simp: declares_def)
  have dfl: "{y. has_default (ds0 @ [(k, a, d)]) p y} =
      (if p = k then {y. has_default ds0 p y} \<union> set_option d else {y. has_default ds0 p y})" for p
    by (auto simp: has_default_def split: option.splits)
  have p: "\<forall>q. fmlookup (tg_parent ?g) q = (if q \<in> fst ` set (ds0 @ [(k, a, d)]) then Some q else None)"
    using Cons.prems(1) by (auto simp: groups_add_def Let_def fmlookup_dom_iff split: option.split)
  have c: "tg_candidates ?g = fmempty" using Cons.prems(2) by (simp add: groups_add_def Let_def split: option.split)
  have e: "entries_at_roots ?g"
    using Cons.prems(3) p unfolding entries_at_roots_def c
    by (auto simp: groups_add_def Let_def split: option.splits if_splits)
  have h: "holds (ds0 @ [(k, a, d)]) [] ?g q" for q
  proof -
    have old: "get_set (tg_candidates g) q = class_candidates [] q"
      "fmlookup (tg_allowed g) q = class_allowed ds0 [] q" "get_set (tg_defaults g) q = class_defaults ds0 [] q"
      using Cons.prems(4) by (simp_all add: holds_def)
    have "fmlookup (tg_allowed ?g) q = class_allowed (ds0 @ [(k, a, d)]) [] q"
    proof -
      have "fmlookup (tg_allowed ?g) q = (if q = k \<and> a \<noteq> {} then
          Some (case fmlookup (tg_allowed g) q of None \<Rightarrow> a | Some c \<Rightarrow> c \<inter> a) else fmlookup (tg_allowed g) q)"
        by (simp add: groups_add_def Let_def split: option.split)
      then show ?thesis
        unfolding old(2) class_allowed_def gather_Nil dec by (simp add: meet_insert)
    qed
    moreover have "get_set (tg_defaults ?g) q = class_defaults (ds0 @ [(k, a, d)]) [] q"
    proof -
      have "get_set (tg_defaults ?g) q = (if q = k then get_set (tg_defaults g) q \<union> set_option d
          else get_set (tg_defaults g) q)"
        by (cases d) (simp_all add: groups_add_def Let_def get_set_def)
      then show ?thesis unfolding old(3) class_defaults_def gather_Nil dfl .
    qed
    ultimately show ?thesis using old(1) by (simp add: holds_def c Cons.prems(2))
  qed
  from Cons.IH [OF p c e] h show ?case by (simp add: x)
qed

lemma correct_declarations: "correct ds [] (run_declarations ds)"
proof -
  let ?g = "run_declarations ds"
  have init: "\<forall>k :: 'a. holds [] [] groups_init k" "entries_at_roots groups_init"
    "\<forall>k :: 'a. fmlookup (tg_parent groups_init) k = (if k \<in> fst ` set [] then Some k else None)"
    "tg_candidates groups_init = fmempty"
    by (simp_all add: holds_def groups_init_def get_set_def class_candidates_def class_allowed_def
        class_defaults_def declares_def has_default_def meet_def entries_at_roots_def)
  have p: "\<forall>k. fmlookup (tg_parent ?g) k = (if k \<in> fst ` set ds then Some k else None)"
    and e: "entries_at_roots ?g" and h: "\<forall>k. holds ds [] ?g k"
    using fold_add [OF init(3,4,2,1), of ds]
    by (simp_all add: run_declarations_def Let_def)
  have l: "leads (tg_parent ?g) a r \<longleftrightarrow> a = r \<and> a \<in> fst ` set ds" for a r
  proof
    assume "leads (tg_parent ?g) a r"
    then show "a = r \<and> a \<in> fst ` set ds"
    proof (cases rule: leads.cases)
      case here
      with spec [OF p, of a] show ?thesis by (simp split: if_splits)
    next
      case (up q)
      with spec [OF p, of a] show ?thesis by (simp split: if_splits)
    qed
  next
    assume as: "a = r \<and> a \<in> fst ` set ds"
    then have "a \<in> fst ` set ds" by (rule conjunct2)
    then have "fmlookup (tg_parent ?g) a = Some a" by (simp only: spec [OF p, of a] if_True)
    then have "leads (tg_parent ?g) a a" by (rule leads.here)
    with as show "leads (tg_parent ?g) a r" by blast
  qed
  have dom: "k |\<in>| fmdom (tg_parent ?g) \<longleftrightarrow> k \<in> fst ` set ds" for k
    unfolding fmlookup_dom_iff spec [OF p, of k] by simp
  have up: "fmlookup (tg_parent ?g) k = Some q \<Longrightarrow> q = k \<and> k \<in> fst ` set ds" for k q
    unfolding spec [OF p, of k] by (simp split: if_splits)
  have "fset (fmdom (tg_parent ?g)) = fst ` set ds" using dom by blast
  moreover have "parents_ok (tg_parent ?g)" unfolding parents_ok_def using up dom by blast
  ultimately show ?thesis
    using e h l by (auto simp: correct_def)
qed

text \<open>Path compression keeps correctness.\<close>

lemma correct_parents:
  assumes "correct ds cs g" and "parents_ok m" and "fmdom m = fmdom (tg_parent g)"
    and "\<forall>x y. leads m x y \<longleftrightarrow> leads (tg_parent g) x y"
  shows "correct ds cs (g\<lparr>tg_parent := m\<rparr>)"
proof -
  have root: "fmlookup m r = Some r \<longleftrightarrow> fmlookup (tg_parent g) r = Some r" for r
    using assms(4) leads_root leads.here by metis
  with assms show ?thesis
    by (simp add: correct_def entries_at_roots_def holds_def)
qed

lemma correct_find:
  assumes "correct ds cs g" and "k \<in> fst ` set ds"
  shows "\<exists>r g'. groups_find k g = Inr (r, g') \<and> correct ds cs g' \<and> leads (tg_parent g') k r \<and>
    (\<forall>x y. leads (tg_parent g') x y \<longleftrightarrow> leads (tg_parent g) x y)"
proof -
  have "parents_ok (tg_parent g)" "k |\<in>| fmdom (tg_parent g)"
    using assms by (simp_all add: correct_def)
  from groups_find_leads [OF this] obtain r m where m: "groups_find k g = Inr (r, g\<lparr>tg_parent := m\<rparr>)"
    "leads (tg_parent g) k r" "parents_ok m" "fmdom m = fmdom (tg_parent g)"
    "\<forall>x y. leads m x y \<longleftrightarrow> leads (tg_parent g) x y" by blast
  from correct_parents [OF assms(1) m(3-5)] m show ?thesis by auto
qed

lemma holds_same:
  assumes "same cs a b"
  shows "class_candidates cs a = class_candidates cs b" and "class_allowed ds cs a = class_allowed ds cs b"
    and "class_defaults ds cs a = class_defaults ds cs b"
  by (simp_all add: class_candidates_def class_allowed_def class_defaults_def gather_same [OF assms])

lemma correct_leads_same:
  assumes "correct ds cs g" and "leads (tg_parent g) a r"
  shows "same cs a r" and "a \<in> fst ` set ds" and "r \<in> fst ` set ds"
proof -
  have rr: "leads (tg_parent g) r r" by (rule leads.here [OF leads_root [OF assms(2)]])
  show "a \<in> fst ` set ds" "r \<in> fst ` set ds"
    using assms leads_dom [OF assms(2)] leads_dom [OF rr] by (auto simp: correct_def)
  then show "same cs a r" using assms rr unfolding correct_def by blast
qed

lemma correct_constrain:
  assumes "correct ds cs g" and "k \<in> fst ` set ds"
  shows "\<exists>g'. groups_constrain k t g = Inr g' \<and> correct ds (cs @ [Bound k t]) g'"
proof -
  obtain r g1 where f: "groups_find k g = Inr (r, g1)" and c: "correct ds cs g1" and l: "leads (tg_parent g1) k r"
    using correct_find [OF assms] by blast
  let ?g = "g1\<lparr>tg_candidates := fmupd r (insert t (get_set (tg_candidates g1) r)) (tg_candidates g1)\<rparr>"
  have root: "fmlookup (tg_parent g1) r = Some r" by (rule leads_root [OF l])
  have cand: "class_candidates (cs @ [Bound k t]) x =
      (if same cs x k then insert t (class_candidates cs x) else class_candidates cs x)" for x
    unfolding class_candidates_def gather_def same_Bound by auto
  have other: "class_allowed ds (cs @ [Bound k t]) = class_allowed ds cs"
    "class_defaults ds (cs @ [Bound k t]) = class_defaults ds cs"
    by (simp_all add: class_allowed_def class_defaults_def gather_def fun_eq_iff)
  have h: "holds ds (cs @ [Bound k t]) ?g x" if "fmlookup (tg_parent g1) x = Some x" for x
  proof -
    have "holds ds cs g1 x" using c that by (simp add: correct_def)
    moreover have "same cs x k \<longleftrightarrow> x = r"
    proof
      assume "same cs x k"
      then have "leads (tg_parent g1) k x"
        using c leads.here [OF that] assms(2) unfolding correct_def by blast
      with l show "x = r" by (blast dest: leads_det)
    next
      assume "x = r"
      with correct_leads_same(1) [OF c l] show "same cs x k" by (blast intro: same_sym)
    qed
    ultimately show ?thesis
      by (auto simp: holds_def cand other get_set_def)
  qed
  have "correct ds (cs @ [Bound k t]) ?g"
    using c h root by (auto simp: correct_def entries_at_roots_def)
  then show ?thesis by (auto simp: groups_constrain_def f)
qed

lemma link_entries:
  assumes "r \<noteq> c"
  shows "get_set (tg_candidates (link r c g)) x =
      (if x = r then get_set (tg_candidates g) r \<union> get_set (tg_candidates g) c
       else if x = c then {} else get_set (tg_candidates g) x)"
    and "fmlookup (tg_allowed (link r c g)) x =
      (if x = r then merge_allowed (fmlookup (tg_allowed g) r) (fmlookup (tg_allowed g) c)
       else if x = c then None else fmlookup (tg_allowed g) x)"
    and "get_set (tg_defaults (link r c g)) x =
      (if x = r then get_set (tg_defaults g) r \<union> get_set (tg_defaults g) c
       else if x = c then {} else get_set (tg_defaults g) x)"
    and "tg_parent (link r c g) = fmupd c r (tg_parent g)"
  using assms
  by (auto simp: link_def Let_def get_set_def merge_allowed_def split: option.split)

lemma correct_link:
  assumes c: "correct ds cs g" and a: "leads (tg_parent g) a ra" and b: "leads (tg_parent g) b rb"
    and rc: "(r = ra \<and> c = rb) \<or> (r = rb \<and> c = ra)" and less: "r < c"
  shows "correct ds (cs @ [Same a b]) (link r c g)"
proof -
  let ?P = "tg_parent g" and ?cs = "cs @ [Same a b]" and ?g = "link r c g"
  have roots: "fmlookup ?P r = Some r" "fmlookup ?P c = Some c"
    using rc leads_root [OF a] leads_root [OF b] by auto
  have ok: "parents_ok ?P" and dom: "fset (fmdom ?P) = fst ` set ds" and ent: "entries_at_roots g"
    and eq: "\<And>x y z. leads ?P x z \<Longrightarrow> y \<in> fst ` set ds \<Longrightarrow> (leads ?P y z \<longleftrightarrow> same cs x y)"
    and h: "\<And>z. fmlookup ?P z = Some z \<Longrightarrow> holds ds cs g z"
    using c unfolding correct_def by blast+
  note ll = leads_link [OF ok roots less]
  have sr: "same cs a ra" "same cs b rb" using correct_leads_same(1) [OF c] a b by blast+
  have ab: "same cs x a \<or> same cs x b \<longleftrightarrow> same cs x r \<or> same cs x c" for x
    using rc sr by (metis same_sym same_trans)
  have merged: "same ?cs x y \<longleftrightarrow> same cs x y \<or> (same cs x r \<or> same cs x c) \<and> (same cs y r \<or> same cs y c)" for x y
    unfolding same_snoc using rc sr by (metis same_sym same_trans)
  have part: "leads (fmupd c r ?P) y z \<longleftrightarrow> same ?cs x y" if x: "leads (fmupd c r ?P) x z" and y: "y \<in> fst ` set ds" for x y z
  proof -
    have iff: "leads ?P u v \<longleftrightarrow> same cs u v" if "fmlookup ?P v = Some v" "u \<in> fst ` set ds" for u v
      using eq [OF leads.here [OF that(1)] that(2)] same_sym by metis
    have xd: "x \<in> fst ` set ds" and cd: "c \<in> fst ` set ds" "r \<in> fst ` set ds"
      using leads_dom [OF x] roots dom by (auto simp: fmlookup_dom_iff)
    have rc': "\<not> same cs r c" using iff [OF roots(2) cd(2)] leads_det [OF leads.here [OF roots(1)]] less by blast
    show ?thesis
    proof (cases "leads ?P x c")
      case True
      then have "z = r" using x ll(2) by simp
      then show ?thesis
        using True iff [OF roots(2) xd] iff [OF roots(2) y] iff [OF roots(1) y] merged [of x y] ll(2) [of y r]
        by (metis same_sym same_trans)
    next
      case False
      then have xz: "leads ?P x z" using x ll(2) by simp
      have zz: "fmlookup ?P z = Some z" by (rule leads_root [OF xz])
      have "same cs x z" using iff [OF zz xd] xz by simp
      moreover have "z \<noteq> c" using False xz by blast
      ultimately show ?thesis
        using xz eq [OF xz y] iff [OF roots(2) xd] iff [OF roots(1) xd] iff [OF roots(2) y] iff [OF roots(1) y]
          False merged [of x y] ll(2) [of y z] leads_det [of ?P] by (smt (verit) same_sym same_trans)
    qed
  qed
  have iff0: "same cs z w \<Longrightarrow> z = w" if "fmlookup ?P z = Some z" "fmlookup ?P w = Some w" for z w
  proof -
    have "w \<in> fst ` set ds" using that dom by (auto simp: fmlookup_dom_iff)
    then show "same cs z w \<Longrightarrow> z = w"
      using eq [OF leads.here [OF that(1)]] leads_det [OF _ leads.here [OF that(2)]] by metis
  qed
  have merged_sets: "gather ?cs q x = (if same cs x r \<or> same cs x c then gather cs q r \<union> gather cs q c else gather cs q x)"
    for q :: "'a \<Rightarrow> port_type \<Rightarrow> bool" and x
    unfolding gather_snoc ab using rc gather_same [OF sr(1), of q] gather_same [OF sr(2), of q] by auto
  have merged_sets': "gather ?cs q x = (if same cs x r \<or> same cs x c then gather cs q r \<union> gather cs q c else gather cs q x)"
    for q :: "'a \<Rightarrow> port_type set \<Rightarrow> bool" and x
    unfolding gather_snoc ab using rc gather_same [OF sr(1), of q] gather_same [OF sr(2), of q] by auto
  have bound: "(\<lambda>k t. Bound k t \<in> set ?cs) = (\<lambda>k t. Bound k t \<in> set cs)" by (simp add: fun_eq_iff)
  have "r \<noteq> c" using less by simp
  note le = link_entries [OF this, of g]
  have hz: "holds ds ?cs ?g z" if z: "fmlookup (fmupd c r ?P) z = Some z" for z
  proof (cases "z = r")
    case True
    with h [OF roots(1)] h [OF roots(2)] \<open>r \<noteq> c\<close> show ?thesis
      by (simp add: holds_def le class_candidates_def class_allowed_def class_defaults_def bound
          merged_sets merged_sets' meet_union)
  next
    case False
    have pz: "fmlookup ?P z = Some z" and zc: "z \<noteq> c" using z \<open>r \<noteq> c\<close> by (auto split: if_splits)
    have "\<not> same cs z r" "\<not> same cs z c" using iff0 [OF pz] roots False zc by blast+
    with h [OF pz] False zc show ?thesis
      by (simp add: holds_def le class_candidates_def class_allowed_def class_defaults_def bound
          merged_sets merged_sets')
  qed
  have "entries_at_roots ?g"
    unfolding entries_at_roots_def le(4)
  proof (intro allI impI)
    fix k
    assume "k |\<in>| fmdom (tg_candidates ?g) \<or> k |\<in>| fmdom (tg_allowed ?g) \<or> k |\<in>| fmdom (tg_defaults ?g)"
    then have "k \<noteq> c \<and> (k = r \<or> k |\<in>| fmdom (tg_candidates g) \<or> k |\<in>| fmdom (tg_allowed g) \<or> k |\<in>| fmdom (tg_defaults g))"
      using \<open>r \<noteq> c\<close> by (auto simp: link_def Let_def split: if_splits option.splits)
    with ent roots show "fmlookup (fmupd c r ?P) k = Some k" by (auto simp: entries_at_roots_def)
  qed
  moreover have "fset (fmdom (fmupd c r ?P)) = fst ` set ds"
    using dom roots(2) by (auto simp: fmlookup_dom_iff)
  ultimately show ?thesis
    using ll(1) part hz unfolding correct_def le(4) by blast
qed

lemma correct_union:
  assumes "correct ds cs g" and "a \<in> fst ` set ds" and "b \<in> fst ` set ds"
  shows "\<exists>g'. groups_union a b g = Inr g' \<and> correct ds (cs @ [Same a b]) g'"
proof -
  obtain ra g1 where f1: "groups_find a g = Inr (ra, g1)" and c1: "correct ds cs g1" and l1: "leads (tg_parent g1) a ra"
    using correct_find [OF assms(1,2)] by blast
  obtain rb g2 where f2: "groups_find b g1 = Inr (rb, g2)" and c2: "correct ds cs g2" and l2: "leads (tg_parent g2) b rb"
    and l12: "\<forall>x y. leads (tg_parent g2) x y \<longleftrightarrow> leads (tg_parent g1) x y"
    using correct_find [OF c1 assms(3)] by blast
  have l1': "leads (tg_parent g2) a ra" using l1 l12 by blast
  show ?thesis
  proof (cases "ra = rb")
    case True
    have "same cs a b" using correct_leads_same(1) [OF c2 l1'] correct_leads_same(1) [OF c2 l2] True
      by (metis same_sym same_trans)
    then have s: "same (cs @ [Same a b]) = same cs"
      unfolding fun_eq_iff same_snoc by (metis same_sym same_trans)
    have "correct ds (cs @ [Same a b]) g2"
      using c2 by (simp add: correct_def holds_def s class_candidates_def class_allowed_def class_defaults_def
          gather_def)
    then show ?thesis by (simp add: groups_union_def f1 f2 True)
  next
    case False
    then have "min ra rb < max ra rb" by (auto simp: min_def max_def)
    moreover have "min ra rb = ra \<and> max ra rb = rb \<or> min ra rb = rb \<and> max ra rb = ra"
      by (auto simp: min_def max_def)
    ultimately have "correct ds (cs @ [Same a b]) (link (min ra rb) (max ra rb) g2)"
      by (intro correct_link [OF c2 l1' l2])
    then show ?thesis by (simp add: groups_union_def f1 f2 False)
  qed
qed

lemma correct_run:
  assumes "\<forall>x \<in> set cs. constraint_keys x \<subseteq> fst ` set ds"
  shows "\<exists>g. run_groups ds cs = Inr g \<and> correct ds cs g"
  using assms
proof (induction cs rule: rev_induct)
  case Nil
  show ?case by (simp add: run_groups_def correct_declarations)
next
  case (snoc x cs)
  then obtain g where g: "run_groups ds cs = Inr g" "correct ds cs g" by auto
  have "\<exists>g'. run_constraint x g = Inr g' \<and> correct ds (cs @ [x]) g'"
  proof (cases x)
    case (Same a b)
    then show ?thesis using correct_union [OF g(2), of a b] snoc.prems by simp
  next
    case (Bound k t)
    then show ?thesis using correct_constrain [OF g(2), of k t] snoc.prems by simp
  qed
  with g(1) show ?case by (auto simp: run_groups_def foldM_append)
qed

lemma correct_queries:
  assumes "correct ds cs g" and "k \<in> fst ` set ds"
  shows "\<exists>g'. groups_resolve k g =
      Inr (decide (class_candidates cs k) (class_allowed ds cs k) (class_defaults ds cs k), g') \<and> correct ds cs g'"
    and "\<exists>g'. groups_conflict k g =
      Inr (conflict (class_candidates cs k) (class_allowed ds cs k), g') \<and> correct ds cs g'"
proof -
  obtain r g' where f: "groups_find k g = Inr (r, g')" and c: "correct ds cs g'" and l: "leads (tg_parent g') k r"
    using correct_find [OF assms] by blast
  have "holds ds cs g' r" using c leads_root [OF l] unfolding correct_def by blast
  with holds_same [OF correct_leads_same(1) [OF c l]]
  have "get_set (tg_candidates g') r = class_candidates cs k" "fmlookup (tg_allowed g') r = class_allowed ds cs k"
    "get_set (tg_defaults g') r = class_defaults ds cs k"
    by (simp_all add: holds_def)
  with f c show "\<exists>g'. groups_resolve k g =
      Inr (decide (class_candidates cs k) (class_allowed ds cs k) (class_defaults ds cs k), g') \<and> correct ds cs g'"
    "\<exists>g'. groups_conflict k g =
      Inr (conflict (class_candidates cs k) (class_allowed ds cs k), g') \<and> correct ds cs g'"
    by (simp_all add: groups_resolve_def groups_conflict_def)
qed

text \<open>
  C30. Type inference by union-find: when every constraint mentions declared variables, running
  the declarations and the constraints never fails, and a variable then resolves to what the
  whole class of variables connected with it determines: the candidate types bound anywhere in the
  class, the intersection of the declared restrictions, and the union of the declared defaults.
\<close>

theorem type_groups_resolve_classes:
  assumes "\<forall>x \<in> set cs. constraint_keys x \<subseteq> fst ` set ds" and "k \<in> fst ` set ds"
  shows "\<exists>g g' g''. run_groups ds cs = Inr g \<and>
    groups_resolve k g = Inr (decide (class_candidates cs k) (class_allowed ds cs k) (class_defaults ds cs k), g') \<and>
    groups_conflict k g = Inr (conflict (class_candidates cs k) (class_allowed ds cs k), g'')"
  using correct_run [OF assms(1)] correct_queries [OF _ assms(2)] by blast

text \<open>
  C31. Inference does not depend on the order in which connections are processed: for two lists
  with the same declarations and the same constraints, every variable resolves to the same type and
  reports the same conflict.
\<close>

theorem type_groups_order_independent:
  assumes "set cs = set cs'" and "set ds = set ds'"
    and "\<forall>x \<in> set cs. constraint_keys x \<subseteq> fst ` set ds" and "k \<in> fst ` set ds"
  shows "\<exists>g g' t g1 g1' u g2 g2'. run_groups ds cs = Inr g \<and> run_groups ds' cs' = Inr g' \<and>
    groups_resolve k g = Inr (t, g1) \<and> groups_resolve k g' = Inr (t, g1') \<and>
    groups_conflict k g = Inr (u, g2) \<and> groups_conflict k g' = Inr (u, g2')"
proof -
  have same: "same cs = same cs'" by (simp add: same_def assms(1))
  have eq: "class_candidates cs k = class_candidates cs' k" "class_allowed ds cs k = class_allowed ds' cs' k"
    "class_defaults ds cs k = class_defaults ds' cs' k"
    by (simp_all add: class_candidates_def class_allowed_def class_defaults_def gather_def same assms(1,2)
        declares_def has_default_def)
  have ok: "\<forall>x \<in> set cs'. constraint_keys x \<subseteq> fst ` set ds'" and k: "k \<in> fst ` set ds'"
    using assms by simp_all
  obtain g where g: "run_groups ds cs = Inr g" "correct ds cs g" using correct_run [OF assms(3)] by blast
  obtain g' where g': "run_groups ds' cs' = Inr g'" "correct ds' cs' g'" using correct_run [OF ok] by blast
  from g(1) g'(1) correct_queries [OF g(2) assms(4)] correct_queries [OF g'(2) k] show ?thesis
    unfolding eq by blast
qed

definition demo_decls :: "nat var_decl list" where
  "demo_decls = [(1, {INT_T, FLOAT}, Some FLOAT), (2, {}, None), (3, {}, None)]"

definition demo_constraints :: "nat constraint list" where
  "demo_constraints = [Same 2 1, Bound 2 INT_T, Same 3 2]"

lemma demo_constraints_ok: "\<forall>x \<in> set demo_constraints. constraint_keys x \<subseteq> fst ` set demo_decls"
  by (simp add: demo_constraints_def demo_decls_def)

theorem type_groups_resolve_classes_witness:
  "\<exists>g t g'. run_groups demo_decls demo_constraints = Inr g \<and> groups_resolve 3 g = Inr (t, g')"
  using type_groups_resolve_classes [OF demo_constraints_ok, of 3] by (auto simp: demo_decls_def)

theorem type_groups_order_independent_witness:
  "\<exists>g g' t g1 g1' u g2 g2'. run_groups demo_decls demo_constraints = Inr g \<and>
     run_groups demo_decls (rev demo_constraints) = Inr g' \<and>
     groups_resolve 3 g = Inr (t, g1) \<and> groups_resolve 3 g' = Inr (t, g1') \<and>
     groups_conflict 3 g = Inr (u, g2) \<and> groups_conflict 3 g' = Inr (u, g2')"
  using type_groups_order_independent [of demo_constraints "rev demo_constraints" demo_decls demo_decls 3]
    demo_constraints_ok by (simp add: demo_decls_def)

end
