(* ===== verification/ExecutionPlan.thy ===== *)
theory ExecutionPlan
  imports NodeBase
begin

text \<open>
  Compiled plans (\<^verbatim>\<open>runtime/execution_plan.py\<close>): the records the compiler produces
  and the scheduler executes, the lookup structures a compiled node precomputes from its fields,
  and the key that decides whether a node's runtime state survives a change of plan.
\<close>

datatype scalar_conversion = INT_TO_FLOAT

datatype port_key = PortKey (pk_node: uuid) (pk_port: string)

record input_binding =
  ib_source :: port_key
  ib_conversion :: "scalar_conversion option"

text \<open>The dictionaries whose order is executed are ordered; parameters are only looked up.\<close>

record compiled_node =
  cn_node_id :: uuid
  cn_definition :: execution_contract
  cn_parameters :: "(string, literal) fmap"
  cn_input_bindings :: "(string, input_binding) dict"
  cn_input_types :: "(string, port_type) dict"
  cn_output_types :: "(string, port_type) dict"
  cn_clock_id :: "uuid option"
  cn_is_static :: bool
  cn_is_demanded :: bool

text \<open>The precomputed fields.\<close>

definition output_port_items :: "compiled_node \<Rightarrow> (string \<times> port_key) list" where
  "output_port_items n = map (\<lambda>p. (p, PortKey (cn_node_id n) p)) (dict_keys (cn_output_types n))"

definition output_port_keys :: "compiled_node \<Rightarrow> port_key list" where
  "output_port_keys n = map snd (output_port_items n)"

definition input_binding_items :: "compiled_node \<Rightarrow> (string \<times> port_key \<times> scalar_conversion option) list" where
  "input_binding_items n = map (\<lambda>(p, b). (p, ib_source b, ib_conversion b)) (cn_input_bindings n)"

definition float_output_ports :: "compiled_node \<Rightarrow> string list" where
  "float_output_ports n = map fst (filter (\<lambda>(p, t). t = FLOAT) (cn_output_types n))"

definition connectable_parameter_specs :: "compiled_node \<Rightarrow> parameter_spec list" where
  "connectable_parameter_specs n = filter (\<lambda>p. ps_connectable p = Some True) (ec_parameters (cn_definition n))"

text \<open>
  \<open>state_retention_key\<close>; a parameter without a value raises.
\<close>

record retention_key =
  rk_type_id :: string
  rk_version :: int
  rk_clock_id :: "uuid option"
  rk_is_demanded :: bool
  rk_bindings :: "(string \<times> port_key \<times> scalar_conversion option) list"
  rk_state_parameters :: "(string \<times> literal) list"

fun state_parameters :: "parameter_spec list \<Rightarrow> (string, literal) fmap \<Rightarrow> (string \<times> literal) list res" where
  "state_parameters [] values = Inr []"
| "state_parameters (p # ps) values =
     (if ps_update_mode p = LIVE then state_parameters ps values
      else case fmlookup values (ps_id p) of
          None \<Rightarrow> Inl (KeyError (Msg ''{}'' [ArgStr (ps_id p)]))
        | Some v \<Rightarrow> bind_res (state_parameters ps values) (\<lambda>r. Inr ((ps_id p, v) # r)))"

definition state_retention_key :: "compiled_node \<Rightarrow> retention_key res" where
  "state_retention_key n =
     bind_res (state_parameters (ec_parameters (cn_definition n)) (cn_parameters n)) (\<lambda>sp.
       Inr \<lparr>rk_type_id = ec_type_id (cn_definition n), rk_version = ec_version (cn_definition n),
         rk_clock_id = cn_clock_id n, rk_is_demanded = cn_is_demanded n,
         rk_bindings = map (\<lambda>(p, b). (p, ib_source b, ib_conversion b)) (sort_key fst (cn_input_bindings n)),
         rk_state_parameters = sp\<rparr>)"

definition retention_eq :: "retention_key \<Rightarrow> retention_key \<Rightarrow> bool" where
  "retention_eq a b \<longleftrightarrow>
     rk_type_id a = rk_type_id b \<and> rk_version a = rk_version b \<and> rk_clock_id a = rk_clock_id b \<and>
     rk_is_demanded a = rk_is_demanded b \<and> rk_bindings a = rk_bindings b \<and>
     list_all2 (\<lambda>(i, v) (j, w). i = j \<and> lit_eq v w) (rk_state_parameters a) (rk_state_parameters b)"

record execution_plan =
  ep_document_id :: uuid
  ep_graph_revision :: int
  ep_nodes :: "compiled_node list"
  ep_demand_roots :: "uuid set"

definition plan_node :: "execution_plan \<Rightarrow> uuid \<Rightarrow> compiled_node option" where
  "plan_node p i = List.find (\<lambda>n. cn_node_id n = i) (ep_nodes p)"

definition topological_node_ids :: "execution_plan \<Rightarrow> uuid list" where
  "topological_node_ids p = map cn_node_id (ep_nodes p)"

end
