(* ===== verification/Compiler.thy ===== *)
theory Compiler
  imports Topology TypeGroups ExecutionPlan
begin

text \<open>
  The graph compiler (\<^verbatim>\<open>graph/compiler.py\<close>): the validation pipeline
  \<open>_analyze\<close>, one definition per stage in the order of the code, the construction of an
  execution plan, the reduction of an invalid graph to a valid remainder, and the compatibility
  query for prospective connections. Every stage of the code appends to one list of issues; here
  a stage returns the issues it appends. Diagnostics are the records of
  \<^verbatim>\<open>contracts/validation.py\<close>.
\<close>

section \<open>Diagnostics\<close>

datatype severity = ERROR | WARNING

record validation_issue =
  vi_severity :: severity
  vi_code :: string
  vi_message :: message
  vi_node :: "uuid option"
  vi_connection :: "uuid option"
  vi_port :: "string option"

type_synonym issues = "validation_issue list"

definition report_errors :: "issues \<Rightarrow> issues" where
  "report_errors is = filter (\<lambda>i. vi_severity i = ERROR) is"

definition report_warnings :: "issues \<Rightarrow> issues" where
  "report_warnings is = filter (\<lambda>i. vi_severity i = WARNING) is"

definition report_is_valid :: "issues \<Rightarrow> bool" where
  "report_is_valid is \<longleftrightarrow> report_errors is = []"

definition error_issue :: "string \<Rightarrow> message \<Rightarrow> uuid option \<Rightarrow> uuid option \<Rightarrow> string option \<Rightarrow> validation_issue" where
  "error_issue code msg node conn port =
     \<lparr>vi_severity = ERROR, vi_code = code, vi_message = msg, vi_node = node, vi_connection = conn, vi_port = port\<rparr>"

definition issue_identity :: "validation_issue \<Rightarrow>
    severity \<times> string \<times> uuid option \<times> string option \<times> uuid option" where
  "issue_identity i = (vi_severity i, vi_code i, vi_node i, vi_port i, vi_connection i)"

section \<open>Port types\<close>

definition types_compatible :: "port_type \<Rightarrow> port_type \<Rightarrow> bool" where
  "types_compatible source destination \<longleftrightarrow>
     source = destination \<or> source = INT_T \<and> destination = FLOAT \<or>
     (if destination = SCALAR_ARRAY then source \<in> {FLOAT, INT_T}
      else if destination = IMAGE_ARRAY then source = IMAGE
      else if destination = CHANNEL_ARRAY then source = CHANNEL
      else False)"

definition input_socket_ids :: "node_definition \<Rightarrow> string list \<Rightarrow> string list" where
  "input_socket_ids d connected_port_ids =
     map ip_id (input_ports (nd_execution d) connected_port_ids False) @
     map ps_id (filter (\<lambda>p. ps_connectable p = Some True) (ec_parameters (nd_execution d)))"

definition variable_key :: "uuid \<Rightarrow> type_expr \<Rightarrow> var_key option" where
  "variable_key n e = (case e of PT _ \<Rightarrow> None | TypeVariable v _ _ \<Rightarrow> Some (n, v) | ArrayTypeVariable v _ \<Rightarrow> Some (n, v))"

definition array_type :: "port_type \<Rightarrow> port_type res" where
  "array_type t =
     (if t \<in> {FLOAT, INT_T} then Inr SCALAR_ARRAY
      else if t = IMAGE then Inr IMAGE_ARRAY
      else if t = CHANNEL then Inr CHANNEL_ARRAY
      else Inl (ValueError (Msg ''No array port type for {}'' [ArgStr (port_type_value t)])))"

definition base_type :: "port_type \<Rightarrow> type_expr \<Rightarrow> port_type" where
  "base_type t e =
     (case e of
        ArrayTypeVariable _ _ \<Rightarrow>
          if t = SCALAR_ARRAY then FLOAT
          else if t = IMAGE_ARRAY then IMAGE
          else if t = CHANNEL_ARRAY then CHANNEL
          else t
      | _ \<Rightarrow> t)"

section \<open>Nodes and definitions\<close>

type_synonym node_index = "(uuid, node_model) fmap"
type_synonym definitions = "(uuid, node_definition) dict"
type_synonym param_values = "(string, literal) fmap"
type_synonym port_ref = "uuid \<times> string \<times> bool"
type_synonym type_table = "(port_ref, port_type option) dict"

fun index_nodes :: "node_model list \<Rightarrow> node_index \<Rightarrow> node_index \<times> issues" where
  "index_nodes [] m = (m, [])"
| "index_nodes (n # ns) m =
     (if node_id n |\<in>| fmdom m then
        (case index_nodes ns m of (m', is) \<Rightarrow>
           (m', error_issue ''duplicate_node_id'' (Msg ''Duplicate node ID {}'' [ArgId (node_id n)])
                  (Some (node_id n)) None None # is))
      else index_nodes ns (fmupd (node_id n) n m))"

fun repeated_connections :: "connection_model list \<Rightarrow> uuid set \<Rightarrow> issues" where
  "repeated_connections [] seen = []"
| "repeated_connections (c # cs) seen =
     (if conn_id c \<in> seen
      then [error_issue ''duplicate_connection_id'' (Msg ''Duplicate connection ID {}'' [ArgId (conn_id c)])
              None (Some (conn_id c)) None] else []) @
     repeated_connections cs (insert (conn_id c) seen)"

definition unique_nodes :: "graph_snapshot \<Rightarrow> node_index \<times> issues" where
  "unique_nodes s =
     (case index_nodes (snap_nodes s) fmempty of (m, is) \<Rightarrow>
        (m, is @ repeated_connections (snap_connections s) {}))"

definition definition_issues :: "uuid \<Rightarrow> node_model \<Rightarrow> node_definition option \<Rightarrow> issues" where
  "definition_issues i n d =
     (case d of
        None \<Rightarrow> [error_issue ''unknown_node_type'' (Msg ''Unknown node type {}'' [ArgStr (node_type_id n)]) (Some i) None None]
      | Some d \<Rightarrow>
          (if implementation_version n \<noteq> ec_version (nd_execution d)
           then [error_issue ''node_version_mismatch''
                   (Msg ''Node {} requires implementation version {}, got {}''
                      [ArgStr (node_type_id n), ArgInt (ec_version (nd_execution d)), ArgInt (implementation_version n)])
                   (Some i) None None] else []) @
          map (\<lambda>msg. error_issue ''invalid_parameter'' msg (Some i) None None)
            (snd (parameter_values (nd_execution d) (parameters n))))"

definition resolve_definitions :: "node_registry \<Rightarrow> node_index \<Rightarrow>
    definitions \<times> (uuid, param_values) dict \<times> issues" where
  "resolve_definitions registry nodes =
     (let items = sorted_list_of_fmap nodes;
          known = List.map_filter (\<lambda>(i, n). map_option (\<lambda>d. (i, n, d)) (fmlookup registry (node_type_id n))) items
      in (map (\<lambda>(i, n, d). (i, d)) known,
          map (\<lambda>(i, n, d). (i, fst (parameter_values (nd_execution d) (parameters n)))) known,
          concat (map (\<lambda>(i, n). definition_issues i n (fmlookup registry (node_type_id n))) items)))"

section \<open>Connections\<close>

text \<open>The checks of one connection: its issues, and whether it is kept.\<close>

definition check_connection :: "node_index \<Rightarrow> definitions \<Rightarrow> connection_model \<Rightarrow> issues \<times> bool" where
  "check_connection nodes definitions c =
     (if source_node c |\<notin>| fmdom nodes then
        ([error_issue ''missing_source_node'' (Msg ''Connection source node {} does not exist'' [ArgId (source_node c)])
            None (Some (conn_id c)) None], False)
      else if destination_node c |\<notin>| fmdom nodes then
        ([error_issue ''missing_destination_node'' (Msg ''Connection destination node {} does not exist'' [ArgId (destination_node c)])
            None (Some (conn_id c)) None], False)
      else case (dict_get definitions (source_node c), dict_get definitions (destination_node c)) of
          (Some sd, Some dd) \<Rightarrow>
            if contract_output (nd_execution sd) (source_port c) = None then
              ([error_issue ''unknown_output_port'' (Msg ''Unknown output port {}'' [ArgStr (source_port c)])
                  (Some (source_node c)) (Some (conn_id c)) (Some (source_port c))], False)
            else if contract_input (nd_execution dd) (destination_port c) = None \<and>
                \<not> (case contract_parameter (nd_execution dd) (destination_port c) of
                     None \<Rightarrow> False | Some p \<Rightarrow> ps_connectable p = Some True) then
              ([error_issue ''unknown_input_port'' (Msg ''Unknown input port {}'' [ArgStr (destination_port c)])
                  (Some (destination_node c)) (Some (conn_id c)) (Some (destination_port c))], False)
            else ([], True)
        | _ \<Rightarrow> ([], False))"

fun check_connections :: "node_index \<Rightarrow> definitions \<Rightarrow> connection_model list \<Rightarrow> uuid set \<Rightarrow>
    connection_model list \<times> issues" where
  "check_connections nodes definitions [] seen = ([], [])"
| "check_connections nodes definitions (c # cs) seen =
     (if conn_id c \<in> seen then check_connections nodes definitions cs seen
      else case (check_connection nodes definitions c, check_connections nodes definitions cs (insert (conn_id c) seen)) of
          ((is, kept), (valid, is')) \<Rightarrow> (if kept then c # valid else valid, is @ is'))"

definition validate_connections :: "graph_snapshot \<Rightarrow> node_index \<Rightarrow> definitions \<Rightarrow>
    connection_model list \<times> issues" where
  "validate_connections s nodes definitions =
     check_connections nodes definitions (sort_key conn_id (snap_connections s)) {}"

definition file_input :: "connection_model \<Rightarrow> (uuid \<times> string, connection_model list) dict \<Rightarrow>
    (uuid \<times> string, connection_model list) dict" where
  "file_input c d =
     (let key = (destination_node c, destination_port c) in
      dict_set key ((case dict_get d key of None \<Rightarrow> [] | Some l \<Rightarrow> l) @ [c]) d)"

definition by_input :: "connection_model list \<Rightarrow> (uuid \<times> string, connection_model list) dict" where
  "by_input cs = fold file_input cs []"

definition validate_cardinality :: "connection_model list \<Rightarrow> issues" where
  "validate_cardinality cs =
     concat (map (\<lambda>((n, p), incoming).
       if 1 < length incoming
       then [error_issue ''input_cardinality''
               (Msg ''Input {} accepts one connection, got {}'' [ArgStr p, ArgInt (int (length incoming))])
               (Some n) None (Some p)] else []) (by_input cs))"

section \<open>Type resolution\<close>

text \<open>
  The state of the collecting pass: the type expression of every port in the order of its
  declaration, the groups of type variables, and the ports offered only as the next free socket
  of a family.
\<close>

record type_env =
  te_expressions :: "(port_ref, type_expr) dict"
  te_groups :: "var_key type_groups"
  te_next_only :: "port_ref set"

definition type_env_init :: type_env where
  "type_env_init = \<lparr>te_expressions = [], te_groups = groups_init, te_next_only = {}\<rparr>"

definition declare_variable :: "uuid \<Rightarrow> type_expr \<Rightarrow> var_key type_groups \<Rightarrow> var_key type_groups" where
  "declare_variable n e g =
     (case e of
        PT _ \<Rightarrow> g
      | TypeVariable v allowed dflt \<Rightarrow> groups_add (n, v) allowed dflt g
      | ArrayTypeVariable v allowed \<Rightarrow> groups_add (n, v) allowed None g)"

definition declare_port :: "uuid \<Rightarrow> bool \<Rightarrow> execution_contract \<Rightarrow> param_values \<Rightarrow> string list option \<Rightarrow>
    string \<Rightarrow> type_env \<Rightarrow> type_env res" where
  "declare_port n is_output c params base_ids port_id env =
     bind_res (port_type_of c port_id is_output params) (\<lambda>e.
       Inr (env\<lparr>te_expressions := dict_set (n, port_id, is_output) e (te_expressions env),
                te_groups := declare_variable n e (te_groups env),
                te_next_only := (case base_ids of
                    Some ids \<Rightarrow> if port_id \<in> set ids then te_next_only env
                       else insert (n, port_id, is_output) (te_next_only env)
                  | None \<Rightarrow> te_next_only env)\<rparr>))"

definition declare_parameter :: "uuid \<Rightarrow> parameter_spec \<Rightarrow> type_env \<Rightarrow> type_env" where
  "declare_parameter n p env =
     (case (ps_connectable p, ps_connected_type p) of
        (Some True, Some t) \<Rightarrow> env\<lparr>te_expressions := dict_set (n, ps_id p, False) (PT t) (te_expressions env)\<rparr>
      | _ \<Rightarrow> env)"

definition connected_inputs :: "connection_model list \<Rightarrow> uuid \<Rightarrow> string list" where
  "connected_inputs cs n = remdups (map destination_port (filter (\<lambda>c. destination_node c = n) cs))"

definition params_of :: "(uuid, param_values) dict \<Rightarrow> uuid \<Rightarrow> param_values" where
  "params_of values n = (case dict_get values n of Some v \<Rightarrow> v | None \<Rightarrow> fmempty)"

definition declare_node :: "connection_model list \<Rightarrow> (uuid, param_values) dict \<Rightarrow> uuid \<times> node_definition \<Rightarrow>
    type_env \<Rightarrow> type_env res" where
  "declare_node cs values nd env =
     (case nd of (n, d) \<Rightarrow>
       let c = nd_execution d; ports = connected_inputs cs n; params = params_of values n;
           base_ids = map ip_id (input_ports c ports False)
       in bind_res (foldM (declare_port n False c params (Some base_ids)) (map ip_id (input_ports c ports True)) env) (\<lambda>env.
          foldM (declare_port n True c params None) (map op_id (ec_outputs c))
            (fold (declare_parameter n) (ec_parameters c) env)))"

text \<open>A connection between two variables merges their groups, one to a concrete type constrains.\<close>

definition expression_of :: "(port_ref, type_expr) dict \<Rightarrow> port_ref \<Rightarrow> type_expr res" where
  "expression_of es r = (case dict_get es r of
      Some e \<Rightarrow> Inr e
    | None \<Rightarrow> Inl (KeyError (Msg ''{} {}'' [ArgId (fst r), ArgStr (fst (snd r))])))"

definition link_connection :: "(port_ref, type_expr) dict \<Rightarrow> connection_model \<Rightarrow> var_key type_groups \<Rightarrow>
    var_key type_groups res" where
  "link_connection es c g =
     bind_res (expression_of es (source_node c, source_port c, True)) (\<lambda>source.
     bind_res (expression_of es (destination_node c, destination_port c, False)) (\<lambda>destination.
       case (variable_key (source_node c) source, variable_key (destination_node c) destination) of
         (Some sk, Some dk) \<Rightarrow> groups_union sk dk g
       | (Some sk, None) \<Rightarrow> (case destination of PT t \<Rightarrow> groups_constrain sk (base_type t source) g | _ \<Rightarrow> Inr g)
       | (None, Some dk) \<Rightarrow> (case source of PT t \<Rightarrow> groups_constrain dk (base_type t destination) g | _ \<Rightarrow> Inr g)
       | (None, None) \<Rightarrow> Inr g))"

definition settle_variable :: "port_ref \<Rightarrow> type_expr \<Rightarrow> string \<Rightarrow> bool \<Rightarrow> port_type set \<Rightarrow> port_type option \<Rightarrow>
    (port_type option \<times> issues) res" where
  "settle_variable r e v next_only incompatible value_type =
     (if incompatible \<noteq> {} then
        Inr (None, if next_only then [] else
          [error_issue ''generic_type_conflict''
             (Msg ''Incompatible constraints on type variable {}: {}''
                [ArgStr v, ArgStrs (sorted_list_of_set (port_type_value ` incompatible))])
             (Some (fst r)) None (Some (fst (snd r)))])
      else case value_type of
          None \<Rightarrow> Inr (None, if next_only then [] else
            [error_issue ''unresolved_generic_type'' (Msg ''Type variable {} could not be resolved'' [ArgStr v])
               (Some (fst r)) None (Some (fst (snd r)))])
        | Some t \<Rightarrow> (case e of
              ArrayTypeVariable _ _ \<Rightarrow> bind_res (array_type t) (\<lambda>a. Inr (Some a, []))
            | _ \<Rightarrow> Inr (Some t, [])))"

fun settle_ports :: "(port_ref, type_expr) dict \<Rightarrow> port_ref set \<Rightarrow> var_key type_groups \<Rightarrow> (type_table \<times> issues) res" where
  "settle_ports [] next_only g = Inr ([], [])"
| "settle_ports ((r, e) # es) next_only g =
     bind_res (case variable_key (fst r) e of
         None \<Rightarrow> (case e of PT t \<Rightarrow> Inr ((Some t, []), g) | _ \<Rightarrow> Inr ((None, []), g))
       | Some key \<Rightarrow>
           bind_res (groups_conflict key g) (\<lambda>(incompatible, g).
           bind_res (groups_resolve key g) (\<lambda>(value_type, g).
           bind_res (settle_variable r e (snd key) (r \<in> next_only) incompatible value_type) (\<lambda>res.
             Inr (res, g)))))
       (\<lambda>((value, is), g). bind_res (settle_ports es next_only g) (\<lambda>(table, is').
         Inr ((r, value) # table, is @ is')))"

definition settled :: "type_table \<Rightarrow> port_ref \<Rightarrow> port_type option" where
  "settled table r = (case dict_get table r of Some v \<Rightarrow> v | None \<Rightarrow> None)"

definition connection_type_issues :: "type_table \<Rightarrow> connection_model \<Rightarrow> issues" where
  "connection_type_issues table c =
     (case (settled table (source_node c, source_port c, True), settled table (destination_node c, destination_port c, False)) of
        (Some s, Some d) \<Rightarrow>
          if types_compatible s d then []
          else [error_issue ''incompatible_port_types''
                  (Msg ''Cannot connect {} to {}'' [ArgStr (port_type_value s), ArgStr (port_type_value d)])
                  (Some (destination_node c)) (Some (conn_id c)) (Some (destination_port c))]
      | _ \<Rightarrow> [])"

definition resolve_types :: "connection_model list \<Rightarrow> definitions \<Rightarrow> (uuid, param_values) dict \<Rightarrow>
    (type_table \<times> issues) res" where
  "resolve_types cs definitions values =
     bind_res (foldM (declare_node cs values) definitions type_env_init) (\<lambda>env.
     bind_res (foldM (link_connection (te_expressions env)) cs (te_groups env)) (\<lambda>g.
     bind_res (settle_ports (te_expressions env) (te_next_only env) g) (\<lambda>(table, is).
       Inr (table, is @ concat (map (connection_type_issues table) cs)))))"

section \<open>Order, requirements, clocks and demand\<close>

definition cycle_issues :: "uuid list \<Rightarrow> issues" where
  "cycle_issues cyc = map (\<lambda>n. error_issue ''graph_cycle'' (Msg ''Node participates in a graph cycle'' []) (Some n) None None) cyc"

definition requirement_issues :: "uuid \<Rightarrow> execution_contract \<Rightarrow> string list \<Rightarrow> string \<Rightarrow> issues" where
  "requirement_issues n c node_ports port_id =
     (case ec_variadic c of
        Some family \<Rightarrow>
          if port_id = id_prefix family then
            (let count = length (filter (\<lambda>p. variadic_index family p \<noteq> None) node_ports) in
             if count < minimum_count family then
               [error_issue ''required_input_missing''
                  (Msg ''Input family {} has {} connected socket(s) but needs at least {}''
                     [ArgStr (id_prefix family), ArgInt (int count), ArgInt (int (minimum_count family))])
                  (Some n) None (Some (id_prefix family))]
             else [])
          else if port_id \<in> set node_ports then []
          else [error_issue ''required_input_missing'' (Msg ''Required input {} is not connected'' [ArgStr port_id])
                  (Some n) None (Some port_id)]
      | None \<Rightarrow>
          if port_id \<in> set node_ports then []
          else [error_issue ''required_input_missing'' (Msg ''Required input {} is not connected'' [ArgStr port_id])
                  (Some n) None (Some port_id)])"

definition validate_required_inputs :: "connection_model list \<Rightarrow> definitions \<Rightarrow> (uuid, param_values) dict \<Rightarrow> issues" where
  "validate_required_inputs cs definitions values =
     concat (map (\<lambda>(n, d). concat (map (requirement_issues n (nd_execution d) (connected_inputs cs n))
       (sorted_list_of_set (required_inputs (nd_execution d) (params_of values n))))) definitions)"

type_synonym clock_table = "(uuid, uuid option) fmap"

definition the_clock :: "clock_table \<Rightarrow> uuid \<Rightarrow> uuid option" where
  "the_clock clocks n = (case fmlookup clocks n of Some c \<Rightarrow> c | None \<Rightarrow> None)"

definition incoming_clocks :: "connection_model list \<Rightarrow> clock_table \<Rightarrow> uuid \<Rightarrow> uuid set" where
  "incoming_clocks cs clocks n = Option.these (the_clock clocks ` predecessors cs n)"

fun analyze_clocks :: "uuid list \<Rightarrow> definitions \<Rightarrow> connection_model list \<Rightarrow> clock_table \<Rightarrow> clock_table \<times> issues" where
  "analyze_clocks [] definitions cs clocks = (clocks, [])"
| "analyze_clocks (n # order) definitions cs clocks =
     (case dict_get definitions n of
        None \<Rightarrow> analyze_clocks order definitions cs clocks
      | Some d \<Rightarrow>
          if ec_kind (nd_execution d) = SOURCE then
            analyze_clocks order definitions cs (fmupd n (Some n) clocks)
          else
            (let incoming = incoming_clocks cs clocks n in
             if 1 < card incoming then
               (case analyze_clocks order definitions cs (fmupd n None clocks) of (t, is) \<Rightarrow>
                 (t, error_issue ''clock_mismatch'' (Msg ''Dynamic inputs originate from different source clocks'' [])
                       (Some n) None None # is))
             else analyze_clocks order definitions cs
                 (fmupd n (if incoming = {} then None else Some (the_elem incoming)) clocks)))"

definition resolve_demand_roots :: "node_index \<Rightarrow> definitions \<Rightarrow> connection_model list \<Rightarrow> uuid list option \<Rightarrow>
    uuid set \<times> issues" where
  "resolve_demand_roots nodes definitions cs requested =
     (case requested of
        Some rs \<Rightarrow>
          (set rs \<inter> fset (fmdom nodes),
           map (\<lambda>r. error_issue ''unknown_demand_root'' (Msg ''Demand root {} does not exist'' [ArgId r]) (Some r) None None)
             (sorted_list_of_set (set rs - fset (fmdom nodes))))
      | None \<Rightarrow>
          (let explicit = {n \<in> set (dict_keys definitions).
                 (case dict_get definitions n of
                    Some d \<Rightarrow> ec_kind (nd_execution d) \<in> {SINK, VISUALIZER} | None \<Rightarrow> False)} in
           if explicit \<noteq> {} then (explicit, [])
           else ({n \<in> fset (fmdom nodes). n \<notin> set (map source_node cs)}, [])))"

section \<open>The pipeline\<close>

record analysis =
  an_report :: issues
  an_nodes :: node_index
  an_definitions :: definitions
  an_parameters :: "(uuid, param_values) dict"
  an_connections :: "connection_model list"
  an_resolved_types :: type_table
  an_order :: "uuid list"
  an_clocks :: clock_table
  an_roots :: "uuid set"
  an_demanded :: "uuid set"

definition analyze :: "node_registry \<Rightarrow> graph_snapshot \<Rightarrow> uuid list option \<Rightarrow> analysis res" where
  "analyze registry s demand_roots =
     (case unique_nodes s of (nodes, is_nodes) \<Rightarrow>
      case resolve_definitions registry nodes of (definitions, values, is_defs) \<Rightarrow>
      case validate_connections s nodes definitions of (cs, is_conns) \<Rightarrow>
      bind_res (resolve_types cs definitions values) (\<lambda>(table, is_types).
      bind_res (topological_order (fmdom nodes) cs) (\<lambda>(order, cyc).
      case analyze_clocks order definitions cs fmempty of (clocks, is_clocks) \<Rightarrow>
      case resolve_demand_roots nodes definitions cs demand_roots of (roots, is_roots) \<Rightarrow>
      Inr \<lparr>an_report = is_nodes @ is_defs @ is_conns @ validate_cardinality cs @ is_types @
             cycle_issues cyc @ validate_required_inputs cs definitions values @ is_clocks @ is_roots,
           an_nodes = nodes, an_definitions = definitions, an_parameters = values, an_connections = cs,
           an_resolved_types = table, an_order = order, an_clocks = clocks, an_roots = roots,
           an_demanded = upstream_reachable roots cs\<rparr>)))"

definition validate :: "node_registry \<Rightarrow> graph_snapshot \<Rightarrow> uuid list option \<Rightarrow> issues res" where
  "validate registry s demand_roots = bind_res (analyze registry s demand_roots) (\<lambda>a. Inr (an_report a))"

section \<open>Plan construction\<close>

definition settled_type :: "type_table \<Rightarrow> port_ref \<Rightarrow> port_type res" where
  "settled_type table r =
     (case dict_get table r of
        None \<Rightarrow> Inl (KeyError (Msg ''{} {}'' [ArgId (fst r), ArgStr (fst (snd r))]))
      | Some None \<Rightarrow> Inl (RuntimeError (Msg ''plan construction hit unsettled port {} of node {}''
            [ArgStr (fst (snd r)), ArgId (fst r)]))
      | Some (Some t) \<Rightarrow> Inr t)"

text \<open>Of several connections into one port the dictionary keeps the last.\<close>

definition incoming_dict :: "connection_model list \<Rightarrow> uuid \<Rightarrow> (string, connection_model) dict" where
  "incoming_dict cs n = fold (\<lambda>c. dict_set (destination_port c) c) (filter (\<lambda>c. destination_node c = n) cs) []"

definition bind_port :: "type_table \<Rightarrow> uuid \<Rightarrow> (string, connection_model) dict \<Rightarrow> string \<Rightarrow>
    (string, input_binding) dict \<Rightarrow> (string, input_binding) dict res" where
  "bind_port table n incoming port_id bindings =
     (case dict_get incoming port_id of
        None \<Rightarrow> Inr bindings
      | Some c \<Rightarrow>
          bind_res (settled_type table (source_node c, source_port c, True)) (\<lambda>source_type.
          bind_res (settled_type table (n, port_id, False)) (\<lambda>destination_type.
            Inr (dict_set port_id
              \<lparr>ib_source = PortKey (source_node c) (source_port c),
               ib_conversion = (if source_type = INT_T \<and> destination_type = FLOAT then Some INT_TO_FLOAT else None)\<rparr>
              bindings))))"

definition port_types :: "type_table \<Rightarrow> uuid \<Rightarrow> bool \<Rightarrow> string list \<Rightarrow> (string, port_type) dict res" where
  "port_types table n is_output ports =
     foldM (\<lambda>p d. bind_res (settled_type table (n, p, is_output)) (\<lambda>t. Inr (dict_set p t d))) ports []"

definition compile_node :: "node_model \<Rightarrow> node_definition \<Rightarrow> param_values \<Rightarrow> connection_model list \<Rightarrow>
    type_table \<Rightarrow> uuid option \<Rightarrow> bool \<Rightarrow> compiled_node res" where
  "compile_node node d params cs table clock is_demanded =
     (let incoming = incoming_dict cs (node_id node);
          sockets = input_socket_ids d (dict_keys incoming) in
      bind_res (foldM (bind_port table (node_id node) incoming) sockets []) (\<lambda>bindings.
      bind_res (port_types table (node_id node) False sockets) (\<lambda>input_types.
      bind_res (port_types table (node_id node) True (map op_id (ec_outputs (nd_execution d)))) (\<lambda>output_types.
        Inr \<lparr>cn_node_id = node_id node, cn_definition = nd_execution d, cn_parameters = params,
          cn_input_bindings = bindings, cn_input_types = input_types, cn_output_types = output_types,
          cn_clock_id = clock,
          cn_is_static = (clock = None \<and> ec_cache_policy (nd_execution d) \<noteq> NEVER),
          cn_is_demanded = is_demanded\<rparr>))))"

definition subscript :: "'v option \<Rightarrow> uuid \<Rightarrow> 'v res" where
  "subscript v n = (case v of Some x \<Rightarrow> Inr x | None \<Rightarrow> Inl (KeyError (Msg ''{}'' [ArgId n])))"

definition compile_ordered :: "analysis \<Rightarrow> uuid \<Rightarrow> compiled_node res" where
  "compile_ordered a n =
     bind_res (subscript (fmlookup (an_nodes a) n) n) (\<lambda>node.
     bind_res (subscript (dict_get (an_definitions a) n) n) (\<lambda>d.
     bind_res (subscript (dict_get (an_parameters a) n) n) (\<lambda>params.
     bind_res (subscript (fmlookup (an_clocks a) n) n) (\<lambda>clock.
       compile_node node d params (an_connections a) (an_resolved_types a) clock (n \<in> an_demanded a)))))"

definition build_plan :: "graph_snapshot \<Rightarrow> analysis \<Rightarrow> execution_plan res" where
  "build_plan s a =
     bind_res (mapM (compile_ordered a) (an_order a)) (\<lambda>ns.
       Inr \<lparr>ep_document_id = snap_document_id s, ep_graph_revision = snap_revision s,
         ep_nodes = ns, ep_demand_roots = an_roots a\<rparr>)"

section \<open>Partial compilation\<close>

definition dropped_nodes :: "graph_snapshot \<Rightarrow> analysis \<Rightarrow> uuid set" where
  "dropped_nodes s a =
     (Option.these (vi_node ` set (report_errors (an_report a))) \<union>
      (\<lambda>((n, p, out), v). n) ` set (filter (\<lambda>(r, v). v = None) (an_resolved_types a)))
     \<inter> node_id ` set (snap_nodes s)"

definition dropped_connections :: "analysis \<Rightarrow> uuid set" where
  "dropped_connections a = Option.these (vi_connection ` set (report_errors (an_report a)))"

text \<open>\<open>None\<close> stands for the snapshot returned unchanged.\<close>

definition reduced_snapshot :: "graph_snapshot \<Rightarrow> analysis \<Rightarrow> graph_snapshot option" where
  "reduced_snapshot s a =
     (let gone = dropped_nodes s a;
          kept_nodes = filter (\<lambda>n. node_id n \<notin> gone) (snap_nodes s);
          kept_connections = filter (\<lambda>c. conn_id c \<notin> dropped_connections a \<and>
            source_node c \<notin> gone \<and> destination_node c \<notin> gone) (snap_connections s)
      in if gone = {} \<and> length kept_connections = length (snap_connections s) then None
         else Some (s\<lparr>snap_nodes := kept_nodes, snap_connections := kept_connections\<rparr>))"

definition surviving_roots :: "uuid list option \<Rightarrow> graph_snapshot \<Rightarrow> uuid list option" where
  "surviving_roots requested s =
     map_option (filter (\<lambda>r. r \<in> node_id ` set (snap_nodes s))) requested"

text \<open>A reduction removes a node or a connection, so the loop ends.\<close>

lemma reduced_smaller:
  assumes "reduced_snapshot s a = Some s'"
  shows "length (snap_nodes s') + length (snap_connections s') < length (snap_nodes s) + length (snap_connections s)"
proof -
  let ?gone = "dropped_nodes s a"
  let ?ns = "filter (\<lambda>n. node_id n \<notin> ?gone) (snap_nodes s)"
  let ?cs = "filter (\<lambda>c. conn_id c \<notin> dropped_connections a \<and> source_node c \<notin> ?gone \<and> destination_node c \<notin> ?gone)
      (snap_connections s)"
  from assms have s': "snap_nodes s' = ?ns" "snap_connections s' = ?cs"
    and less: "?gone \<noteq> {} \<or> length ?cs \<noteq> length (snap_connections s)"
    by (auto simp: reduced_snapshot_def Let_def split: if_splits)
  have le: "length ?ns \<le> length (snap_nodes s)" "length ?cs \<le> length (snap_connections s)"
    by (rule length_filter_le)+
  have "length ?ns < length (snap_nodes s)" if "?gone \<noteq> {}"
  proof -
    from that obtain i where i: "i \<in> ?gone" by blast
    then have "i \<in> node_id ` set (snap_nodes s)" unfolding dropped_nodes_def by (rule IntD2)
    with i obtain n where "n \<in> set (snap_nodes s)" "node_id n \<in> ?gone" by blast
    then show ?thesis using length_filter_less [of n "snap_nodes s" "\<lambda>n. node_id n \<notin> ?gone"] by simp
  qed
  with less le show ?thesis unfolding s' by linarith
qed

record compilation_result =
  cr_report :: issues
  cr_plan :: "execution_plan option"
  cr_resolved_types :: type_table

definition planned :: "graph_snapshot \<Rightarrow> analysis \<Rightarrow> analysis \<Rightarrow> compilation_result res" where
  "planned s full a =
     bind_res (build_plan s a) (\<lambda>p.
       Inr \<lparr>cr_report = an_report full, cr_plan = Some p, cr_resolved_types = an_resolved_types full\<rparr>)"

definition unplanned :: "analysis \<Rightarrow> compilation_result" where
  "unplanned full = \<lparr>cr_report = an_report full, cr_plan = None, cr_resolved_types = an_resolved_types full\<rparr>"

function compile_loop :: "node_registry \<Rightarrow> graph_snapshot \<Rightarrow> uuid list option \<Rightarrow> analysis \<Rightarrow>
    graph_snapshot \<Rightarrow> analysis \<Rightarrow> compilation_result res" where
  "compile_loop registry s requested full current a =
     (case reduced_snapshot current a of
        None \<Rightarrow>
          (let surviving = surviving_roots requested current in
           if surviving \<noteq> requested then
             bind_res (analyze registry current surviving) (\<lambda>final.
               if report_is_valid (an_report final) then planned s full final else Inr (unplanned full))
           else Inr (unplanned full))
      | Some reduced \<Rightarrow>
          (case analyze registry reduced (surviving_roots requested reduced) of
             Inl e \<Rightarrow> Inl e
           | Inr a' \<Rightarrow>
               if report_is_valid (an_report a') then planned s full a'
               else compile_loop registry s requested full reduced a'))"
  by pat_completeness auto
termination
  by (relation "measure (\<lambda>(registry, s, requested, full, current, a).
        length (snap_nodes current) + length (snap_connections current))")
     (auto dest: reduced_smaller)

declare compile_loop.simps [simp del]

definition compile :: "node_registry \<Rightarrow> graph_snapshot \<Rightarrow> uuid list option \<Rightarrow> compilation_result res" where
  "compile registry s demand_roots =
     bind_res (analyze registry s demand_roots) (\<lambda>full.
       if report_is_valid (an_report full) then planned s full full
       else compile_loop registry s demand_roots full s full)"

definition resolved_type :: "compilation_result \<Rightarrow> uuid \<Rightarrow> string \<Rightarrow> bool \<Rightarrow> port_type option res" where
  "resolved_type r n p is_output =
     (case dict_get (cr_resolved_types r) (n, p, is_output) of
        Some t \<Rightarrow> Inr t
      | None \<Rightarrow> Inl (KeyError (Msg ''no {}-side type recorded for port {} of node {}''
          [ArgStr (if is_output then ''output'' else ''input''), ArgStr p, ArgId n])))"

section \<open>Prospective connections\<close>

type_synonym endpoint = "uuid \<times> string \<times> uuid \<times> string"

record compatibility =
  cc_accepted :: bool
  cc_issues :: issues

definition occupies :: "uuid \<Rightarrow> string \<Rightarrow> connection_model \<Rightarrow> bool" where
  "occupies n p c \<longleftrightarrow> destination_node c = n \<and> destination_port c = p"

text \<open>
  \<open>uuid5\<close> of the standard library, a hash of a namespace and a text, is a parameter. The
  baseline of a query is computed once for every tuple of retained connections; tuples are
  compared by the equality of connections.
\<close>

type_synonym baselines =
  "(connection_model list \<times> (severity \<times> string \<times> uuid option \<times> string option \<times> uuid option) set) list"

definition cached_baseline :: "node_registry \<Rightarrow> graph_snapshot \<Rightarrow> connection_model list \<Rightarrow> baselines \<Rightarrow>
    ((severity \<times> string \<times> uuid option \<times> string option \<times> uuid option) set \<times> baselines) res" where
  "cached_baseline registry s retained cache =
     (case List.find (\<lambda>(cs, ids). list_all2 connection_eq cs retained) cache of
        Some (cs, ids) \<Rightarrow> Inr (ids, cache)
      | None \<Rightarrow> bind_res (validate registry (s\<lparr>snap_connections := retained\<rparr>) None) (\<lambda>is.
          let ids = issue_identity ` set is in Inr (ids, cache @ [(retained, ids)])))"

definition candidate_connection :: "(uuid \<Rightarrow> message \<Rightarrow> uuid) \<Rightarrow> uuid \<Rightarrow> endpoint \<Rightarrow> connection_model" where
  "candidate_connection uuid5 document e =
     (case e of (sn, sp, dn, dp) \<Rightarrow>
       \<lparr>conn_id = uuid5 document (Msg ''connection-query:{}:{}:{}:{}'' [ArgId sn, ArgStr sp, ArgId dn, ArgStr dp]),
        source_node = sn, source_port = sp, destination_node = dn, destination_port = dp, conn_ui_state = fmempty\<rparr>)"

definition query_endpoint :: "(uuid \<Rightarrow> message \<Rightarrow> uuid) \<Rightarrow> node_registry \<Rightarrow> graph_snapshot \<Rightarrow> endpoint \<Rightarrow>
    (endpoint, compatibility) dict \<times> baselines \<Rightarrow> ((endpoint, compatibility) dict \<times> baselines) res" where
  "query_endpoint uuid5 registry s e st =
     (case e of (sn, sp, dn, dp) \<Rightarrow> case st of (results, cache) \<Rightarrow>
       let retained = filter (\<lambda>c. \<not> occupies dn dp c) (snap_connections s) in
       bind_res (cached_baseline registry s retained cache) (\<lambda>(baseline, cache).
       bind_res (validate registry (s\<lparr>snap_connections :=
            retained @ [candidate_connection uuid5 (snap_document_id s) e]\<rparr>) None) (\<lambda>is.
         let new_errors = filter (\<lambda>i. issue_identity i \<notin> baseline) (report_errors is) in
         Inr (dict_set e \<lparr>cc_accepted = (new_errors = []), cc_issues = new_errors\<rparr> results, cache))))"

definition connection_compatibilities :: "(uuid \<Rightarrow> message \<Rightarrow> uuid) \<Rightarrow> node_registry \<Rightarrow> graph_snapshot \<Rightarrow>
    endpoint list \<Rightarrow> (endpoint, compatibility) dict res" where
  "connection_compatibilities uuid5 registry s candidates =
     bind_res (foldM (query_endpoint uuid5 registry s) candidates ([], [])) (\<lambda>(results, cache). Inr results)"

definition connection_compatibility :: "(uuid \<Rightarrow> message \<Rightarrow> uuid) \<Rightarrow> node_registry \<Rightarrow> graph_snapshot \<Rightarrow>
    endpoint \<Rightarrow> compatibility res" where
  "connection_compatibility uuid5 registry s e =
     bind_res (connection_compatibilities uuid5 registry s [e]) (\<lambda>results.
       case dict_get results e of Some c \<Rightarrow> Inr c | None \<Rightarrow> Inl (KeyError (Msg ''endpoint'' [])))"

end
