(* ===== verification/NodeFacts.thy ===== *)
theory NodeFacts
  imports NodeBase
begin

text \<open>
  Properties of node definitions: sockets of variadic families, the value ladder of parameters
  (bounds, steps, defaults), the normalised execution contract, the registry and migrations.
\<close>

section \<open>Sockets\<close>

text \<open>
  Socket identifiers of a variadic family are exactly the rendered positive indexes: reading
  the index of a socket's identifier gives the index back, and an identifier has an index only
  when it is that socket's.
\<close>

theorem variadic_index_exact:
  "variadic_index v p = Some n \<longleftrightarrow> 0 < n \<and> p = ip_id (variadic_socket v n)"
  using variadic_index_port [of n v] variadic_index_inverse [of v p n]
  by (auto simp: variadic_socket_def)

section \<open>Specifications\<close>

lemma parameter_spec_init_facts:
  assumes "parameter_spec_init p = Inr q"
  shows "q = p" and "validate_parameter p (ps_default p) = None" and "check_bounds p = Inr ()"
    and "check_step p = Inr ()"
  using assms by (auto simp: parameter_spec_init_def bind_res_eq_Inr split: if_splits)

definition spec_ok :: "parameter_spec \<Rightarrow> bool" where
  "spec_ok p \<longleftrightarrow> parameter_spec_init p = Inr p"

lemma collect_values_keys:
  "fmdom (fst (collect_values ps ls (vs, errs))) = fmdom vs |\<union>| fset_of_list (map ps_id ps)"
  by (induction ps ls "(vs, errs)" arbitrary: vs errs rule: collect_values.induct)
     (auto simp: Let_def split: option.splits)

lemma collect_values_other:
  "i \<notin> ps_id ` set ps \<Longrightarrow> fmlookup (fst (collect_values ps ls (vs, errs))) i = fmlookup vs i"
  by (induction ps ls "(vs, errs)" arbitrary: vs errs rule: collect_values.induct)
     (auto simp: Let_def split: option.splits)

lemma collect_values_lookup:
  assumes "distinct (map ps_id ps)" and "p \<in> set ps"
  shows "fmlookup (fst (collect_values ps ls (vs, errs))) (ps_id p) =
    Some (let v = (case fmlookup ls (ps_id p) of Some v \<Rightarrow> v | None \<Rightarrow> ps_default p)
          in if validate_parameter p v = None then v else ps_default p)"
  using assms
proof (induction ps arbitrary: vs errs)
  case (Cons q ps)
  show ?case
  proof (cases "p = q")
    case True
    with Cons.prems have "ps_id p \<notin> ps_id ` set ps" by simp
    then show ?thesis
      by (simp add: True collect_values_other Let_def split: option.split)
  next
    case False
    with Cons.prems have "p \<in> set ps" "distinct (map ps_id ps)" by simp_all
    from Cons.IH [OF this(2,1)] show ?thesis
      by (auto simp: Let_def split: option.split)
  qed
qed simp

lemma parameter_values_fst: "fst (parameter_values c ls) = fst (collect_values (ec_parameters c) ls (fmempty,
    map (\<lambda>i. Msg ''unknown parameter {}'' [ArgStr i])
      (sorted_list_of_set (fset (fmdom ls) - set (map ps_id (ec_parameters c))))))"
  by (simp add: parameter_values_def Let_def split_beta split: option.split)

text \<open>
  C35. Whatever a node stores, a compiled node sees one valid value for every declared parameter
  and none for others: the stored value when it validates, the default otherwise.
\<close>

theorem parameter_values_valid:
  assumes "distinct (map ps_id (ec_parameters c))" and "\<forall>p \<in> set (ec_parameters c). spec_ok p"
  shows "fmdom (fst (parameter_values c ls)) = fset_of_list (map ps_id (ec_parameters c)) \<and>
    (\<forall>p \<in> set (ec_parameters c). \<exists>v. fmlookup (fst (parameter_values c ls)) (ps_id p) = Some v \<and>
       validate_parameter p v = None \<and>
       (\<forall>w. fmlookup ls (ps_id p) = Some w \<and> validate_parameter p w = None \<longrightarrow> v = w))"
proof (intro conjI ballI)
  show "fmdom (fst (parameter_values c ls)) = fset_of_list (map ps_id (ec_parameters c))"
    by (simp add: parameter_values_fst collect_values_keys)
next
  fix p assume p: "p \<in> set (ec_parameters c)"
  then have "validate_parameter p (ps_default p) = None"
    using assms(2) parameter_spec_init_facts(2) by (auto simp: spec_ok_def)
  then show "\<exists>v. fmlookup (fst (parameter_values c ls)) (ps_id p) = Some v \<and>
       validate_parameter p v = None \<and>
       (\<forall>w. fmlookup ls (ps_id p) = Some w \<and> validate_parameter p w = None \<longrightarrow> v = w)"
    by (auto simp: parameter_values_fst collect_values_lookup [OF assms(1) p] Let_def split: option.split)
qed

section \<open>The value ladder\<close>

text \<open>Bounds that floats represent exactly, and their values.\<close>

fun exact_bound :: "literal option \<Rightarrow> bool" where
  "exact_bound None = True"
| "exact_bound (Some (LInt i)) = (\<bar>i\<bar> \<le> 2 ^ 53)"
| "exact_bound (Some _) = True"

fun bound_value :: "literal \<Rightarrow> rat" where
  "bound_value (LFloat (Fin x)) = x"
| "bound_value (LInt i) = of_int i"
| "bound_value _ = 0"

definition clamp_low :: "literal option \<Rightarrow> rat \<Rightarrow> rat" where
  "clamp_low b x = (case b of None \<Rightarrow> x | Some m \<Rightarrow> max x (bound_value m))"

definition clamp_high :: "literal option \<Rightarrow> rat \<Rightarrow> rat" where
  "clamp_high b x = (case b of None \<Rightarrow> x | Some m \<Rightarrow> min x (bound_value m))"

lemma check_bound_cases:
  assumes "check_bound t (Some m) = Inr ()"
  obtains x where "m = LFloat (Fin x)" "t \<noteq> INT_T" | i where "m = LInt i"
proof (cases m)
  case (LFloat f)
  with assms that(1) show thesis by (cases f) (auto simp: check_bound_def split: if_splits)
qed (use assms that in \<open>auto simp: check_bound_def\<close>)

lemma float_of_int_exact: "\<bar>i\<bar> \<le> 2 ^ 53 \<Longrightarrow> float_of_int i = Some (of_int i)"
proof -
  assume i: "\<bar>i\<bar> \<le> 2 ^ 53"
  have "(2::int) ^ 53 < 2 ^ 1024 - 2 ^ 970" by simp
  with i have "\<bar>i\<bar> < 2 ^ 1024 - 2 ^ 970" by linarith
  with i show ?thesis by (simp add: float_of_int_def fl_of_int)
qed

lemma exact_bound_facts:
  assumes "check_bound t (Some m) = Inr ()" and "exact_bound (Some m)"
  shows "to_pyfloat m = Inr (Fin (bound_value m))" and "lit_num m = Some (Fin (bound_value m))"
  using assms(1)
  by (rule check_bound_cases; use assms(2) in \<open>simp add: float_of_int_exact\<close>)+

lemma check_bounds_facts:
  assumes "check_bounds p = Inr ()"
  shows "ps_minimum p = Some m \<Longrightarrow> check_bound (ps_type p) (Some m) = Inr ()"
    and "ps_maximum p = Some m' \<Longrightarrow> check_bound (ps_type p) (Some m') = Inr ()"
    and "ps_minimum p = Some m \<Longrightarrow> ps_maximum p = Some m' \<Longrightarrow> \<not> num_less m' m"
  using assms by (auto simp: check_bounds_def bind_res_eq_Inr split: if_splits)

text \<open>
  C37. A FLOAT control without explicit choices, whose bounds are floats (integer bounds up to
  \<open>2\<^sup>53\<close>), accepts every finite authored value and stores it clamped to its bounds, so a value
  already inside the bounds is kept; what is stored passes the validation of the control.
\<close>

theorem sanitize_float_clamps:
  assumes "spec_ok p" and "ps_type p = FLOAT" and "ps_choices p = []"
    and "exact_bound (ps_minimum p)" and "exact_bound (ps_maximum p)"
  shows "sanitize_value p (LFloat (Fin x)) =
    Inr (LFloat (Fin (clamp_high (ps_maximum p) (clamp_low (ps_minimum p) x)))) \<and>
    validate_parameter p (LFloat (Fin (clamp_high (ps_maximum p) (clamp_low (ps_minimum p) x)))) = None"
proof -
  let ?lo = "clamp_low (ps_minimum p) x"
  let ?y = "clamp_high (ps_maximum p) ?lo"
  have b: "check_bounds p = Inr ()" and st: "check_step p = Inr ()"
    using parameter_spec_init_facts(3,4) assms(1) by (auto simp: spec_ok_def)
  have step: "ps_step p = None" using st assms(2) by (auto simp: check_step_def split: option.splits)
  note lo = exact_bound_facts [OF check_bounds_facts(1) [OF b]]
  note hi = exact_bound_facts [OF check_bounds_facts(2) [OF b]]
  have fc: "float_choices [] = []" by (simp add: float_choices_def List.map_filter_def)
  have "sanitize_float p (Fin x) = Inr (Fin ?y)"
    using lo hi assms(3-5)
    by (auto simp: sanitize_float_def clamp_low_def clamp_high_def pf_max_def pf_min_def fc
        split: option.split)
  moreover have "validate_parameter p (LFloat (Fin ?y)) = None"
  proof -
    define y where "y = ?y"
    have "\<not> bound_value m' < bound_value m" if "ps_minimum p = Some m" "ps_maximum p = Some m'" for m m'
      using check_bounds_facts(3) [OF b that] lo(2) [OF that(1)] hi(2) [OF that(2)] assms(4,5) that
      by (simp add: num_less_def)
    moreover have "\<not> num_less (LFloat (Fin y)) m" if "ps_minimum p = Some m" for m
      using lo(2) [OF that] calculation [OF that] assms(4) that
      by (auto simp: y_def num_less_def clamp_low_def clamp_high_def split: option.split)
    moreover have "\<not> num_less m (LFloat (Fin y))" if "ps_maximum p = Some m" for m
      using hi(2) [OF that] assms(5) that
      by (auto simp: y_def num_less_def clamp_low_def clamp_high_def split: option.split)
    ultimately have "validate_parameter p (LFloat (Fin y)) = None"
      using assms(2,3) by (simp add: validate_parameter_def validate_number_def step split: option.split)
    then show ?thesis unfolding y_def .
  qed
  ultimately show ?thesis
    using assms(2) by (simp add: sanitize_value_def check_literal_def)
qed

lemma fl_near:
  assumes "1 / 2 ^ 60 \<le> \<bar>x\<bar>" and "\<bar>x\<bar> < d * 2 ^ 53"
  shows "\<bar>fl x - x\<bar> < d"
proof -
  have "(2::rat) powi (-1022) \<le> 2 powi (-60)" by (intro power_int_increasing) auto
  also have "\<dots> = 1 / 2 ^ 60" by (simp add: power_int_minus)
  finally have "2 powi (-1022) \<le> (1::rat) / 2 ^ 60" .
  with assms(1) have "\<bar>fl x - x\<bar> \<le> \<bar>x\<bar> / 2 ^ 53" by (intro fl_error) linarith
  also have "\<dots> < d" using assms(2) by (simp add: field_simps)
  finally show ?thesis .
qed

lemma rat_of_int_abs_le: "\<bar>a\<bar> \<le> b \<Longrightarrow> \<bar>of_int a :: rat\<bar> \<le> of_int b"
  by (simp only: of_int_abs [symmetric] of_int_le_iff)

lemma true_div_floor:
  assumes a: "\<bar>a\<bar> \<le> 2 ^ 51" and st: "1 \<le> st" "st \<le> 2 ^ 51"
  shows "true_div a st = Inr (fl (of_int a / of_int st))"
    and "\<lfloor>fl (of_int a / of_int st)\<rfloor> = a div st"
proof -
  let ?q = "of_int a / of_int st :: rat"
  have st1: "(1::rat) \<le> of_int st" and st51: "(of_int st :: rat) \<le> 2 ^ 51"
    using rat_of_int_abs_le [of st "2 ^ 51"] st by simp_all
  have a51: "\<bar>of_int a :: rat\<bar> \<le> 2 ^ 51" using rat_of_int_abs_le [OF a] by simp
  have q: "\<bar>?q\<bar> = \<bar>of_int a\<bar> / of_int st" using st1 by (simp add: abs_divide)
  have qa: "\<bar>?q\<bar> \<le> 2 ^ 51"
  proof -
    have "\<bar>of_int a :: rat\<bar> / of_int st \<le> \<bar>of_int a\<bar> / 1" using st1 by (intro divide_left_mono) auto
    with a51 q show ?thesis by linarith
  qed
  have "(2::rat) ^ 51 < 2 ^ 1024 - 2 ^ 970" by simp
  with qa have "\<bar>?q\<bar> < 2 ^ 1024 - 2 ^ 970" by linarith
  then show "true_div a st = Inr (fl ?q)" by (simp add: true_div_def)
  have fq: "\<lfloor>?q\<rfloor> = a div st" by (simp add: floor_divide_of_int_eq)
  have "\<bar>?q\<bar> \<le> 2251799813685248" using qa by simp
  then have "\<bar>a div st\<bar> \<le> 2251799813685248" using fq by linarith
  then have small: "\<bar>a div st\<bar> \<le> 2 ^ 53" by simp
  have lo: "of_int (a div st) \<le> fl ?q"
    using fl64.rnd_ge_int [OF small, of ?q] fq by linarith
  have hi: "fl ?q < of_int (a div st) + 1"
  proof (cases "a = 0")
    case True
    then show ?thesis using fl_of_int [of 0] by simp
  next
    case False
    have "a + 1 \<le> (a div st + 1) * st"
    proof -
      have "a mod st < st" using st(1) by (intro pos_mod_bound) simp
      moreover have "(a div st + 1) * st = a div st * st + st" by (simp add: distrib_right)
      ultimately show ?thesis using div_mult_mod_eq [of a st] by linarith
    qed
    then have "(of_int (a + 1) :: rat) \<le> of_int ((a div st + 1) * st)" by (simp only: of_int_le_iff)
    then have "of_int a + (1::rat) \<le> (of_int (a div st) + 1) * of_int st" by simp
    then have top: "?q + 1 / of_int st \<le> of_int (a div st) + 1" using st1 by (simp add: field_simps)
    have "1 / of_int st \<le> \<bar>?q\<bar>"
      unfolding q using False st1 by (intro divide_right_mono) auto
    moreover have "1 / 2 ^ 51 \<le> 1 / (of_int st :: rat)" using st1 st51 by (intro divide_left_mono) auto
    moreover have "(1::rat) / 2 ^ 60 \<le> 1 / 2 ^ 51" by simp
    ultimately have "1 / 2 ^ 60 \<le> \<bar>?q\<bar>" by (meson order_trans)
    moreover have "\<bar>?q\<bar> < 1 / of_int st * 2 ^ 53"
      unfolding q using a51 st1 by (simp add: divide_strict_right_mono)
    ultimately have "\<bar>fl ?q - ?q\<bar> < 1 / of_int st" by (rule fl_near)
    with top show ?thesis by linarith
  qed
  from lo hi show "\<lfloor>fl ?q\<rfloor> = a div st" by linarith
qed

lemma half_step_floor:
  assumes "\<bar>k\<bar> \<le> 2 ^ 51"
  shows "\<lfloor>fl_add (of_int k) (1/2)\<rfloor> = k"
proof -
  let ?x = "of_int k + 1/2 :: rat"
  have k: "\<bar>of_int k :: rat\<bar> \<le> 2 ^ 51" using rat_of_int_abs_le [OF assms] by simp
  have "\<bar>?x\<bar> \<ge> 1/2"
  proof (cases "0 \<le> k")
    case True then show ?thesis by simp
  next
    case False
    then have "k \<le> -1" by simp
    then have "of_int k \<le> (of_int (-1) :: rat)" by (simp only: of_int_le_iff)
    then show ?thesis by linarith
  qed
  then have "1 / 2 ^ 60 \<le> \<bar>?x\<bar>" by simp
  moreover have "\<bar>?x\<bar> \<le> 2 ^ 51 + 1/2" using k by linarith
  then have "\<bar>?x\<bar> < 1/2 * 2 ^ 53" by (rule le_less_trans) simp
  ultimately have "\<bar>fl ?x - ?x\<bar> < 1/2" by (rule fl_near)
  then show ?thesis unfolding fl_add_def by linarith
qed

fun bounded_int :: "int \<Rightarrow> literal option \<Rightarrow> bool" where
  "bounded_int b (Some (LInt i)) = (\<bar>i\<bar> \<le> b)"
| "bounded_int b _ = True"

lemma int_bound:
  assumes "check_bounds p = Inr ()" and "ps_type p = INT_T"
  shows "ps_minimum p = None \<or> (\<exists>i. ps_minimum p = Some (LInt i))"
    and "ps_maximum p = None \<or> (\<exists>i. ps_maximum p = Some (LInt i))"
proof -
  have "\<exists>i. m = LInt i" if "check_bound INT_T (Some m) = Inr ()" for m
    using that by (rule check_bound_cases) auto
  then show "ps_minimum p = None \<or> (\<exists>i. ps_minimum p = Some (LInt i))"
    "ps_maximum p = None \<or> (\<exists>i. ps_maximum p = Some (LInt i))"
    using check_bounds_facts(1,2) [OF assms(1)] assms(2) by (metis not_None_eq)+
qed

definition clamped_int :: "parameter_spec \<Rightarrow> int \<Rightarrow> int" where
  "clamped_int p n =
     (let n1 = (case ps_minimum p of None \<Rightarrow> n | Some m \<Rightarrow> max n (int_of_literal m))
      in case ps_maximum p of None \<Rightarrow> n1 | Some m \<Rightarrow> min n1 (int_of_literal m))"

definition snapped_index :: "parameter_spec \<Rightarrow> int \<Rightarrow> int \<Rightarrow> int" where
  "snapped_index p st n =
     (let k = \<lfloor>fl_add (fl (of_int (n - step_origin p) / of_int st)) (1/2)\<rfloor>;
          k1 = (case ps_minimum p of None \<Rightarrow> k | Some m \<Rightarrow> max k 0)
      in case ps_maximum p of None \<Rightarrow> k1 | Some m \<Rightarrow> min k1 ((int_of_literal m - step_origin p) div st))"

lemma snap_to_step_eq:
  assumes "1 \<le> st" and "st \<le> 2 ^ 51" and "\<bar>n - step_origin p\<bar> \<le> 2 ^ 51"
    and "\<And>m. ps_maximum p = Some m \<Longrightarrow> \<bar>int_of_literal m - step_origin p\<bar> \<le> 2 ^ 51"
  shows "snap_to_step p st n = Inr (step_origin p + snapped_index p st n * st)"
proof -
  note div_n = true_div_floor(1) [OF assms(3,1,2)]
  have zero: "true_div 0 st = Inr (fl 0)" using true_div_floor(1) [of 0 st] assms(1,2) by simp
  have min0: "int_of_literal m - step_origin p = 0" if "ps_minimum p = Some m" for m
    using that by (simp add: step_origin_def)
  have fl0: "fl 0 = 0" by (simp add: fl_def)
  note hi = true_div_floor [OF assms(4) assms(1,2)]
  show ?thesis
    using hi by (simp add: snap_to_step_def snapped_index_def Let_def div_n min0 zero fl0 split: option.split)
qed

text \<open>
  C38. An INT control with a step accepts every authored integer of moderate size and stores a
  value inside its bounds that lies on its grid; a value that already validates is kept.
\<close>

theorem sanitize_int_snaps:
  assumes "spec_ok p" and "ps_type p = INT_T" and "ps_step p = Some st" and "st \<le> 2 ^ 51"
    and "bounded_int (2 ^ 50) (ps_minimum p)" and "bounded_int (2 ^ 50) (ps_maximum p)" and "\<bar>n\<bar> \<le> 2 ^ 50"
  shows "\<exists>m. sanitize_value p (LInt n) = Inr (LInt m) \<and> validate_parameter p (LInt m) = None \<and>
    (m - step_origin p) mod st = 0 \<and> (validate_parameter p (LInt n) = None \<longrightarrow> m = n)"
proof -
  have b: "check_bounds p = Inr ()" and cs: "check_step p = Inr ()"
    using parameter_spec_init_facts(3,4) assms(1) by (auto simp: spec_ok_def)
  have st: "1 \<le> st" and ch: "ps_choices p = []"
    using cs assms(3) by (auto simp: check_step_def split: if_splits)
  have ic: "int_choices [] = []" by (simp add: int_choices_def List.map_filter_def)
  let ?c = "clamped_int p n" and ?o = "step_origin p"
  have o: "\<bar>?o\<bar> \<le> 2 ^ 50" using int_bound(1) [OF b assms(2)] assms(5) by (auto simp: step_origin_def)
  have hi: "\<bar>int_of_literal m - ?o\<bar> \<le> 2 ^ 51" if "ps_maximum p = Some m" for m
    using int_bound(2) [OF b assms(2)] assms(6) o that by auto
  have c: "\<bar>?c - ?o\<bar> \<le> 2 ^ 51"
    using int_bound [OF b assms(2)] assms(5-7) o by (auto simp: clamped_int_def)
  let ?k = "snapped_index p st ?c"
  let ?m = "?o + ?k * st"
  have san: "sanitize_int p n = Inr ?m"
    using snap_to_step_eq [OF st assms(4) c hi]
    by (simp add: sanitize_int_def assms(3) ch ic clamped_int_def [symmetric, unfolded Let_def] Let_def)
  have grid: "(?m - ?o) mod st = 0" by simp
  have low: "i \<le> ?m" if "ps_minimum p = Some (LInt i)" for i
  proof -
    have "?o = i" using that by (simp add: step_origin_def)
    moreover have "0 \<le> ?k"
    proof (cases "ps_maximum p")
      case None
      then show ?thesis by (simp add: snapped_index_def Let_def that)
    next
      case (Some h)
      then obtain j where j: "h = LInt j" using int_bound(2) [OF b assms(2)] by auto
      have "i \<le> j" using check_bounds_facts(3) [OF b that Some] by (simp add: num_less_def j)
      then have "0 \<le> (j - i) div st" using st by (simp add: pos_imp_zdiv_nonneg_iff)
      then show ?thesis by (simp add: snapped_index_def Let_def that Some j \<open>?o = i\<close>)
    qed
    ultimately show ?thesis using st by simp
  qed
  have high: "?m \<le> j" if "ps_maximum p = Some (LInt j)" for j
  proof -
    have "?k \<le> (j - ?o) div st" by (simp add: snapped_index_def Let_def that split: option.split)
    then have "?k * st \<le> (j - ?o) div st * st" using st by (intro mult_right_mono) auto
    also have "\<dots> \<le> j - ?o" using st div_mult_mod_eq [of "j - ?o" st] pos_mod_sign [of st "j - ?o"] by linarith
    finally show ?thesis by linarith
  qed
  have "validate_parameter p (LInt x) = None" if "\<And>i. ps_minimum p = Some (LInt i) \<Longrightarrow> i \<le> x"
    "\<And>j. ps_maximum p = Some (LInt j) \<Longrightarrow> x \<le> j" "(x - ?o) mod st = 0" for x
    using int_bound [OF b assms(2)] that
    by (auto simp: validate_parameter_def validate_number_def assms(2,3) ch num_less_def split: option.split)
  from this [OF low high grid] have valid: "validate_parameter p (LInt ?m) = None" .
  have keep: "?m = n" if v: "validate_parameter p (LInt n) = None"
  proof -
    have mod: "(n - ?o) mod st = 0" and "\<And>i. ps_minimum p = Some (LInt i) \<Longrightarrow> i \<le> n"
      and "\<And>j. ps_maximum p = Some (LInt j) \<Longrightarrow> n \<le> j"
      using v by (auto simp: validate_parameter_def validate_number_def assms(2,3) ch num_less_def
          split: if_splits option.splits)
    note le = this(2,3)
    have cn: "?c = n" using int_bound [OF b assms(2)] le by (auto simp: clamped_int_def max_def min_def)
    define k where "k = (n - ?o) div st"
    have nk: "n - ?o = k * st" using mod div_mult_mod_eq [of "n - ?o" st] by (simp add: k_def)
    have "\<bar>k\<bar> * 1 \<le> \<bar>k\<bar> * \<bar>st\<bar>" using st by (intro mult_left_mono) auto
    then have kb: "\<bar>k\<bar> \<le> 2 ^ 51" using c cn nk by (simp add: abs_mult)
    then have kb': "\<bar>k\<bar> \<le> 2 ^ 53" by simp
    have "of_int (n - ?o) / of_int st = (of_int k :: rat)" using st by (simp add: nk)
    then have fl: "\<lfloor>fl_add (fl (of_int (n - ?o) / of_int st)) (1/2)\<rfloor> = k"
      using half_step_floor [OF kb] fl_of_int [OF kb'] by simp
    have k_low: "0 \<le> k" if "ps_minimum p = Some m" for m
      using int_bound(1) [OF b assms(2)] that le(1) st
      by (auto simp: k_def step_origin_def pos_imp_zdiv_nonneg_iff)
    have k_high: "k \<le> (int_of_literal m - ?o) div st" if "ps_maximum p = Some m" for m
      using int_bound(2) [OF b assms(2)] that le(2) st
      by (auto simp: k_def intro!: zdiv_mono1)
    have "snapped_index p st n = k"
      using fl k_low k_high by (auto simp: snapped_index_def Let_def split: option.split)
    with nk show ?thesis by (simp add: cn)
  qed
  have "sanitize_value p (LInt n) = Inr (LInt ?m)"
  proof -
    have "sanitize_value p (LInt n) = Inr (LInt x)"
      if "sanitize_int p n = Inr x" "validate_parameter p (LInt x) = None" for x
      using that by (simp add: sanitize_value_def check_literal_def assms(2))
    from this [OF san valid] show ?thesis .
  qed
  with valid grid keep show ?thesis by (intro exI [of _ ?m] conjI impI) assumption+
qed

section \<open>Contracts\<close>

definition socket_ok :: "parameter_spec \<Rightarrow> bool" where
  "socket_ok p \<longleftrightarrow> spec_ok p \<and> ps_connectable p \<noteq> None \<and>
     (ps_connectable p = Some True \<longleftrightarrow> ps_connected_type p \<noteq> None)"

definition contract_ok :: "execution_contract \<Rightarrow> bool" where
  "contract_ok c \<longleftrightarrow> distinct (map ip_id (ec_inputs c)) \<and> distinct (map op_id (ec_outputs c)) \<and>
     distinct (map ps_id (ec_parameters c)) \<and>
     set (map ip_id (ec_inputs c)) \<inter> set (map ps_id (ec_parameters c)) = {} \<and>
     (\<forall>p \<in> set (ec_parameters c). socket_ok p) \<and>
     (\<forall>v. ec_variadic c = Some v \<longrightarrow>
        (\<forall>p \<in> set (ec_inputs c). variadic_index v (ip_id p) = None) \<and>
        (\<forall>p \<in> set (ec_parameters c). variadic_index v (ps_id p) = None))"

lemma resolve_socket_facts:
  assumes "resolve_parameter_socket p kind policy = Inr q"
  shows "socket_ok q" and "resolve_parameter_socket q kind policy = Inr q" and "ps_id q = ps_id p"
proof -
  define b where "b = (case ps_connectable p of Some b \<Rightarrow> b | None \<Rightarrow> default_connectable p kind policy)"
  define socket where "socket = (if b then
       (if ps_type p \<in> {FLOAT, INT_T} then Inr (Some FLOAT)
        else if ps_type p = BOOL then Inr (Some BOOL)
        else if ps_connected_type p = None
          then Inl (ValueError (Msg ''Connectable parameter {} requires connected_port_type'' [ArgStr (ps_id p)]))
        else Inr (ps_connected_type p))
     else Inr None)"
  have "bind_res socket (\<lambda>t. parameter_spec_init (p\<lparr>ps_connectable := Some b, ps_connected_type := t\<rparr>)) = Inr q"
    using assms unfolding resolve_parameter_socket_def Let_def b_def socket_def .
  then obtain t where s: "socket = Inr t" and init: "parameter_spec_init (p\<lparr>ps_connectable := Some b, ps_connected_type := t\<rparr>) = Inr q"
    by (auto simp: bind_res_eq_Inr)
  have q: "q = p\<lparr>ps_connectable := Some b, ps_connected_type := t\<rparr>" by (rule parameter_spec_init_facts(1) [OF init])
  have i: "parameter_spec_init q = Inr q" using init q by simp
  have bt: "b \<longleftrightarrow> t \<noteq> None" using s by (auto simp: socket_def split: if_splits)
  have t: "b \<Longrightarrow> ps_type p \<in> {FLOAT, INT_T} \<Longrightarrow> t = Some FLOAT" "b \<Longrightarrow> ps_type p = BOOL \<Longrightarrow> t = Some BOOL"
    using s by (auto simp: socket_def split: if_splits)
  show "socket_ok q" "ps_id q = ps_id p" using i bt by (simp_all add: q socket_ok_def spec_ok_def)
  have same: "q\<lparr>ps_connectable := Some b, ps_connected_type := t\<rparr> = q" by (simp add: q)
  have f: "ps_connectable q = Some b" "ps_type q = ps_type p" "ps_connected_type q = t" by (simp_all add: q)
  have "(if b then
       (if ps_type q \<in> {FLOAT, INT_T} then Inr (Some FLOAT)
        else if ps_type q = BOOL then Inr (Some BOOL)
        else if ps_connected_type q = None
          then Inl (ValueError (Msg ''Connectable parameter {} requires connected_port_type'' [ArgStr (ps_id q)]))
        else Inr (ps_connected_type q))
     else Inr None) = Inr t"
    unfolding f using t bt by auto
  then show "resolve_parameter_socket q kind policy = Inr q"
    unfolding resolve_parameter_socket_def Let_def f(1) option.case by (simp only: bind_res_simps same i)
qed

lemma resolve_sockets_facts:
  "resolve_sockets ps kind policy = Inr qs \<Longrightarrow> (\<forall>q \<in> set qs. socket_ok q) \<and>
     resolve_sockets qs kind policy = Inr qs \<and> map ps_id qs = map ps_id ps"
  by (induction ps arbitrary: qs) (auto simp: bind_res_eq_Inr dest: resolve_socket_facts)

text \<open>
  Constructing an execution contract normalises it: identifiers of ports and parameters are
  unique and disjoint, no fixed identifier falls into the variadic family, every parameter's
  default is valid, and a parameter is connectable exactly when its socket type is settled.
  Constructing the normalised contract again changes nothing.
\<close>

theorem contract_normalised:
  assumes "execution_contract_init c = Inr c'"
  shows "contract_ok c' \<and> execution_contract_init c' = Inr c'"
proof -
  obtain ps where ps: "resolve_sockets (ec_parameters c) (ec_kind c) (ec_cache_policy c) = Inr ps"
    and c': "c' = c\<lparr>ec_parameters := ps\<rparr>" and p: "check_contract_ports c' = Inr ()"
    and src: "check_contract_source c' = Inr ()"
    and rest: "type_id_ok (ec_type_id c)" "\<not> ec_version c < 1"
    using assms by (auto simp: execution_contract_init_def Let_def bind_res_eq_Inr split: if_splits)
  note r = resolve_sockets_facts [OF ps]
  have "contract_ok c'"
    using p r unfolding check_contract_ports_def contract_ok_def
    by (auto simp: bind_res_eq_Inr c' list_ex_iff split: if_splits option.splits)
  moreover have "execution_contract_init c' = Inr c'"
    using r p src rest by (simp add: execution_contract_init_def c')
  ultimately show ?thesis ..
qed

section \<open>The registry\<close>

definition type_of :: "node_definition \<Rightarrow> string" where
  "type_of d = ec_type_id (nd_execution d)"

lemma registry_register_eq:
  "registry_register d r = Inr r' \<longleftrightarrow> type_of d |\<notin>| fmdom r \<and> r' = fmupd (type_of d) d r"
  by (auto simp: registry_register_def type_of_def Let_def)

lemma registry_fold:
  "(\<exists>r'. foldM registry_register ds r = Inr r') \<longleftrightarrow>
     distinct (map type_of ds) \<and> (\<forall>d \<in> set ds. type_of d |\<notin>| fmdom r)"
proof (induction ds arbitrary: r)
  case (Cons d ds)
  show ?case
  proof (cases "type_of d |\<in>| fmdom r")
    case True
    then show ?thesis by (simp add: registry_register_def type_of_def Let_def)
  next
    case False
    then have "foldM registry_register (d # ds) r = foldM registry_register ds (fmupd (type_of d) d r)"
      by (simp add: registry_register_def type_of_def Let_def)
    with Cons.IH [of "fmupd (type_of d) d r"] False show ?thesis
      by (auto simp: image_iff)
  qed
qed simp

lemma registry_fold_lookup:
  "foldM registry_register ds r = Inr r' \<Longrightarrow>
   fmlookup r' t = (case List.find (\<lambda>d. type_of d = t) ds of Some d \<Rightarrow> Some d | None \<Rightarrow> fmlookup r t)"
proof (induction ds arbitrary: r)
  case (Cons d ds)
  from Cons.prems have rest: "foldM registry_register ds (fmupd (type_of d) d r) = Inr r'"
    by (auto simp: bind_res_eq_Inr registry_register_eq)
  have "\<forall>x \<in> set ds. type_of x \<noteq> type_of d"
    using registry_fold [of ds "fmupd (type_of d) d r"] rest by auto
  then have "List.find (\<lambda>x. type_of x = type_of d) ds = None" by (simp add: find_None_iff)
  with Cons.IH [OF rest] show ?case by (auto split: option.split)
qed simp

text \<open>
  A registry is built exactly from definitions of distinct types, and then finds under each
  type the definition registered for it and nothing under any other name.
\<close>

theorem registry_finds_registered:
  "((\<exists>r. registry_init ds = Inr r) \<longleftrightarrow> distinct (map type_of ds)) \<and>
   (\<forall>r t. registry_init ds = Inr r \<longrightarrow> fmlookup r t = List.find (\<lambda>d. type_of d = t) ds)"
  using registry_fold [of ds fmempty] registry_fold_lookup [of ds fmempty]
  by (auto simp: registry_init_def split: option.splits)

theorem registry_finds_registered_witness:
  "\<exists>r d. registry_init [d] = Inr r \<and> fmlookup r (type_of d) = Some d"
proof -
  fix d :: node_definition
  obtain r where r: "registry_init [d] = Inr r" using registry_finds_registered [of "[d]"] by auto
  with registry_finds_registered [of "[d]"] have "fmlookup r (type_of d) = Some d" by simp
  with r show ?thesis by blast
qed

section \<open>Migrations\<close>

definition steps_between :: "string \<Rightarrow> int \<Rightarrow> int \<Rightarrow> migration_step list" where
  "steps_between t v w = map (\<lambda>i. (t, i, i + 1)) [v..w - 1]"

lemma steps_between_Cons: "v < w \<Longrightarrow> steps_between t v w = (t, v, v + 1) # steps_between t (v + 1) w"
  by (simp add: steps_between_def upto_rec1)

lemma steps_between_done: "\<not> v < w \<Longrightarrow> steps_between t v w = []"
  by (simp add: steps_between_def)

text \<open>
  One step of the walk, and the payloads a sequence of steps leads through: the step registered for
  the version is called, answers the next version and keeps identifier and type.
\<close>

definition same_identity :: "json_object \<Rightarrow> json_object \<Rightarrow> bool" where
  "same_identity d d' \<longleftrightarrow> json_eq (json_get d' ''id'') (json_get d ''id'') \<and>
     json_eq (json_get d' ''type_id'') (json_get d ''type_id'')"

definition steps_to :: "node_migration \<Rightarrow> int \<Rightarrow> json_object \<Rightarrow> json_object \<Rightarrow> bool" where
  "steps_to m v d d' \<longleftrightarrow> m d = Inr d' \<and> json_version d' = Inr (v + 1) \<and> same_identity d d'"

inductive migration_path :: "(int, node_migration) dict \<Rightarrow> int \<Rightarrow> json_object \<Rightarrow> int \<Rightarrow> json_object \<Rightarrow> bool" for ms where
  here: "migration_path ms v d v d"
| onward: "dict_get ms v = Some m \<Longrightarrow> steps_to m v d d1 \<Longrightarrow> migration_path ms (v + 1) d1 w d' \<Longrightarrow>
    migration_path ms v d w d'"

lemma migrate_loop_step:
  assumes "v < target" and "dict_get ms v = Some m"
  shows "steps_to m v d d1 \<Longrightarrow>
      migrate_loop t ms target v d steps = migrate_loop t ms target (v + 1) d1 (steps @ [(t, v, v + 1)])"
    and "\<not> (\<exists>d1. steps_to m v d d1) \<Longrightarrow> \<exists>e. migrate_loop t ms target v d steps = Inl e"
proof -
  note unfold = migrate_loop.simps [of t ms target v d steps]
  show "migrate_loop t ms target v d steps = migrate_loop t ms target (v + 1) d1 (steps @ [(t, v, v + 1)])"
    if "steps_to m v d d1"
    using that assms by (simp add: unfold steps_to_def same_identity_def)
  show "\<exists>e. migrate_loop t ms target v d steps = Inl e" if no: "\<not> (\<exists>d1. steps_to m v d d1)"
  proof (cases "m d")
    case (Inr d1)
    then show ?thesis
      using no assms by (cases "json_version d1") (auto simp: unfold steps_to_def same_identity_def)
  qed (use assms in \<open>simp add: unfold\<close>)
qed

lemma migrate_loop_path:
  assumes "\<forall>i. v \<le> i \<and> i < target \<longrightarrow> i \<in> fst ` set ms" and "v \<le> target"
  shows "case migrate_loop t ms target v d steps of
      Inr (d', s) \<Rightarrow> migration_path ms v d target d' \<and> s = steps @ steps_between t v target
    | Inl e \<Rightarrow> \<exists>w d1 m. migration_path ms v d w d1 \<and> v \<le> w \<and> w < target \<and> dict_get ms w = Some m \<and>
        \<not> (\<exists>d2. steps_to m w d1 d2)"
  using assms
proof (induction t ms target v d steps rule: migrate_loop.induct)
  case (1 t ms target v d steps)
  show ?case
  proof (cases "v < target")
    case False
    with 1(3) have "v = target" by simp
    then show ?thesis
      by (simp add: migrate_loop.simps [of t ms target target] steps_between_done migration_path.here)
  next
    case True
    with 1(2) have "v \<in> fst ` set ms" by simp
    then obtain m where m: "dict_get ms v = Some m" by (metis dict_get_None_iff not_None_eq)
    show ?thesis
    proof (cases "\<exists>d1. steps_to m v d d1")
      case False
      then obtain e where "migrate_loop t ms target v d steps = Inl e"
        using migrate_loop_step(2) [OF True m] by blast
      with False True m show ?thesis by (auto intro: migration_path.here)
    next
      case (True)
      then obtain d1 where d1: "steps_to m v d d1" by blast
      then have parts: "m d = Inr d1" "json_version d1 = Inr (v + 1)"
        "json_eq (json_get d1 ''id'') (json_get d ''id'')" "json_eq (json_get d1 ''type_id'') (json_get d ''type_id'')"
        by (simp_all add: steps_to_def same_identity_def)
      note eq = migrate_loop_step(1) [OF \<open>v < target\<close> m d1, of t steps]
      have ih: "case migrate_loop t ms target (v + 1) d1 (steps @ [(t, v, v + 1)]) of
          Inr (d', s) \<Rightarrow> migration_path ms (v + 1) d1 target d' \<and>
            s = (steps @ [(t, v, v + 1)]) @ steps_between t (v + 1) target
        | Inl e \<Rightarrow> \<exists>w d2 m. migration_path ms (v + 1) d1 w d2 \<and> v + 1 \<le> w \<and> w < target \<and> dict_get ms w = Some m \<and>
            \<not> (\<exists>d3. steps_to m w d2 d3)"
        using \<open>v < target\<close> m parts 1(2) by (intro 1(1)) auto
      show ?thesis
      proof (cases "migrate_loop t ms target (v + 1) d1 (steps @ [(t, v, v + 1)])")
        case (Inl e)
        with ih obtain w d2 m' where w: "migration_path ms (v + 1) d1 w d2" "v + 1 \<le> w" "w < target"
          "dict_get ms w = Some m'" "\<not> (\<exists>d3. steps_to m' w d2 d3)" by auto
        from migration_path.onward [OF m d1 w(1)] w(2-5) have
          "\<exists>w d1 m. migration_path ms v d w d1 \<and> v \<le> w \<and> w < target \<and> dict_get ms w = Some m \<and>
            \<not> (\<exists>d2. steps_to m w d1 d2)" by (intro exI conjI) (assumption | simp)+
        with Inl eq show ?thesis by simp
      next
        case (Inr r)
        obtain d' s where r: "r = (d', s)" by fastforce
        with Inr ih have "migration_path ms (v + 1) d1 target d'"
          "s = (steps @ [(t, v, v + 1)]) @ steps_between t (v + 1) target" by simp_all
        with migration_path.onward [OF m d1] Inr r eq \<open>v < target\<close> show ?thesis by (simp add: steps_between_Cons)
      qed
    qed
  qed
qed

text \<open>A saved node names its identifier and its type.\<close>

definition identified :: "json_object \<Rightarrow> bool" where
  "identified d \<longleftrightarrow> (\<exists>i t. json_get d ''id'' = JStr i \<and> json_get d ''type_id'' = JStr t)"

lemma json_eq_str: "json_eq x (JStr s) \<longleftrightarrow> x = JStr s"
  by (cases x) auto

lemma migration_path_keeps:
  "migration_path ms v d w d' \<Longrightarrow> json_version d = Inr v \<Longrightarrow> identified d \<Longrightarrow>
   json_version d' = Inr w \<and> json_get d' ''id'' = json_get d ''id'' \<and> json_get d' ''type_id'' = json_get d ''type_id''"
proof (induction rule: migration_path.induct)
  case (onward v m d d1 w d')
  then have "json_get d1 ''id'' = json_get d ''id''" "json_get d1 ''type_id'' = json_get d ''type_id''"
    by (auto simp: steps_to_def same_identity_def identified_def json_eq_str)
  moreover have "identified d1" "json_version d1 = Inr (v + 1)"
    using calculation onward by (simp_all add: identified_def steps_to_def)
  ultimately show ?case using onward.IH by simp
qed simp

lemma chain_covers:
  assumes "check_migration_chain t target keys = Inr ()" and "keys \<noteq> []"
    and "Min (set keys) \<le> i" and "i < target"
  shows "i \<in> set keys"
  using assms by (auto simp: check_migration_chain_def split: if_splits)

text \<open>
  C36. When the migration chain of a definition passes the registration check, a payload of a
  version the chain covers is walked up step by step, whatever the registered steps do: either the
  result stands at the current version, reached through one call per version each of which
  answered the next version and kept the identity, and has the identifier and type of the input; or
  the error is due to a registered step that raised, answered another version or changed the
  identity, all steps before it having succeeded.
\<close>

theorem migration_reaches_target:
  assumes "check_migration_chain t target (dict_keys ms) = Inr ()" and "ms \<noteq> []" and "identified d"
    and "json_version d = Inr v" and "Min (set (dict_keys ms)) \<le> v" and "v \<le> target"
  shows "case migrate_node_data t ms d target of
      Inr (d', steps) \<Rightarrow> migration_path ms v d target d' \<and> steps = steps_between t v target \<and>
        json_version d' = Inr target \<and> json_get d' ''id'' = json_get d ''id'' \<and>
        json_get d' ''type_id'' = json_get d ''type_id''
    | Inl e \<Rightarrow> \<exists>w d1 m. migration_path ms v d w d1 \<and> v \<le> w \<and> w < target \<and> dict_get ms w = Some m \<and>
        \<not> (\<exists>d2. m d1 = Inr d2 \<and> json_version d2 = Inr (w + 1) \<and> same_identity d1 d2)"
proof -
  have "\<forall>i. v \<le> i \<and> i < target \<longrightarrow> i \<in> fst ` set ms"
    using chain_covers [OF assms(1)] assms(2,5) by fastforce
  note path = migrate_loop_path [OF this assms(6), where t = t and d = d and steps = "[]"]
  have loop: "migrate_node_data t ms d target = migrate_loop t ms target v d []"
    using assms(4,6) by (simp add: migrate_node_data_def)
  show ?thesis
  proof (cases "migrate_loop t ms target v d []")
    case (Inl e)
    with path show ?thesis by (simp add: loop steps_to_def)
  next
    case (Inr r)
    obtain d' s where r: "r = (d', s)" by fastforce
    with Inr path have p: "migration_path ms v d target d'" "s = steps_between t v target" by simp_all
    from migration_path_keeps [OF p(1) assms(4,3)] p Inr r show ?thesis by (simp add: loop)
  qed
qed

section \<open>Concrete specifications\<close>

definition demo_spec :: "string \<Rightarrow> port_type \<Rightarrow> literal \<Rightarrow> literal \<Rightarrow> literal \<Rightarrow> int option \<Rightarrow> parameter_spec" where
  "demo_spec i t d lo hi st = \<lparr>ps_id = i, ps_label = i, ps_type = t, ps_default = d, ps_help = [],
     ps_minimum = Some lo, ps_maximum = Some hi, ps_choices = [], ps_connectable = None,
     ps_connected_type = None, ps_update_mode = LIVE, ps_editor_hint = HINT_DEFAULT,
     ps_applicable = [], ps_step = st, ps_device_kind = None\<rparr>"

definition demo_gain :: parameter_spec where
  "demo_gain = demo_spec ''gain'' FLOAT (LFloat (Fin (1/2))) (LFloat (Fin 0)) (LFloat (Fin 1)) None"

definition demo_kernel :: parameter_spec where
  "demo_kernel = demo_spec ''kernel'' INT_T (LInt 3) (LInt 1) (LInt 9) (Some 2)"

lemmas spec_eval = spec_ok_def parameter_spec_init_def validate_stable_id_def is_lower_def is_digit_def
  less_eq_char_def check_bounds_def check_bound_def num_less_def check_step_def validate_parameter_def
  validate_number_def step_origin_def demo_spec_def float_of_int_def

lemma demo_gain_ok: "spec_ok demo_gain"
  by (simp add: demo_gain_def spec_eval)

lemma demo_kernel_ok: "spec_ok demo_kernel"
  by (simp add: demo_kernel_def spec_eval)

text \<open>
  The condition on integer bounds is needed: a bound between two floats is accepted, but the value
  clamped to it is rounded past it and rejected.
\<close>

lemma inexact_bound_raises:
  "spec_ok (demo_spec ''gain'' FLOAT (LFloat (Fin 0)) (LInt 0) (LInt (2 ^ 53 + 3)) None) \<and>
   isl (sanitize_value (demo_spec ''gain'' FLOAT (LFloat (Fin 0)) (LInt 0) (LInt (2 ^ 53 + 3)) None)
     (LFloat (Fin (10 ^ 16))))"
  by code_simp

definition demo_contract :: execution_contract where
  "demo_contract = \<lparr>ec_type_id = ''demo.blur'', ec_version = 1, ec_kind = STATELESS, ec_inputs = [],
     ec_outputs = [], ec_parameters = [demo_gain, demo_kernel], ec_variadic = None, ec_cache_policy = AUTO,
     ec_handles_no_data = False, ec_port_type_resolver = None, ec_required_input_resolver = None,
     ec_parameter_validator = None, ec_source_outputs = None, ec_has_config_builder = False\<rparr>"

theorem parameter_values_valid_witness:
  "\<exists>v. fmlookup (fst (parameter_values demo_contract (fmupd ''gain'' (LFloat (Fin 7)) fmempty))) ''gain'' = Some v \<and>
     validate_parameter demo_gain v = None"
proof -
  have d: "distinct (map ps_id (ec_parameters demo_contract))"
    by (simp add: demo_contract_def demo_gain_def demo_kernel_def demo_spec_def)
  have ok: "\<forall>p \<in> set (ec_parameters demo_contract). spec_ok p"
    by (simp add: demo_contract_def demo_gain_ok demo_kernel_ok)
  have "demo_gain \<in> set (ec_parameters demo_contract)" "ps_id demo_gain = ''gain''"
    by (simp_all add: demo_contract_def demo_gain_def demo_spec_def)
  with parameter_values_valid [OF d ok, of "fmupd ''gain'' (LFloat (Fin 7)) fmempty"] show ?thesis by metis
qed

theorem sanitize_float_clamps_witness:
  "sanitize_value demo_gain (LFloat (Fin 3)) = Inr (LFloat (Fin 1)) \<and>
   validate_parameter demo_gain (LFloat (Fin 1)) = None"
  using sanitize_float_clamps [OF demo_gain_ok, of 3]
  by (simp add: demo_gain_def demo_spec_def clamp_low_def clamp_high_def)

theorem sanitize_int_snaps_witness:
  "\<exists>m. sanitize_value demo_kernel (LInt 6) = Inr (LInt m) \<and> (m - 1) mod 2 = 0"
  using sanitize_int_snaps [OF demo_kernel_ok, of 2 6]
  by (auto simp: demo_kernel_def demo_spec_def step_origin_def)

theorem contract_normalised_witness:
  "\<exists>c. execution_contract_init demo_contract = Inr c \<and> contract_ok c"
proof -
  have "\<exists>c. execution_contract_init demo_contract = Inr c"
    by (simp add: execution_contract_init_def demo_contract_def is_lower_def is_digit_def less_eq_char_def
        resolve_parameter_socket_def default_connectable_def demo_gain_def demo_kernel_def spec_eval Let_def
        check_contract_ports_def check_contract_source_def ensure_unique_def)
  then show ?thesis using contract_normalised by blast
qed

definition demo_migration :: node_migration where
  "demo_migration d = Inr (dict_set ''implementation_version'' (JInt 1) d)"

lemma demo_migrates:
  "migrate_node_data ''demo.blur'' [(0, demo_migration)]
     [(''id'', JStr ''n1''), (''type_id'', JStr ''demo.blur''), (''implementation_version'', JInt 0)] 1 =
   Inr ([(''id'', JStr ''n1''), (''type_id'', JStr ''demo.blur''), (''implementation_version'', JInt 1)],
     [(''demo.blur'', 0, 1)])"
  by (simp add: migrate_node_data_def json_version_def json_get_def migrate_loop.simps demo_migration_def)

theorem migration_reaches_target_witness:
  "migration_path [(0, demo_migration)] 0
     [(''id'', JStr ''n1''), (''type_id'', JStr ''demo.blur''), (''implementation_version'', JInt 0)] 1
     [(''id'', JStr ''n1''), (''type_id'', JStr ''demo.blur''), (''implementation_version'', JInt 1)]"
proof -
  have c: "check_migration_chain ''demo.blur'' 1 (dict_keys [(0 :: int, demo_migration)]) = Inr ()"
    by (simp add: check_migration_chain_def)
  show ?thesis
    using migration_reaches_target [OF c, of "[(''id'', JStr ''n1''), (''type_id'', JStr ''demo.blur''),
      (''implementation_version'', JInt 0)]" 0]
    by (simp add: demo_migrates identified_def json_get_def json_version_def)
qed

end
