(* ===== verification/CompilerFacts.thy ===== *)
theory CompilerFacts
  imports Compiler NodeFacts
begin

text \<open>
  The stages of the compiler never fail on a registry of well-formed contracts, and what each of
  them guarantees to the next: the index of definitions, the kept connections, the table of port
  types, the clocks.
\<close>

section \<open>Registries\<close>

text \<open>
  What a port type resolver of a node author must keep to: it answers for the declared ports, and
  generic arrays are restricted to types that have an array type. The second condition also
  applies to declared types.
\<close>

fun array_ok :: "type_expr \<Rightarrow> bool" where
  "array_ok (ArrayTypeVariable v a) \<longleftrightarrow> a \<noteq> {} \<and> a \<subseteq> {FLOAT, INT_T, IMAGE, CHANNEL}"
| "array_ok _ \<longleftrightarrow> True"

definition declared_port :: "execution_contract \<Rightarrow> string \<Rightarrow> bool \<Rightarrow> bool" where
  "declared_port c p is_output \<longleftrightarrow> (if is_output then contract_output c p \<noteq> None else contract_input c p \<noteq> None)"

definition contract_types_ok :: "execution_contract \<Rightarrow> bool" where
  "contract_types_ok c \<longleftrightarrow>
     (\<forall>p out params. declared_port c p out \<longrightarrow> (\<exists>e. port_type_of c p out params = Inr e \<and> array_ok e))"

definition registry_ok :: "node_registry \<Rightarrow> bool" where
  "registry_ok r \<longleftrightarrow> (\<forall>t d. fmlookup r t = Some d \<longrightarrow> contract_ok (nd_execution d) \<and> contract_types_ok (nd_execution d))"

definition definitions_ok :: "definitions \<Rightarrow> bool" where
  "definitions_ok ds \<longleftrightarrow> dict_ok ds \<and>
     (\<forall>(n, d) \<in> set ds. contract_ok (nd_execution d) \<and> contract_types_ok (nd_execution d))"

section \<open>The index of definitions\<close>

lemma map_filter_items:
  "distinct (map fst items) \<Longrightarrow>
   map_of (map (\<lambda>(i, n, d). (i, g n d))
     (List.map_filter (\<lambda>(i, n). map_option (\<lambda>d. (i, n, d)) (f n)) items)) i =
   (case map_of items i of None \<Rightarrow> None | Some n \<Rightarrow> map_option (g n) (f n))"
proof (induction items)
  case (Cons x items)
  obtain j n where x: "x = (j, n)" by (cases x)
  have "map_of items j = None" using Cons.prems by (simp add: x dict_get_None_iff)
  with Cons x show ?case
    by (cases "f n") (auto simp: List.map_filter_simps simp del: map_of_eq_None_iff split: option.splits)
qed (simp add: List.map_filter_simps)

lemma map_filter_keys:
  "map fst (map (\<lambda>(i, n, d). (i, g n d))
     (List.map_filter (\<lambda>(i, n). map_option (\<lambda>d. (i, n, d)) (f n)) items)) =
   map fst (filter (\<lambda>(i, n). f n \<noteq> None) items)"
  by (induction items) (auto simp: List.map_filter_simps split: option.splits)

lemma resolve_definitions_facts:
  assumes "resolve_definitions registry nodes = (defs, values, is)"
  shows "dict_get defs i = (case fmlookup nodes i of None \<Rightarrow> None | Some n \<Rightarrow> fmlookup registry (node_type_id n))"
    and "dict_get values i = (case fmlookup nodes i of None \<Rightarrow> None | Some n \<Rightarrow>
       map_option (\<lambda>d. fst (parameter_values (nd_execution d) (parameters n))) (fmlookup registry (node_type_id n)))"
    and "dict_ok defs" and "sorted (dict_keys defs)"
    and "is = concat (map (\<lambda>(i, n). definition_issues i n (fmlookup registry (node_type_id n))) (sorted_list_of_fmap nodes))"
proof -
  let ?items = "sorted_list_of_fmap nodes"
  let ?known = "List.map_filter (\<lambda>(i, n). map_option (\<lambda>d. (i, n, d)) (fmlookup registry (node_type_id n))) ?items"
  have eq: "defs = map (\<lambda>(i, n, d). (i, d)) ?known"
    "values = map (\<lambda>(i, n, d). (i, fst (parameter_values (nd_execution d) (parameters n)))) ?known"
    "is = concat (map (\<lambda>(i, n). definition_issues i n (fmlookup registry (node_type_id n))) ?items)"
    using assms by (auto simp: resolve_definitions_def Let_def)
  have d: "distinct (map fst ?items)" by (rule distinct_sorted_list_of_fmap)
  have l: "map_of ?items i = fmlookup nodes i"
    by (metis fmap_of_sorted_list fmlookup_of_list)
  show "dict_get defs i = (case fmlookup nodes i of None \<Rightarrow> None | Some n \<Rightarrow> fmlookup registry (node_type_id n))"
    unfolding eq(1) map_filter_items [OF d, of "\<lambda>n d. d"] l by (simp add: option.map_ident split: option.split)
  show "dict_get values i = (case fmlookup nodes i of None \<Rightarrow> None | Some n \<Rightarrow>
       map_option (\<lambda>d. fst (parameter_values (nd_execution d) (parameters n))) (fmlookup registry (node_type_id n)))"
    unfolding eq(2) map_filter_items [OF d, of "\<lambda>n d. fst (parameter_values (nd_execution d) (parameters n))"] l ..
  have k: "dict_keys defs = map fst (filter (\<lambda>(i, n). fmlookup registry (node_type_id n) \<noteq> None) ?items)"
    unfolding eq(1) by (rule map_filter_keys)
  show "dict_ok defs" unfolding dict_ok_def k by (rule distinct_map_filter [OF d])
  show "sorted (dict_keys defs)" unfolding k by (rule sorted_filter [OF sorted_sorted_list_of_fmap])
  show "is = concat (map (\<lambda>(i, n). definition_issues i n (fmlookup registry (node_type_id n))) ?items)"
    by (rule eq(3))
qed

lemma index_nodes_lookup:
  "fmlookup (fst (index_nodes ns m)) i =
     (case fmlookup m i of Some n \<Rightarrow> Some n | None \<Rightarrow> List.find (\<lambda>n. node_id n = i) ns)"
  by (induction ns arbitrary: m)
     (auto simp: split_beta fmlookup_dom_iff split: option.splits if_splits)

lemma index_nodes_dom: "fset (fmdom (fst (index_nodes ns m))) = fset (fmdom m) \<union> node_id ` set ns"
  by (induction ns arbitrary: m) (auto simp: split_beta)

lemma index_nodes_duplicates:
  "snd (index_nodes ns m) = [] \<longleftrightarrow> distinct (map node_id ns) \<and> node_id ` set ns \<inter> fset (fmdom m) = {}"
  by (induction ns arbitrary: m) (auto simp: split_beta)

lemma repeated_connections_Nil:
  "repeated_connections cs seen = [] \<longleftrightarrow> distinct (map conn_id cs) \<and> conn_id ` set cs \<inter> seen = {}"
  by (induction cs arbitrary: seen) auto

section \<open>The kept connections\<close>

definition connectable_input :: "execution_contract \<Rightarrow> string \<Rightarrow> bool" where
  "connectable_input c p \<longleftrightarrow> contract_input c p \<noteq> None \<or>
     (\<exists>q. contract_parameter c p = Some q \<and> ps_connectable q = Some True)"

definition kept_ok :: "node_index \<Rightarrow> definitions \<Rightarrow> connection_model \<Rightarrow> bool" where
  "kept_ok nodes defs c \<longleftrightarrow> source_node c |\<in>| fmdom nodes \<and> destination_node c |\<in>| fmdom nodes \<and>
     (\<exists>sd dd. dict_get defs (source_node c) = Some sd \<and> dict_get defs (destination_node c) = Some dd \<and>
        contract_output (nd_execution sd) (source_port c) \<noteq> None \<and>
        connectable_input (nd_execution dd) (destination_port c))"

lemma check_connection_kept: "snd (check_connection nodes defs c) \<longleftrightarrow> kept_ok nodes defs c"
  unfolding check_connection_def kept_ok_def connectable_input_def
  by (auto split: option.split)

lemma check_connections_step:
  assumes "conn_id c \<notin> seen" and "check_connections nodes defs cs (insert (conn_id c) seen) = (v, i)"
  shows "check_connections nodes defs (c # cs) seen =
    (if kept_ok nodes defs c then c # v else v, fst (check_connection nodes defs c) @ i)"
  using assms by (auto simp: split_beta check_connection_kept)

lemma check_connections_facts:
  assumes "check_connections nodes defs cs seen = (valid, is)"
  shows "set valid \<subseteq> set cs \<and> (\<forall>c \<in> set valid. kept_ok nodes defs c) \<and>
    conn_id ` set valid \<inter> seen = {} \<and> distinct (map conn_id valid)"
  using assms
proof (induction cs arbitrary: seen valid "is")
  case (Cons c cs)
  show ?case
  proof (cases "conn_id c \<in> seen")
    case True
    with Cons.prems have "check_connections nodes defs cs seen = (valid, is)" by simp
    from Cons.IH [OF this] show ?thesis by auto
  next
    case False
    obtain v i where vi: "check_connections nodes defs cs (insert (conn_id c) seen) = (v, i)" by (metis surj_pair)
    have "valid = (if kept_ok nodes defs c then c # v else v)"
      using Cons.prems check_connections_step [OF False vi] by simp
    moreover have "distinct (map conn_id v)" "conn_id c \<notin> conn_id ` set v" "conn_id ` set v \<inter> seen = {}"
      "set v \<subseteq> set cs" "\<forall>c \<in> set v. kept_ok nodes defs c"
      using Cons.IH [OF vi] by auto
    ultimately show ?thesis using False by auto
  qed
qed simp

lemma check_connections_unique:
  assumes "distinct (map conn_id cs)" and "conn_id ` set cs \<inter> seen = {}"
  shows "check_connections nodes defs cs seen =
    (filter (kept_ok nodes defs) cs, concat (map (\<lambda>c. fst (check_connection nodes defs c)) cs))"
  using assms
proof (induction cs arbitrary: seen)
  case (Cons c cs)
  then have "check_connections nodes defs cs (insert (conn_id c) seen) =
      (filter (kept_ok nodes defs) cs, concat (map (\<lambda>c. fst (check_connection nodes defs c)) cs))"
    by auto
  from check_connections_step [OF _ this] Cons.prems show ?case by simp
qed simp

end
