(* ===== verification/CompilerTypes.thy ===== *)
theory CompilerTypes
  imports CompilerFacts
begin

text \<open>
  The type resolution of the compiler: on a registry of well-formed contracts it never fails, the
  table it returns has exactly the declared ports, a port without a settled type is reported
  unless it is only offered as the next socket of its family, and a pair of settled types that do
  not fit is reported.
\<close>

section \<open>The declared ports\<close>

lemma next_free_ge: "n \<le> next_free used n"
  by (induction used n rule: next_free.induct) (metis Suc_eq_plus1 Suc_leD next_free.simps order_refl)

lemma family_index_pos:
  assumes "i \<in> set (family_indexes v ports b)"
  shows "0 < i"
proof -
  let ?used = "remdups (List.map_filter (variadic_index v) ports)"
  let ?indexes = "set [1..<minimum_count v + 1] \<union> set ?used"
  have used: "0 < j" if "j \<in> set ?used" for j
    using that by (auto simp: List.map_filter_def dest: variadic_index_inverse(2))
  have "finite ?indexes" by simp
  then have "set (family_indexes v ports b) \<subseteq> insert (next_free ?used 1) ?indexes"
    by (auto simp: family_indexes_def Let_def split: if_splits)
  with assms have "i = next_free ?used 1 \<or> i \<in> set [1..<minimum_count v + 1] \<or> i \<in> set ?used" by blast
  then show ?thesis using used next_free_ge [of 1 ?used] by auto
qed

lemma find_some: "x \<in> set xs \<Longrightarrow> P x \<Longrightarrow> List.find P xs \<noteq> None"
  by (auto simp: find_None_iff)

lemma input_port_declared:
  assumes "p \<in> set (map ip_id (input_ports c ports b))"
  shows "declared_port c p False"
proof -
  from assms consider "p \<in> ip_id ` set (ec_inputs c)"
    | v i where "ec_variadic c = Some v" "i \<in> set (family_indexes v ports b)" "p = ip_id (variadic_socket v i)"
    by (auto simp: input_ports_def split: option.splits)
  then show ?thesis
  proof cases
    case 1
    then obtain q where "q \<in> set (ec_inputs c)" "ip_id q = p" by blast
    then have "List.find (\<lambda>q. ip_id q = p) (ec_inputs c) \<noteq> None" by (rule find_some)
    then show ?thesis by (auto simp: declared_port_def contract_input_def)
  next
    case 2
    then have "variadic_index v p = Some i"
      using variadic_index_port [OF family_index_pos [OF 2(2)]] by (simp add: variadic_socket_def)
    with 2(1) show ?thesis by (auto simp: declared_port_def contract_input_def split: option.split)
  qed
qed

lemma output_port_declared: "p \<in> set (map op_id (ec_outputs c)) \<Longrightarrow> declared_port c p True"
  using find_some [of _ "ec_outputs c" "\<lambda>q. op_id q = p"]
  by (auto simp: declared_port_def contract_output_def)

lemma family_indexes_connected:
  assumes "p \<in> set ports" and "variadic_index v p = Some i"
  shows "i \<in> set (family_indexes v ports b)"
proof -
  have "i \<in> set (remdups (List.map_filter (variadic_index v) ports))"
    using assms by (force simp: List.map_filter_def)
  moreover have "finite (set [1..<minimum_count v + 1] \<union> set (remdups (List.map_filter (variadic_index v) ports)))"
    by simp
  ultimately show ?thesis by (auto simp: family_indexes_def Let_def)
qed

lemma connected_input_listed:
  assumes "contract_input c p \<noteq> None" and "p \<in> set ports"
  shows "p \<in> set (map ip_id (input_ports c ports b))"
proof (cases "List.find (\<lambda>q. ip_id q = p) (ec_inputs c)")
  case None
  then obtain v i where v: "ec_variadic c = Some v" "variadic_index v p = Some i"
    using assms(1) by (auto simp: contract_input_def split: option.splits)
  from family_indexes_connected [OF assms(2) v(2)] have "i \<in> set (family_indexes v ports b)" .
  moreover have "p = ip_id (variadic_socket v i)"
    using variadic_index_inverse(1) [OF v(2)] by (simp add: variadic_socket_def)
  ultimately show ?thesis using v(1) by (auto simp: input_ports_def)
next
  case (Some q)
  then have "q \<in> set (ec_inputs c)" "ip_id q = p" by (auto simp: find_Some_iff)
  then show ?thesis by (auto simp: input_ports_def split: option.split)
qed

lemma input_ports_mono: "set (input_ports c ports False) \<subseteq> set (input_ports c ports True)"
proof -
  have "set (family_indexes v ports False) \<subseteq> set (family_indexes v ports True)" for v
    by (auto simp: family_indexes_def Let_def)
  then show ?thesis by (auto simp: input_ports_def split: option.split)
qed

section \<open>Collecting\<close>

fun decl_of :: "uuid \<Rightarrow> type_expr \<Rightarrow> var_key var_decl option" where
  "decl_of n (PT t) = None"
| "decl_of n (TypeVariable v a d) = Some ((n, v), a, d)"
| "decl_of n (ArrayTypeVariable v a) = Some ((n, v), a, None)"

lemma declare_variable_run:
  "declare_variable n e (run_declarations ds) =
     run_declarations (ds @ (case decl_of n e of None \<Rightarrow> [] | Some x \<Rightarrow> [x]))"
  by (cases e) (simp_all add: declare_variable_def run_declarations_def)

definition covered :: "var_key var_decl list \<Rightarrow> (port_ref, type_expr) dict \<Rightarrow> bool" where
  "covered ds es \<longleftrightarrow> (\<forall>r e. dict_get es r = Some e \<longrightarrow>
     array_ok e \<and> (\<forall>x. decl_of (fst r) e = Some x \<longrightarrow> x \<in> set ds))"

definition env_ok :: "type_env \<Rightarrow> port_ref set \<Rightarrow> port_ref set \<Rightarrow> bool" where
  "env_ok env K X \<longleftrightarrow>
     (\<exists>ds. te_groups env = run_declarations ds \<and> covered ds (te_expressions env)) \<and>
     dict_ok (te_expressions env) \<and> fst ` set (te_expressions env) = K \<and> te_next_only env = X"

lemma env_ok_init: "env_ok type_env_init {} {}"
  by (auto simp: env_ok_def type_env_init_def covered_def run_declarations_def intro!: exI [of _ "[]"])

definition next_ref :: "uuid \<Rightarrow> bool \<Rightarrow> string list option \<Rightarrow> string \<Rightarrow> port_ref set" where
  "next_ref n out base p = (case base of Some ids \<Rightarrow> if p \<in> set ids then {} else {(n, p, out)} | None \<Rightarrow> {})"

lemma declare_port_ok:
  assumes "env_ok env K X" and "declared_port c p out" and "contract_types_ok c"
  shows "\<exists>env'. declare_port n out c params base p env = Inr env' \<and>
    env_ok env' (insert (n, p, out) K) (X \<union> next_ref n out base p)"
proof -
  obtain ds where ds: "te_groups env = run_declarations ds" "covered ds (te_expressions env)"
    and rest: "dict_ok (te_expressions env)" "fst ` set (te_expressions env) = K" "te_next_only env = X"
    using assms(1) by (auto simp: env_ok_def)
  obtain e where e: "port_type_of c p out params = Inr e" "array_ok e"
    using assms(2,3) unfolding contract_types_ok_def by blast
  let ?ds = "ds @ (case decl_of n e of None \<Rightarrow> [] | Some x \<Rightarrow> [x])"
  have "covered ?ds (dict_set (n, p, out) e (te_expressions env))"
    using ds(2) e(2) unfolding covered_def by (auto split: option.splits)
  moreover have "declare_variable n e (te_groups env) = run_declarations ?ds"
    by (simp only: ds(1) declare_variable_run)
  ultimately show ?thesis
    using rest by (auto simp: declare_port_def e(1) env_ok_def next_ref_def split: option.split)
qed

lemma declare_ports_ok:
  assumes "contract_types_ok c" and "\<forall>p \<in> set ps. declared_port c p out" and "env_ok env K X"
  shows "\<exists>env'. foldM (declare_port n out c params base) ps env = Inr env' \<and>
    env_ok env' (K \<union> (\<lambda>p. (n, p, out)) ` set ps) (X \<union> (\<Union>p \<in> set ps. next_ref n out base p))"
  using assms(2,3)
proof (induction ps arbitrary: env K X)
  case (Cons p ps)
  from declare_port_ok [OF Cons.prems(2) _ assms(1), of p out n params base] Cons.prems(1)
  obtain env1 where 1: "declare_port n out c params base p env = Inr env1"
    "env_ok env1 (insert (n, p, out) K) (X \<union> next_ref n out base p)" by auto
  from Cons.IH [OF _ 1(2)] Cons.prems(1) obtain env' where
    "foldM (declare_port n out c params base) ps env1 = Inr env'"
    "env_ok env' (insert (n, p, out) K \<union> (\<lambda>p. (n, p, out)) ` set ps)
       (X \<union> next_ref n out base p \<union> (\<Union>p \<in> set ps. next_ref n out base p))" by auto
  with 1(1) show ?case by (simp add: Un_assoc)
qed simp

definition socket_refs :: "uuid \<Rightarrow> parameter_spec list \<Rightarrow> port_ref set" where
  "socket_refs n ps = {(n, ps_id p, False) | p. p \<in> set ps \<and> ps_connectable p = Some True \<and> ps_connected_type p \<noteq> None}"

lemma declare_parameters_ok:
  "env_ok env K X \<Longrightarrow> env_ok (fold (declare_parameter n) ps env) (K \<union> socket_refs n ps) X"
proof (induction ps arbitrary: env K)
  case Nil
  then show ?case by (simp add: socket_refs_def)
next
  case (Cons p ps)
  show ?case
  proof (cases "\<exists>t. ps_connectable p = Some True \<and> ps_connected_type p = Some t")
    case True
    then obtain t where t: "ps_connectable p = Some True" "ps_connected_type p = Some t" by blast
    have "env_ok (declare_parameter n p env) (insert (n, ps_id p, False) K) X"
      using Cons.prems by (auto simp: env_ok_def declare_parameter_def t covered_def)
    moreover have "insert (n, ps_id p, False) K \<union> socket_refs n ps = K \<union> socket_refs n (p # ps)"
      using t by (auto simp: socket_refs_def)
    ultimately show ?thesis using Cons.IH by fastforce
  next
    case False
    then have "declare_parameter n p env = env" "socket_refs n (p # ps) = socket_refs n ps"
      by (auto simp: declare_parameter_def socket_refs_def split: option.splits bool.splits)
    then show ?thesis using Cons.IH [OF Cons.prems] by simp
  qed
qed

definition node_refs :: "connection_model list \<Rightarrow> uuid \<times> node_definition \<Rightarrow> port_ref set" where
  "node_refs cs nd = (case nd of (n, d) \<Rightarrow>
     (\<lambda>p. (n, p, False)) ` set (map ip_id (input_ports (nd_execution d) (connected_inputs cs n) True)) \<union>
     socket_refs n (ec_parameters (nd_execution d)) \<union>
     (\<lambda>p. (n, p, True)) ` set (map op_id (ec_outputs (nd_execution d))))"

definition node_next :: "connection_model list \<Rightarrow> uuid \<times> node_definition \<Rightarrow> port_ref set" where
  "node_next cs nd = (case nd of (n, d) \<Rightarrow>
     (\<lambda>p. (n, p, False)) ` (set (map ip_id (input_ports (nd_execution d) (connected_inputs cs n) True)) -
        set (map ip_id (input_ports (nd_execution d) (connected_inputs cs n) False))))"

lemma declare_node_ok:
  assumes "env_ok env K X" and "contract_types_ok (nd_execution d)"
  shows "\<exists>env'. declare_node cs values (n, d) env = Inr env' \<and>
    env_ok env' (K \<union> node_refs cs (n, d)) (X \<union> node_next cs (n, d))"
proof -
  let ?c = "nd_execution d" and ?ports = "connected_inputs cs n"
  let ?base = "Some (map ip_id (input_ports ?c ?ports False))" and ?ins = "map ip_id (input_ports ?c ?ports True)"
  have ins: "\<forall>p \<in> set ?ins. declared_port ?c p False" using input_port_declared by blast
  have outs: "\<forall>p \<in> set (map op_id (ec_outputs ?c)). declared_port ?c p True" using output_port_declared by blast
  from declare_ports_ok [OF assms(2) ins assms(1), of n "params_of values n" ?base] obtain env1 where
    1: "foldM (declare_port n False ?c (params_of values n) ?base) ?ins env = Inr env1"
      "env_ok env1 (K \<union> (\<lambda>p. (n, p, False)) ` set ?ins) (X \<union> (\<Union>p \<in> set ?ins. next_ref n False ?base p))"
    by blast
  note 2 = declare_parameters_ok [OF 1(2), of n "ec_parameters ?c"]
  from declare_ports_ok [OF assms(2) outs 2, of n "params_of values n" None] obtain env2 where
    3: "foldM (declare_port n True ?c (params_of values n) None) (map op_id (ec_outputs ?c))
         (fold (declare_parameter n) (ec_parameters ?c) env1) = Inr env2"
      "env_ok env2 (K \<union> (\<lambda>p. (n, p, False)) ` set ?ins \<union> socket_refs n (ec_parameters ?c) \<union>
          (\<lambda>p. (n, p, True)) ` set (map op_id (ec_outputs ?c)))
        (X \<union> (\<Union>p \<in> set ?ins. next_ref n False ?base p) \<union> (\<Union>p \<in> set (map op_id (ec_outputs ?c)). next_ref n True None p))"
    by blast
  have "(\<Union>p \<in> set ?ins. next_ref n False ?base p) = node_next cs (n, d)"
    "(\<Union>p \<in> set (map op_id (ec_outputs ?c)). next_ref n True None p) = {}"
    by (auto simp: next_ref_def node_next_def)
  moreover have "K \<union> (\<lambda>p. (n, p, False)) ` set ?ins \<union> socket_refs n (ec_parameters ?c) \<union>
          (\<lambda>p. (n, p, True)) ` set (map op_id (ec_outputs ?c)) = K \<union> node_refs cs (n, d)"
    by (auto simp: node_refs_def)
  moreover have "declare_node cs values (n, d) env = Inr env2"
    using 1(1) 3(1) by (simp add: declare_node_def Let_def)
  ultimately show ?thesis using 3(2) by (simp only: Un_empty_right) blast
qed

lemma declare_nodes_ok:
  assumes "\<forall>(n, d) \<in> set defs. contract_types_ok (nd_execution d)" and "env_ok env K X"
  shows "\<exists>env'. foldM (declare_node cs values) defs env = Inr env' \<and>
    env_ok env' (K \<union> (\<Union>nd \<in> set defs. node_refs cs nd)) (X \<union> (\<Union>nd \<in> set defs. node_next cs nd))"
  using assms
proof (induction defs arbitrary: env K X)
  case (Cons nd defs)
  obtain n d where nd: "nd = (n, d)" by (cases nd)
  from declare_node_ok [OF Cons.prems(2), of d cs "values" n] Cons.prems(1) obtain env1 where
    1: "declare_node cs values nd env = Inr env1" "env_ok env1 (K \<union> node_refs cs nd) (X \<union> node_next cs nd)"
    by (auto simp: nd)
  from Cons.IH [OF _ 1(2)] Cons.prems(1) obtain env' where
    "foldM (declare_node cs values) defs env1 = Inr env'"
    "env_ok env' (K \<union> node_refs cs nd \<union> (\<Union>nd \<in> set defs. node_refs cs nd))
      (X \<union> node_next cs nd \<union> (\<Union>nd \<in> set defs. node_next cs nd))" by auto
  with 1(1) show ?case by (simp add: Un_assoc)
qed simp

section \<open>Linking\<close>

definition constraint_of :: "(port_ref, type_expr) dict \<Rightarrow> connection_model \<Rightarrow> var_key constraint option" where
  "constraint_of es c =
     (case (dict_get es (source_node c, source_port c, True), dict_get es (destination_node c, destination_port c, False)) of
        (Some s, Some d) \<Rightarrow>
          (case (variable_key (source_node c) s, variable_key (destination_node c) d) of
             (Some sk, Some dk) \<Rightarrow> Some (Same sk dk)
           | (Some sk, None) \<Rightarrow> (case d of PT t \<Rightarrow> Some (Bound sk (base_type t s)) | _ \<Rightarrow> None)
           | (None, Some dk) \<Rightarrow> (case s of PT t \<Rightarrow> Some (Bound dk (base_type t d)) | _ \<Rightarrow> None)
           | (None, None) \<Rightarrow> None)
      | _ \<Rightarrow> None)"

definition linked :: "(port_ref, type_expr) dict \<Rightarrow> connection_model \<Rightarrow> bool" where
  "linked es c \<longleftrightarrow> dict_get es (source_node c, source_port c, True) \<noteq> None \<and>
     dict_get es (destination_node c, destination_port c, False) \<noteq> None"

lemma link_connection_run:
  "linked es c \<Longrightarrow> link_connection es c g = (case constraint_of es c of None \<Rightarrow> Inr g | Some x \<Rightarrow> run_constraint x g)"
  by (auto simp: linked_def link_connection_def constraint_of_def expression_of_def
      simp del: map_of_eq_None_iff split: option.split type_expr.split)

lemma link_connections_run:
  "\<forall>c \<in> set cs. linked es c \<Longrightarrow>
   foldM (link_connection es) cs g = foldM run_constraint (List.map_filter (constraint_of es) cs) g"
proof (induction cs arbitrary: g)
  case (Cons c cs)
  then show ?case
    by (auto simp: link_connection_run List.map_filter_simps bind_res_def split: option.split sum.split)
qed (simp add: List.map_filter_simps)

lemma decl_of_key: "variable_key n e = Some k \<Longrightarrow> \<exists>a d. decl_of n e = Some (k, a, d)"
  by (cases e) (simp_all add: variable_key_def)

lemma covered_key:
  "covered ds es \<Longrightarrow> dict_get es r = Some e \<Longrightarrow> variable_key (fst r) e = Some k \<Longrightarrow> k \<in> fst ` set ds"
proof -
  assume c: "covered ds es" and r: "dict_get es r = Some e" and k: "variable_key (fst r) e = Some k"
  from decl_of_key [OF k] obtain a d where "decl_of (fst r) e = Some (k, a, d)" by blast
  with c r have "(k, a, d) \<in> set ds" unfolding covered_def by blast
  then show "k \<in> fst ` set ds" by (rule rev_image_eqI) simp
qed

lemma constraint_covered:
  assumes "covered ds es" and "constraint_of es c = Some x"
  shows "constraint_keys x \<subseteq> fst ` set ds"
proof -
  from assms(2) obtain s d where sd: "dict_get es (source_node c, source_port c, True) = Some s"
    "dict_get es (destination_node c, destination_port c, False) = Some d"
    by (auto simp: constraint_of_def split: option.splits)
  note keys = covered_key [OF assms(1) sd(1)] covered_key [OF assms(1) sd(2)]
  have x: "x = Same a b \<longrightarrow> variable_key (source_node c) s = Some a \<and> variable_key (destination_node c) d = Some b"
    "x = Bound a t \<longrightarrow> variable_key (source_node c) s = Some a \<or> variable_key (destination_node c) d = Some a" for a b t
    using assms(2) by (auto simp: constraint_of_def sd split: option.splits type_expr.splits)
  show ?thesis
  proof (cases x)
    case (Same a b)
    then have "a \<in> fst ` set ds" "b \<in> fst ` set ds" using x(1) [of a b] keys [unfolded fst_conv] by blast+
    then show ?thesis unfolding Same constraint_keys.simps by blast
  next
    case (Bound a t)
    then have "a \<in> fst ` set ds" using x(2) [of a t] keys [unfolded fst_conv] by blast
    then show ?thesis unfolding Bound constraint_keys.simps by blast
  qed
qed

section \<open>Settling\<close>

definition array_of :: "port_type \<Rightarrow> port_type" where
  "array_of t = (if t \<in> {FLOAT, INT_T} then SCALAR_ARRAY else if t = IMAGE then IMAGE_ARRAY else CHANNEL_ARRAY)"

definition port_value :: "var_key var_decl list \<Rightarrow> var_key constraint list \<Rightarrow> port_ref \<Rightarrow> type_expr \<Rightarrow> port_type option" where
  "port_value ds cons r e =
     (case e of
        PT t \<Rightarrow> Some t
      | TypeVariable v _ _ \<Rightarrow>
          if conflict (class_candidates cons (fst r, v)) (class_allowed ds cons (fst r, v)) \<noteq> {} then None
          else decide (class_candidates cons (fst r, v)) (class_allowed ds cons (fst r, v)) (class_defaults ds cons (fst r, v))
      | ArrayTypeVariable v _ \<Rightarrow>
          if conflict (class_candidates cons (fst r, v)) (class_allowed ds cons (fst r, v)) \<noteq> {} then None
          else map_option array_of
            (decide (class_candidates cons (fst r, v)) (class_allowed ds cons (fst r, v)) (class_defaults ds cons (fst r, v))))"

lemma class_allowed_declared:
  assumes "(k, a, d) \<in> set ds" and "a \<noteq> {}"
  shows "\<exists>A. class_allowed ds cons k = Some A \<and> A \<subseteq> a"
proof -
  have "a \<in> gather cons (declares ds) k"
    unfolding gather_def declares_def
    by (rule CollectI, rule exI [of _ k], intro conjI same_refl assms(2) exI [of _ d] assms(1))
  then show ?thesis by (auto simp: class_allowed_def meet_def)
qed

lemma decide_allowed:
  assumes "decide c (Some A) d = Some t"
  shows "t \<in> A \<or> t = FLOAT"
proof -
  from assms have sub: "c \<subseteq> A" by (auto simp: decide_def split: if_splits)
  consider "c = {}" | "c \<noteq> {}" "card c = 1" | "c \<noteq> {}" "card c \<noteq> 1" by blast
  then show ?thesis
  proof cases
    case 1
    then show ?thesis using assms by (auto simp: decide_def Let_def split: if_splits)
  next
    case 2
    then obtain x where "c = {x}" by (auto simp: card_1_singleton_iff)
    then show ?thesis using assms sub by (auto simp: decide_def)
  next
    case 3
    then show ?thesis using assms by (auto simp: decide_def split: if_splits)
  qed
qed

definition unsettled_issue :: "port_ref \<Rightarrow> validation_issue \<Rightarrow> bool" where
  "unsettled_issue r i \<longleftrightarrow> vi_severity i = ERROR \<and> vi_node i = Some (fst r) \<and> vi_port i = Some (fst (snd r)) \<and>
     vi_connection i = None \<and> vi_code i \<in> {''generic_type_conflict'', ''unresolved_generic_type''}"

lemma settle_variable_ok:
  assumes "array_ok e" and "decl_of (fst r) e = Some (k, a, d)" and "(k, a, d) \<in> set ds"
    and "inc = conflict (class_candidates cons k) (class_allowed ds cons k)"
    and "val = decide (class_candidates cons k) (class_allowed ds cons k) (class_defaults ds cons k)"
  shows "\<exists>is. settle_variable r e (snd k) b inc val = Inr (port_value ds cons r e, is) \<and>
    (\<forall>i \<in> set is. unsettled_issue r i) \<and> (is = [] \<longleftrightarrow> b \<or> port_value ds cons r e \<noteq> None)"
proof (cases e)
  case (PT t)
  with assms(2) show ?thesis by simp
next
  case (TypeVariable v a' d')
  with assms(2) have "k = (fst r, v)" by simp
  then show ?thesis
    by (simp add: settle_variable_def port_value_def TypeVariable assms(4,5) unsettled_issue_def error_issue_def
        split: option.split)
next
  case (ArrayTypeVariable v a')
  with assms(2) have k: "k = (fst r, v)" "a' = a" by simp_all
  with assms(1) ArrayTypeVariable have a: "a \<noteq> {}" "a \<subseteq> {FLOAT, INT_T, IMAGE, CHANNEL}" by simp_all
  from class_allowed_declared [OF assms(3) a(1)] obtain A where A: "class_allowed ds cons k = Some A" "A \<subseteq> a" by blast
  have "array_type t = Inr (array_of t)" if "val = Some t" for t
  proof -
    have "t \<in> {FLOAT, INT_T, IMAGE, CHANNEL}"
      using decide_allowed [of _ A _ t] that A a(2) assms(5) by auto
    then show ?thesis by (auto simp: array_type_def array_of_def)
  qed
  then show ?thesis
    by (auto simp: settle_variable_def port_value_def ArrayTypeVariable assms(4,5) k(1) unsettled_issue_def error_issue_def
        split: option.split)
qed

lemma settle_ports_ok:
  assumes "correct ds cons g" and "\<forall>(r, e) \<in> set es. array_ok e \<and> (\<forall>x. decl_of (fst r) e = Some x \<longrightarrow> x \<in> set ds)"
  shows "\<exists>is. settle_ports es X g = Inr (map (\<lambda>(r, e). (r, port_value ds cons r e)) es, is) \<and>
    (\<forall>i \<in> set is. \<exists>r \<in> fst ` set es. unsettled_issue r i) \<and>
    (\<forall>(r, e) \<in> set es. r \<notin> X \<longrightarrow> port_value ds cons r e = None \<longrightarrow> (\<exists>i \<in> set is. unsettled_issue r i))"
  using assms
proof (induction es arbitrary: g)
  case (Cons x es)
  obtain r e where x: "x = (r, e)" by (cases x)
  have re: "array_ok e" "\<And>y. decl_of (fst r) e = Some y \<Longrightarrow> y \<in> set ds" using Cons.prems(2) by (auto simp: x)
  have rest: "\<forall>(r, e) \<in> set es. array_ok e \<and> (\<forall>x. decl_of (fst r) e = Some x \<longrightarrow> x \<in> set ds)"
    using Cons.prems(2) by simp
  have "\<exists>is0 g'. (case variable_key (fst r) e of
         None \<Rightarrow> (case e of PT t \<Rightarrow> Inr ((Some t, []), g) | _ \<Rightarrow> Inr ((None, []), g))
       | Some key \<Rightarrow>
           bind_res (groups_conflict key g) (\<lambda>(incompatible, g).
           bind_res (groups_resolve key g) (\<lambda>(value_type, g).
           bind_res (settle_variable r e (snd key) (r \<in> X) incompatible value_type) (\<lambda>res.
             Inr (res, g))))) = Inr ((port_value ds cons r e, is0), g') \<and> correct ds cons g' \<and>
       (\<forall>i \<in> set is0. unsettled_issue r i) \<and> (is0 = [] \<longleftrightarrow> r \<in> X \<or> port_value ds cons r e \<noteq> None)"
  proof (cases "variable_key (fst r) e")
    case None
    then obtain t where "e = PT t" by (cases e) (simp_all add: variable_key_def)
    with Cons.prems(1) show ?thesis by (simp add: variable_key_def port_value_def)
  next
    case (Some k)
    from decl_of_key [OF Some] obtain a d where d: "decl_of (fst r) e = Some (k, a, d)" by blast
    have in_ds: "(k, a, d) \<in> set ds" by (rule re(2) [OF d])
    then have "k \<in> fst ` set ds" by (rule rev_image_eqI) simp
    note q = correct_queries [OF _ this]
    from q(2) [OF Cons.prems(1)] obtain g1 where
      g1: "groups_conflict k g = Inr (conflict (class_candidates cons k) (class_allowed ds cons k), g1)"
        "correct ds cons g1" by blast
    from q(1) [OF g1(2)] obtain g2 where
      g2: "groups_resolve k g1 = Inr (decide (class_candidates cons k) (class_allowed ds cons k) (class_defaults ds cons k), g2)"
        "correct ds cons g2" by blast
    from settle_variable_ok [where cons = cons and b = "r \<in> X", OF re(1) d in_ds refl refl] g1(1) g2 Some show ?thesis by auto
  qed
  then obtain is0 g' where head: "(case variable_key (fst r) e of
         None \<Rightarrow> (case e of PT t \<Rightarrow> Inr ((Some t, []), g) | _ \<Rightarrow> Inr ((None, []), g))
       | Some key \<Rightarrow>
           bind_res (groups_conflict key g) (\<lambda>(incompatible, g).
           bind_res (groups_resolve key g) (\<lambda>(value_type, g).
           bind_res (settle_variable r e (snd key) (r \<in> X) incompatible value_type) (\<lambda>res.
             Inr (res, g))))) = Inr ((port_value ds cons r e, is0), g')"
    and g': "correct ds cons g'" and is0: "\<forall>i \<in> set is0. unsettled_issue r i"
      "is0 = [] \<longleftrightarrow> r \<in> X \<or> port_value ds cons r e \<noteq> None" by blast
  from Cons.IH [OF g' rest] obtain is1 where
    tail: "settle_ports es X g' = Inr (map (\<lambda>(r, e). (r, port_value ds cons r e)) es, is1)"
    and is1: "\<forall>i \<in> set is1. \<exists>r \<in> fst ` set es. unsettled_issue r i"
      "\<forall>(r, e) \<in> set es. r \<notin> X \<longrightarrow> port_value ds cons r e = None \<longrightarrow> (\<exists>i \<in> set is1. unsettled_issue r i)" by blast
  have "settle_ports (x # es) X g = Inr (map (\<lambda>(r, e). (r, port_value ds cons r e)) (x # es), is0 @ is1)"
    by (simp only: x settle_ports.simps head bind_res_simps prod.case tail list.map)
  moreover have "\<forall>i \<in> set (is0 @ is1). \<exists>r \<in> fst ` set (x # es). unsettled_issue r i"
  proof
    fix i assume "i \<in> set (is0 @ is1)"
    then consider "unsettled_issue r i" | r' where "r' \<in> fst ` set es" "unsettled_issue r' i"
      using is0(1) is1(1) by (metis set_append Un_iff)
    then show "\<exists>r \<in> fst ` set (x # es). unsettled_issue r i"
      unfolding x list.set image_insert fst_conv by cases blast+
  qed
  moreover have "\<forall>(r, e) \<in> set (x # es). r \<notin> X \<longrightarrow> port_value ds cons r e = None \<longrightarrow> (\<exists>i \<in> set (is0 @ is1). unsettled_issue r i)"
  proof -
    have "\<exists>i \<in> set is0. unsettled_issue r i" if "r \<notin> X" "port_value ds cons r e = None"
      using is0 that by (cases is0) auto
    then show ?thesis using is1(2) by (auto simp: x)
  qed
  ultimately show ?case by blast
qed simp

section \<open>The table of port types\<close>

definition all_refs :: "connection_model list \<Rightarrow> definitions \<Rightarrow> port_ref set" where
  "all_refs cs defs = (\<Union>nd \<in> set defs. node_refs cs nd)"

definition all_next :: "connection_model list \<Rightarrow> definitions \<Rightarrow> port_ref set" where
  "all_next cs defs = (\<Union>nd \<in> set defs. node_next cs nd)"

lemma map_of_map_pairs: "map_of (map (\<lambda>(k, v). (k, f k v)) xs) k = map_option (f k) (map_of xs k)"
  by (induction xs) auto

definition table_ok :: "connection_model list \<Rightarrow> definitions \<Rightarrow> type_table \<Rightarrow> issues \<Rightarrow> bool" where
  "table_ok cs defs table is \<longleftrightarrow> dict_ok table \<and> fst ` set table = all_refs cs defs \<and>
     (\<forall>r. dict_get table r = Some None \<longrightarrow> r \<in> all_next cs defs \<or> (\<exists>i \<in> set is. unsettled_issue r i)) \<and>
     (\<forall>c \<in> set cs. \<forall>s d. settled table (source_node c, source_port c, True) = Some s \<longrightarrow>
        settled table (destination_node c, destination_port c, False) = Some d \<longrightarrow>
        types_compatible s d \<or> (\<exists>i \<in> set is. vi_severity i = ERROR \<and> vi_connection i = Some (conn_id c))) \<and>
     (\<forall>i \<in> set is. vi_severity i = ERROR \<and>
        ((\<exists>r \<in> all_refs cs defs. unsettled_issue r i) \<or> (\<exists>c \<in> set cs. vi_connection i = Some (conn_id c))))"

lemma resolve_types_ok:
  assumes "\<forall>(n, d) \<in> set defs. contract_types_ok (nd_execution d)"
    and "\<forall>c \<in> set cs. (source_node c, source_port c, True) \<in> all_refs cs defs \<and>
      (destination_node c, destination_port c, False) \<in> all_refs cs defs"
  shows "\<exists>table is. resolve_types cs defs values = Inr (table, is) \<and> table_ok cs defs table is"
proof -
  from declare_nodes_ok [OF assms(1) env_ok_init, of cs "values"] obtain env where
    env: "foldM (declare_node cs values) defs type_env_init = Inr env"
      "env_ok env (all_refs cs defs) (all_next cs defs)"
    unfolding all_refs_def all_next_def Un_empty_left by blast
  let ?es = "te_expressions env"
  obtain ds where ds: "te_groups env = run_declarations ds" "covered ds ?es"
    and es: "dict_ok ?es" "fst ` set ?es = all_refs cs defs" "te_next_only env = all_next cs defs"
    using env(2) by (auto simp: env_ok_def)
  let ?cons = "List.map_filter (constraint_of ?es) cs"
  have "\<forall>c \<in> set cs. linked ?es c"
    using assms(2) unfolding linked_def dict_get_None_iff es(2) by blast
  then have link: "foldM (link_connection ?es) cs (te_groups env) = run_groups ds ?cons"
    by (simp add: link_connections_run run_groups_def ds(1))
  have "\<forall>x \<in> set ?cons. constraint_keys x \<subseteq> fst ` set ds"
    using constraint_covered [OF ds(2)] by (auto simp: List.map_filter_def)
  from correct_run [OF this] obtain g where g: "run_groups ds ?cons = Inr g" "correct ds ?cons g" by blast
  have "dict_get ?es r = Some e" if "(r, e) \<in> set ?es" for r e
    using that es(1) by (simp add: dict_ok_def)
  then have "\<forall>(r, e) \<in> set ?es. array_ok e \<and> (\<forall>x. decl_of (fst r) e = Some x \<longrightarrow> x \<in> set ds)"
    using ds(2) unfolding covered_def by blast
  from settle_ports_ok [OF g(2) this, of "te_next_only env"] obtain is0 where
    s: "settle_ports ?es (te_next_only env) g = Inr (map (\<lambda>(r, e). (r, port_value ds ?cons r e)) ?es, is0)"
    and is0: "\<forall>i \<in> set is0. \<exists>r \<in> fst ` set ?es. unsettled_issue r i"
      "\<forall>(r, e) \<in> set ?es. r \<notin> te_next_only env \<longrightarrow> port_value ds ?cons r e = None \<longrightarrow> (\<exists>i \<in> set is0. unsettled_issue r i)"
    by blast
  define table where "table = map (\<lambda>(r, e). (r, port_value ds ?cons r e)) ?es"
  let ?is = "is0 @ concat (map (connection_type_issues table) cs)"
  have keys: "map fst table = map fst ?es" by (simp add: table_def split_beta comp_def)
  have lookup: "dict_get table r = map_option (port_value ds ?cons r) (dict_get ?es r)" for r
    unfolding table_def by (rule map_of_map_pairs)
  have "resolve_types cs defs values = Inr (table, ?is)"
    by (simp add: resolve_types_def env(1) link g(1) s table_def)
  moreover have "table_ok cs defs table ?is"
    unfolding table_ok_def
  proof (intro conjI allI ballI impI)
    show "dict_ok table" using es(1) by (simp add: dict_ok_def keys)
    show "fst ` set table = all_refs cs defs" using es(2) keys by (metis set_map)
    fix r assume "dict_get table r = Some None"
    then obtain e where e: "dict_get ?es r = Some e" "port_value ds ?cons r e = None" using lookup by auto
    from map_of_SomeD [OF e(1)] is0(2) e(2) es(3) show "r \<in> all_next cs defs \<or> (\<exists>i \<in> set ?is. unsettled_issue r i)"
      by fastforce
  next
    fix c s d
    assume c: "c \<in> set cs" and sd: "settled table (source_node c, source_port c, True) = Some s"
      "settled table (destination_node c, destination_port c, False) = Some d"
    show "types_compatible s d \<or> (\<exists>i \<in> set ?is. vi_severity i = ERROR \<and> vi_connection i = Some (conn_id c))"
    proof (cases "types_compatible s d")
      case False
      then have "connection_type_issues table c \<noteq> []" "\<forall>i \<in> set (connection_type_issues table c). vi_severity i = ERROR \<and> vi_connection i = Some (conn_id c)"
        by (simp_all add: connection_type_issues_def sd error_issue_def)
      then obtain i where "i \<in> set (connection_type_issues table c)" "vi_severity i = ERROR" "vi_connection i = Some (conn_id c)"
        by (meson list.set_sel(1))
      with c show ?thesis by auto
    qed simp
  next
    fix i assume "i \<in> set ?is"
    then consider r where "r \<in> all_refs cs defs" "unsettled_issue r i"
      | c where "c \<in> set cs" "i \<in> set (connection_type_issues table c)"
      using is0(1) unfolding es(2) by auto
    then have "vi_severity i = ERROR \<and> ((\<exists>r \<in> all_refs cs defs. unsettled_issue r i) \<or> (\<exists>c \<in> set cs. vi_connection i = Some (conn_id c)))"
    proof cases
      case 1
      then have "vi_severity i = ERROR" by (simp add: unsettled_issue_def)
      with 1 show ?thesis by blast
    next
      case 2
      then have "vi_severity i = ERROR \<and> vi_connection i = Some (conn_id c)"
        by (auto simp: connection_type_issues_def error_issue_def split: option.splits if_splits)
      with 2(1) show ?thesis by blast
    qed
    then show "vi_severity i = ERROR" "(\<exists>r \<in> all_refs cs defs. unsettled_issue r i) \<or> (\<exists>c \<in> set cs. vi_connection i = Some (conn_id c))"
      by blast+
  qed
  ultimately show ?thesis by blast
qed

lemma kept_refs:
  assumes "kept_ok nodes defs c" and "c \<in> set cs" and "definitions_ok defs"
  shows "(source_node c, source_port c, True) \<in> all_refs cs defs"
    and "(destination_node c, destination_port c, False) \<in> all_refs cs defs"
proof -
  obtain sd dd where d: "dict_get defs (source_node c) = Some sd" "dict_get defs (destination_node c) = Some dd"
    and s: "contract_output (nd_execution sd) (source_port c) \<noteq> None"
    and t: "connectable_input (nd_execution dd) (destination_port c)"
    using assms(1) by (auto simp: kept_ok_def)
  have "source_port c \<in> set (map op_id (ec_outputs (nd_execution sd)))"
  proof -
    obtain q where "q \<in> set (ec_outputs (nd_execution sd))" "op_id q = source_port c"
      using s by (auto simp: contract_output_def find_None_iff)
    then show ?thesis by force
  qed
  with map_of_SomeD [OF d(1)] show "(source_node c, source_port c, True) \<in> all_refs cs defs"
    unfolding all_refs_def node_refs_def by (intro UN_I) auto
  have "(destination_node c, destination_port c, False) \<in> node_refs cs (destination_node c, dd)"
  proof (cases "contract_input (nd_execution dd) (destination_port c) = None")
    case True
    then obtain q where q: "contract_parameter (nd_execution dd) (destination_port c) = Some q" "ps_connectable q = Some True"
      using t by (auto simp: connectable_input_def)
    then have "q \<in> set (ec_parameters (nd_execution dd))" "ps_id q = destination_port c"
      by (auto simp: contract_parameter_def find_Some_iff)
    moreover have "contract_ok (nd_execution dd)"
      using assms(3) map_of_SomeD [OF d(2)] by (auto simp: definitions_ok_def)
    ultimately have "(destination_node c, destination_port c, False) \<in> socket_refs (destination_node c) (ec_parameters (nd_execution dd))"
      using q(2) by (auto simp: socket_refs_def contract_ok_def socket_ok_def intro!: exI [of _ q])
    then show ?thesis by (simp add: node_refs_def)
  next
    case False
    have "destination_port c \<in> set (connected_inputs cs (destination_node c))"
      using assms(2) by (auto simp: connected_inputs_def)
    from connected_input_listed [OF False this, of True] show ?thesis
      unfolding node_refs_def by simp
  qed
  with map_of_SomeD [OF d(2)] show "(destination_node c, destination_port c, False) \<in> all_refs cs defs"
    unfolding all_refs_def by (intro UN_I)
qed

end
