(* ===== verification/CompilerPlans.thy ===== *)
theory CompilerPlans
  imports CompilerTypes
begin

text \<open>
  The pipeline as a whole and the plans it builds: the analysis never fails on a registry of
  well-formed contracts, a valid analysis always yields a plan, and a plan, complete or partial,
  lists its nodes after everything they read and binds only ports of compatible types.
\<close>

section \<open>The analysis\<close>

lemma report_valid_iff: "\<forall>i \<in> set is. vi_severity i = ERROR \<Longrightarrow> report_is_valid is \<longleftrightarrow> is = []"
  by (cases "is") (simp_all add: report_is_valid_def report_errors_def filter_empty_conv)

lemma error_issue_severity [simp]: "vi_severity (error_issue code msg n c p) = ERROR"
  by (simp add: error_issue_def)

lemma index_nodes_errors: "i \<in> set (snd (index_nodes ns m)) \<Longrightarrow> vi_severity i = ERROR"
  by (induction ns arbitrary: m) (auto simp: split_beta split: if_splits)

lemma repeated_connections_errors: "i \<in> set (repeated_connections cs seen) \<Longrightarrow> vi_severity i = ERROR"
  by (induction cs arbitrary: seen) (auto split: if_splits)

lemma definition_issues_errors: "i \<in> set (definition_issues n m d) \<Longrightarrow> vi_severity i = ERROR"
  by (auto simp: definition_issues_def split: option.splits if_splits)

lemma check_connection_errors: "i \<in> set (fst (check_connection nodes defs c)) \<Longrightarrow> vi_severity i = ERROR"
  by (auto simp: check_connection_def split: option.splits if_splits)

lemma check_connections_errors:
  "i \<in> set (snd (check_connections nodes defs cs seen)) \<Longrightarrow> vi_severity i = ERROR"
  by (induction nodes defs cs seen rule: check_connections.induct)
     (auto simp: split_beta dest: check_connection_errors split: if_splits)

lemma requirement_issues_errors: "i \<in> set (requirement_issues n c ps p) \<Longrightarrow> vi_severity i = ERROR"
  by (auto simp: requirement_issues_def Let_def split: option.splits if_splits)

lemma analyze_clocks_errors:
  "i \<in> set (snd (analyze_clocks order defs cs clocks)) \<Longrightarrow> vi_severity i = ERROR"
  by (induction order defs cs clocks rule: analyze_clocks.induct)
     (auto simp: split_beta Let_def split: option.splits if_splits)

record stages =
  st_types :: issues
  st_cyclic :: "uuid list"

definition analysis_ok :: "node_registry \<Rightarrow> graph_snapshot \<Rightarrow> uuid list option \<Rightarrow> analysis \<Rightarrow> stages \<Rightarrow> bool" where
  "analysis_ok registry s requested a st \<longleftrightarrow>
     (let nodes = an_nodes a; defs = an_definitions a; cs = an_connections a; order = an_order a in
      nodes = fst (index_nodes (snap_nodes s) fmempty) \<and>
      resolve_definitions registry nodes = (defs, an_parameters a, snd (snd (resolve_definitions registry nodes))) \<and>
      definitions_ok defs \<and>
      cs = fst (validate_connections s nodes defs) \<and>
      table_ok cs defs (an_resolved_types a) (st_types st) \<and>
      distinct order \<and> greedy (edges cs) (fset (fmdom nodes)) order \<and>
      set order \<subseteq> fset (fmdom nodes) \<and> set (st_cyclic st) = fset (fmdom nodes) - set order \<and>
      set (st_cyclic st) = {n \<in> fset (fmdom nodes). cycle_reaches (edges cs) n} \<and>
      an_clocks a = fst (analyze_clocks order defs cs fmempty) \<and>
      an_roots a = fst (resolve_demand_roots nodes defs cs requested) \<and>
      an_demanded a = upstream_reachable (an_roots a) cs \<and>
      an_report a = snd (unique_nodes s) @ snd (snd (resolve_definitions registry nodes)) @
        snd (validate_connections s nodes defs) @ validate_cardinality cs @ st_types st @
        cycle_issues (st_cyclic st) @ validate_required_inputs cs defs (an_parameters a) @
        snd (analyze_clocks order defs cs fmempty) @ snd (resolve_demand_roots nodes defs cs requested) \<and>
      (\<forall>i \<in> set (an_report a). vi_severity i = ERROR))"

lemma valid_connections_facts:
  assumes "validate_connections s nodes defs = (cs, is)"
  shows "set cs \<subseteq> set (snap_connections s)" and "\<forall>c \<in> set cs. kept_ok nodes defs c" and "distinct (map conn_id cs)"
  using check_connections_facts [OF assms [unfolded validate_connections_def]] by auto

lemma definitions_of_registry:
  assumes "registry_ok registry" and "resolve_definitions registry nodes = (defs, values, is)"
  shows "definitions_ok defs"
  unfolding definitions_ok_def
proof (intro conjI ballI)
  show "dict_ok defs" by (rule resolve_definitions_facts(3) [OF assms(2)])
  fix x assume x: "x \<in> set defs"
  obtain n d where nd: "x = (n, d)" by (cases x)
  have "dict_get defs n = Some d" using x nd \<open>dict_ok defs\<close> by (simp add: dict_ok_def)
  then have "\<exists>m :: node_model. fmlookup registry (node_type_id m) = Some d"
    unfolding resolve_definitions_facts(1) [OF assms(2)] by (cases "fmlookup nodes n") auto
  then obtain m :: node_model where "fmlookup registry (node_type_id m) = Some d" by blast
  with assms(1) show "case x of (n, d) \<Rightarrow> contract_ok (nd_execution d) \<and> contract_types_ok (nd_execution d)"
    unfolding registry_ok_def nd by auto
qed

lemma analyze_ok:
  assumes "registry_ok registry"
  shows "\<exists>a st. analyze registry s requested = Inr a \<and> analysis_ok registry s requested a st"
proof -
  obtain nodes is1 where 1: "unique_nodes s = (nodes, is1)" by (metis surj_pair)
  obtain defs "values" is2 where 2: "resolve_definitions registry nodes = (defs, values, is2)" by (metis surj_pair)
  obtain cs is3 where 3: "validate_connections s nodes defs = (cs, is3)" by (metis surj_pair)
  have defs: "definitions_ok defs" by (rule definitions_of_registry [OF assms 2])
  note cs = valid_connections_facts [OF 3]
  have types: "\<forall>(n, d) \<in> set defs. contract_types_ok (nd_execution d)"
    using defs by (auto simp: definitions_ok_def)
  have "\<forall>c \<in> set cs. (source_node c, source_port c, True) \<in> all_refs cs defs \<and>
      (destination_node c, destination_port c, False) \<in> all_refs cs defs"
    using cs(2) kept_refs [OF _ _ defs] by blast
  from resolve_types_ok [OF types this, of "values"] obtain table is4 where
    4: "resolve_types cs defs values = Inr (table, is4)" "table_ok cs defs table is4" by blast
  have "\<And>c. c \<in> set cs \<Longrightarrow> source_node c |\<in>| fmdom nodes \<and> destination_node c |\<in>| fmdom nodes"
    using cs(2) by (auto simp: kept_ok_def)
  from topological_order_ok [OF this] obtain order cyc where
    5: "topological_order (fmdom nodes) cs = Inr (order, cyc)"
      "distinct order" "greedy (edges cs) (fset (fmdom nodes)) order" "set order \<subseteq> fset (fmdom nodes)"
      "set cyc = fset (fmdom nodes) - set order" "set cyc = {n \<in> fset (fmdom nodes). cycle_reaches (edges cs) n}"
    by blast
  obtain clocks is6 where 6: "analyze_clocks order defs cs fmempty = (clocks, is6)" by (metis surj_pair)
  obtain roots is7 where 7: "resolve_demand_roots nodes defs cs requested = (roots, is7)" by (metis surj_pair)
  let ?report = "is1 @ is2 @ is3 @ validate_cardinality cs @ is4 @ cycle_issues cyc @
      validate_required_inputs cs defs values @ is6 @ is7"
  let ?a = "\<lparr>an_report = ?report, an_nodes = nodes, an_definitions = defs, an_parameters = values,
      an_connections = cs, an_resolved_types = table, an_order = order, an_clocks = clocks, an_roots = roots,
      an_demanded = upstream_reachable roots cs\<rparr>"
  have e1: "vi_severity i = ERROR" if "i \<in> set is1" for i
    using that 1 index_nodes_errors repeated_connections_errors by (auto simp: unique_nodes_def split_beta)
  have e2: "vi_severity i = ERROR" if "i \<in> set is2" for i
    using that definition_issues_errors unfolding resolve_definitions_facts(5) [OF 2] by auto
  have e3: "vi_severity i = ERROR" if "i \<in> set is3" for i
    using that check_connections_errors 3 unfolding validate_connections_def by (metis snd_conv)
  have e4: "vi_severity i = ERROR" if "i \<in> set is4" for i using that 4(2) by (simp add: table_ok_def)
  have e5: "vi_severity i = ERROR" if "i \<in> set (validate_cardinality cs)" for i
    using that by (auto simp: validate_cardinality_def split: if_splits)
  have e6: "vi_severity i = ERROR" if "i \<in> set (validate_required_inputs cs defs values)" for i
    using that requirement_issues_errors by (fastforce simp: validate_required_inputs_def)
  have e7: "vi_severity i = ERROR" if "i \<in> set is6" for i using that analyze_clocks_errors 6 by (metis snd_conv)
  have e8: "vi_severity i = ERROR" if "i \<in> set is7" for i
    using that 7 by (auto simp: resolve_demand_roots_def Let_def split: option.splits if_splits)
  have errors: "\<forall>i \<in> set ?report. vi_severity i = ERROR"
    using e1 e2 e3 e4 e5 e6 e7 e8 by (auto simp: cycle_issues_def)
  have "analyze registry s requested = Inr ?a"
    by (simp add: analyze_def 1 2 3 4(1) 5(1) 6 7)
  moreover have nodes: "fst (index_nodes (snap_nodes s) fmempty) = nodes"
    using 1 by (simp add: unique_nodes_def split_beta)
  have "analysis_ok registry s requested ?a \<lparr>st_types = is4, st_cyclic = cyc\<rparr>"
    unfolding analysis_ok_def Let_def using defs 4(2) 5 errors by (simp add: nodes 1 2 3 6 7)
  ultimately show ?thesis by blast
qed

section \<open>A valid analysis\<close>

definition valid_analysis :: "node_registry \<Rightarrow> graph_snapshot \<Rightarrow> uuid list option \<Rightarrow> analysis \<Rightarrow> stages \<Rightarrow> bool" where
  "valid_analysis registry s requested a st \<longleftrightarrow> analysis_ok registry s requested a st \<and> an_report a = []"

lemma file_inputs:
  "dict_get (fold file_input cs d) k =
     (let new = filter (\<lambda>c. (destination_node c, destination_port c) = k) cs in
      case dict_get d k of None \<Rightarrow> if new = [] then None else Some new | Some l \<Rightarrow> Some (l @ new))"
proof (induction cs arbitrary: d)
  case Nil
  then show ?case by (simp split: option.split)
next
  case (Cons c cs)
  have "dict_get (file_input c d) k = (if (destination_node c, destination_port c) = k
      then Some ((case dict_get d k of None \<Rightarrow> [] | Some l \<Rightarrow> l) @ [c]) else dict_get d k)"
    by (auto simp: file_input_def Let_def)
  then show ?case
    unfolding fold_simps Cons.IH by (simp add: Let_def split: option.split)
qed

lemma short_list: "length xs \<le> 1 \<Longrightarrow> x \<in> set xs \<Longrightarrow> y \<in> set xs \<Longrightarrow> x = y"
  by (cases xs) auto

lemma cardinality_Nil: "validate_cardinality cs = [] \<Longrightarrow> (k, inc) \<in> set (by_input cs) \<Longrightarrow> length inc \<le> 1"
  by (cases k) (fastforce simp: validate_cardinality_def split: if_splits)

lemma single_occupant:
  assumes "validate_cardinality cs = []" and "c \<in> set cs" and "c' \<in> set cs"
    and "destination_node c = destination_node c'" and "destination_port c = destination_port c'"
  shows "c = c'"
proof -
  define k where "k = (destination_node c, destination_port c)"
  define new where "new = filter (\<lambda>x. (destination_node x, destination_port x) = k) cs"
  have c: "c \<in> set new" using assms(2) by (simp add: new_def k_def)
  have c': "c' \<in> set new" using assms(3-5) by (simp add: new_def k_def)
  from c have "new \<noteq> []" by auto
  then have "dict_get (by_input cs) k = Some new"
    unfolding by_input_def file_inputs Let_def new_def [symmetric] by simp
  then have "(k, new) \<in> set (by_input cs)" by (rule map_of_SomeD)
  from short_list [OF cardinality_Nil [OF assms(1) this] c c'] show ?thesis .
qed

lemma dict_get_definitions:
  assumes "definitions_ok defs" and "dict_get defs n = Some d"
  shows "contract_ok (nd_execution d)" and "node_refs cs (n, d) \<subseteq> all_refs cs defs"
  using assms(1) map_of_SomeD [OF assms(2)] unfolding definitions_ok_def all_refs_def by auto

lemma next_of_node:
  assumes "definitions_ok defs" and "dict_get defs n = Some d" and "(n, p, out) \<in> all_next cs defs"
  shows "\<not> out" and "p \<in> set (map ip_id (input_ports (nd_execution d) (connected_inputs cs n) True))"
    and "p \<notin> set (map ip_id (input_ports (nd_execution d) (connected_inputs cs n) False))"
proof -
  obtain m e where me: "(m, e) \<in> set defs" "(n, p, out) \<in> node_next cs (m, e)"
    using assms(3) by (auto simp: all_next_def)
  then have "m = n" by (auto simp: node_next_def)
  with me assms(1,2) have "e = d" by (auto simp: definitions_ok_def dict_ok_def)
  with me(2) \<open>m = n\<close> show "\<not> out" "p \<in> set (map ip_id (input_ports (nd_execution d) (connected_inputs cs n) True))"
    "p \<notin> set (map ip_id (input_ports (nd_execution d) (connected_inputs cs n) False))"
    by (auto simp: node_next_def)
qed

lemma table_settled:
  assumes "table_ok cs defs table []" and "r \<in> all_refs cs defs" and "r \<notin> all_next cs defs"
  shows "\<exists>t. dict_get table r = Some (Some t)"
proof -
  from assms(1,2) have "r \<in> fst ` set table" by (simp add: table_ok_def)
  then obtain v where v: "dict_get table r = Some v" using dict_get_None_iff [of table r] by auto
  have "\<forall>r. dict_get table r = Some None \<longrightarrow> r \<in> all_next cs defs"
    using assms(1) by (simp add: table_ok_def)
  with v assms(3) have "v \<noteq> None" by metis
  with v show ?thesis by blast
qed

lemma output_settled:
  assumes "definitions_ok defs" and "table_ok cs defs table []" and "dict_get defs n = Some d"
    and "p \<in> set (map op_id (ec_outputs (nd_execution d)))"
  shows "\<exists>t. dict_get table (n, p, True) = Some (Some t)"
proof (rule table_settled [OF assms(2)])
  show "(n, p, True) \<in> all_refs cs defs"
    using dict_get_definitions(2) [OF assms(1,3), of cs] assms(4) by (auto simp: node_refs_def)
  show "(n, p, True) \<notin> all_next cs defs" using next_of_node(1) [OF assms(1,3)] by blast
qed

lemma input_ports_set: "set ports = set ports' \<Longrightarrow> input_ports c ports False = input_ports c ports' False"
proof -
  assume "set ports = set ports'"
  then have "set (List.map_filter (variadic_index v) ports) = set (List.map_filter (variadic_index v) ports')" for v
    by (simp add: List.map_filter_def)
  then have "family_indexes v ports False = family_indexes v ports' False" for v
    by (simp add: family_indexes_def Let_def)
  then show ?thesis by (simp add: input_ports_def split: option.split)
qed

lemma socket_settled:
  assumes "definitions_ok defs" and "table_ok cs defs table []" and "dict_get defs n = Some d"
    and "set ports = set (connected_inputs cs n)" and "p \<in> set (input_socket_ids d ports)"
  shows "\<exists>t. dict_get table (n, p, False) = Some (Some t)"
proof (rule table_settled [OF assms(2)])
  let ?c = "nd_execution d"
  have c: "contract_ok ?c" by (rule dict_get_definitions(1) [OF assms(1,3)])
  from assms(5) consider "p \<in> set (map ip_id (input_ports ?c (connected_inputs cs n) False))"
    | q where "q \<in> set (ec_parameters ?c)" "ps_connectable q = Some True" "p = ps_id q"
    unfolding input_socket_ids_def input_ports_set [OF assms(4)] by auto
  then have "(n, p, False) \<in> node_refs cs (n, d) \<and> (n, p, False) \<notin> all_next cs defs"
  proof cases
    case 1
    then have "p \<in> set (map ip_id (input_ports ?c (connected_inputs cs n) True))"
      using input_ports_mono [of ?c "connected_inputs cs n"] by auto
    then show ?thesis using 1 next_of_node(3) [OF assms(1,3)] by (auto simp: node_refs_def)
  next
    case 2
    have "ps_connected_type q \<noteq> None" using c 2 by (auto simp: contract_ok_def socket_ok_def)
    then have "(n, p, False) \<in> node_refs cs (n, d)" using 2 by (auto simp: node_refs_def socket_refs_def)
    moreover have "p \<notin> set (map ip_id (input_ports ?c (connected_inputs cs n) True))"
    proof
      assume "p \<in> set (map ip_id (input_ports ?c (connected_inputs cs n) True))"
      then consider "p \<in> ip_id ` set (ec_inputs ?c)"
        | v i where "ec_variadic ?c = Some v" "i \<in> set (family_indexes v (connected_inputs cs n) True)" "p = ip_id (variadic_socket v i)"
        by (auto simp: input_ports_def split: option.splits)
      then show False
      proof cases
        case 1
        then show ?thesis using c 2 by (auto simp: contract_ok_def)
      next
        case v: 2
        have "variadic_index v p = Some i"
          using variadic_index_port [OF family_index_pos [OF v(2)]] v(3) by (simp add: variadic_socket_def)
        moreover have "variadic_index v p = None" using c v(1) 2 by (auto simp: contract_ok_def)
        ultimately show ?thesis by simp
      qed
    qed
    ultimately show ?thesis using next_of_node(2) [OF assms(1,3)] by blast
  qed
  then show "(n, p, False) \<in> all_refs cs defs" "(n, p, False) \<notin> all_next cs defs"
    using dict_get_definitions(2) [OF assms(1,3), of cs] by blast+
qed

section \<open>Compiling a node\<close>

lemma foldM_dict:
  assumes "\<And>p d. p \<in> set ps \<Longrightarrow> step p d = Inr (case g p of None \<Rightarrow> d | Some x \<Rightarrow> dict_set p x d)"
  shows "\<exists>d'. foldM step ps d = Inr d' \<and> (dict_ok d \<longrightarrow> dict_ok d') \<and>
    (\<forall>q. dict_get d' q = (if q \<in> set ps \<and> g q \<noteq> None then g q else dict_get d q))"
  using assms
proof (induction ps arbitrary: d)
  case (Cons p ps)
  let ?d = "case g p of None \<Rightarrow> d | Some x \<Rightarrow> dict_set p x d"
  have step: "step p d = Inr ?d" using Cons.prems by simp
  from Cons.IH [of ?d] Cons.prems obtain d' where d': "foldM step ps ?d = Inr d'" "dict_ok ?d \<longrightarrow> dict_ok d'"
    "\<forall>q. dict_get d' q = (if q \<in> set ps \<and> g q \<noteq> None then g q else dict_get ?d q)" by auto
  have "dict_get d' q = (if q \<in> set (p # ps) \<and> g q \<noteq> None then g q else dict_get d q)" for q
    using spec [OF d'(3), of q] by (auto split: option.splits)
  moreover have "dict_ok d \<longrightarrow> dict_ok d'" using d'(2) by (auto split: option.splits)
  moreover have "foldM step (p # ps) d = Inr d'" using step d'(1) by simp
  ultimately show ?case by blast
qed simp

lemma port_types_ok:
  assumes "\<And>p. p \<in> set ps \<Longrightarrow> \<exists>t. dict_get table (n, p, out) = Some (Some t)"
  shows "\<exists>d. port_types table n out ps = Inr d \<and> dict_ok d \<and>
    (\<forall>p. dict_get d p = (if p \<in> set ps then settled table (n, p, out) else None))"
proof -
  let ?step = "\<lambda>p d. bind_res (settled_type table (n, p, out)) (\<lambda>t. Inr (dict_set p t d))"
  have st: "\<exists>t. settled table (n, p, out) = Some t \<and> settled_type table (n, p, out) = Inr t" if "p \<in> set ps" for p
    using assms [OF that] by (auto simp: settled_type_def settled_def)
  have "?step p d = Inr (case settled table (n, p, out) of None \<Rightarrow> d | Some x \<Rightarrow> dict_set p x d)"
    if "p \<in> set ps" for p d using st [OF that] by auto
  from foldM_dict [of ps ?step "\<lambda>p. settled table (n, p, out)", OF this, of "[]"] obtain d where
    d: "foldM ?step ps [] = Inr d" "dict_ok d"
      "\<forall>q. dict_get d q = (if q \<in> set ps \<and> settled table (n, q, out) \<noteq> None then settled table (n, q, out) else None)"
    by auto
  have "dict_get d p = (if p \<in> set ps then settled table (n, p, out) else None)" for p
    using spec [OF d(3), of p] by auto
  with d(1,2) show ?thesis by (auto simp: port_types_def)
qed

definition binding_of :: "type_table \<Rightarrow> uuid \<Rightarrow> string \<Rightarrow> connection_model \<Rightarrow> input_binding" where
  "binding_of table n p c =
     \<lparr>ib_source = PortKey (source_node c) (source_port c),
      ib_conversion = (if settled table (source_node c, source_port c, True) = Some INT_T \<and>
          settled table (n, p, False) = Some FLOAT then Some INT_TO_FLOAT else None)\<rparr>"

lemma ib_source_binding: "ib_source (binding_of table n p c) = PortKey (source_node c) (source_port c)"
  by (simp add: binding_of_def)

lemma bind_ports_ok:
  assumes "\<And>p. p \<in> set ps \<Longrightarrow> \<exists>t. dict_get table (n, p, False) = Some (Some t)"
    and "\<And>p c. p \<in> set ps \<Longrightarrow> dict_get incoming p = Some c \<Longrightarrow> \<exists>t. dict_get table (source_node c, source_port c, True) = Some (Some t)"
  shows "\<exists>d. foldM (bind_port table n incoming) ps [] = Inr d \<and> dict_ok d \<and>
    (\<forall>p. dict_get d p = (if p \<in> set ps then map_option (binding_of table n p) (dict_get incoming p) else None))"
proof -
  let ?g = "\<lambda>p. map_option (binding_of table n p) (dict_get incoming p)"
  have "bind_port table n incoming p d = Inr (case ?g p of None \<Rightarrow> d | Some x \<Rightarrow> dict_set p x d)"
    if p: "p \<in> set ps" for p d
  proof (cases "dict_get incoming p")
    case (Some c)
    from assms(1) [OF p] assms(2) [OF p Some] obtain t u where
      "dict_get table (n, p, False) = Some (Some t)" "dict_get table (source_node c, source_port c, True) = Some (Some u)"
      by blast
    with Some show ?thesis by (simp add: bind_port_def settled_type_def binding_of_def settled_def)
  qed (simp add: bind_port_def)
  from foldM_dict [of ps "bind_port table n incoming" ?g, OF this, of "[]"] obtain d where
    d: "foldM (bind_port table n incoming) ps [] = Inr d" "dict_ok d"
      "\<forall>q. dict_get d q = (if q \<in> set ps \<and> ?g q \<noteq> None then ?g q else None)" by auto
  have "dict_get d p = (if p \<in> set ps then ?g p else None)" for p using spec [OF d(3), of p] by auto
  with d(1,2) show ?thesis by blast
qed

lemma incoming_fold:
  "dict_get (fold (\<lambda>c. dict_set (destination_port c) c) xs d) p =
     (if filter (\<lambda>c. destination_port c = p) xs = [] then dict_get d p
      else Some (last (filter (\<lambda>c. destination_port c = p) xs)))"
  by (induction xs arbitrary: d) auto

lemma incoming_iff:
  assumes "\<And>c c'. c \<in> set cs \<Longrightarrow> c' \<in> set cs \<Longrightarrow> destination_node c = destination_node c' \<Longrightarrow>
      destination_port c = destination_port c' \<Longrightarrow> c = c'"
  shows "dict_get (incoming_dict cs n) p = Some c \<longleftrightarrow> c \<in> set cs \<and> destination_node c = n \<and> destination_port c = p"
proof -
  let ?xs = "filter (\<lambda>c. destination_port c = p) (filter (\<lambda>c. destination_node c = n) cs)"
  have eq: "dict_get (incoming_dict cs n) p = (if ?xs = [] then None else Some (last ?xs))"
    unfolding incoming_dict_def incoming_fold by simp
  show ?thesis
  proof
    assume "dict_get (incoming_dict cs n) p = Some c"
    then have "?xs \<noteq> []" "last ?xs = c" unfolding eq by (auto split: if_splits)
    then have "c \<in> set ?xs" using last_in_set by blast
    then show "c \<in> set cs \<and> destination_node c = n \<and> destination_port c = p" by auto
  next
    assume c: "c \<in> set cs \<and> destination_node c = n \<and> destination_port c = p"
    then have "c \<in> set ?xs" by auto
    then have ne: "?xs \<noteq> []" by (metis list.set(1) empty_iff)
    then have "last ?xs \<in> set ?xs" by (rule last_in_set)
    with assms [of c "last ?xs"] c have "c = last ?xs" by auto
    with ne show "dict_get (incoming_dict cs n) p = Some c" unfolding eq by simp
  qed
qed

lemma incoming_keys: "set (dict_keys (incoming_dict cs n)) = set (connected_inputs cs n)"
proof -
  have "fst ` set (fold (\<lambda>c. dict_set (destination_port c) c) xs d) = fst ` set d \<union> destination_port ` set xs"
    for xs :: "connection_model list" and d
    by (induction xs arbitrary: d) auto
  then show ?thesis by (simp add: incoming_dict_def connected_inputs_def)
qed

lemma connected_is_socket:
  assumes "kept_ok nodes defs c" and "c \<in> set cs" and "dict_get defs (destination_node c) = Some d"
  shows "destination_port c \<in> set (input_socket_ids d (dict_keys (incoming_dict cs (destination_node c))))"
proof -
  have t: "connectable_input (nd_execution d) (destination_port c)" using assms(1,3) by (auto simp: kept_ok_def)
  show ?thesis
  proof (cases "contract_input (nd_execution d) (destination_port c) = None")
    case True
    then obtain q where "contract_parameter (nd_execution d) (destination_port c) = Some q" "ps_connectable q = Some True"
      using t by (auto simp: connectable_input_def)
    then show ?thesis by (auto simp: input_socket_ids_def contract_parameter_def find_Some_iff intro!: image_eqI [of _ ps_id q])
  next
    case False
    have "destination_port c \<in> set (connected_inputs cs (destination_node c))"
      using assms(2) by (auto simp: connected_inputs_def)
    then have "destination_port c \<in> set (dict_keys (incoming_dict cs (destination_node c)))" by (simp only: incoming_keys)
    from connected_input_listed [OF False this, of False] show ?thesis unfolding input_socket_ids_def by simp
  qed
qed

lemma analyze_clocks_lookup:
  "fmlookup (fst (analyze_clocks order defs cs clocks)) n \<noteq> None \<longleftrightarrow>
     fmlookup clocks n \<noteq> None \<or> n \<in> set order \<and> dict_get defs n \<noteq> None"
proof (induction order defs cs clocks rule: analyze_clocks.induct)
  case (2 m order defs cs clocks)
  show ?case
  proof (cases "dict_get defs m")
    case None
    with 2(1) show ?thesis by auto
  next
    case (Some d)
    show ?thesis
    proof (cases "ec_kind (nd_execution d) = SOURCE")
      case True
      from 2(2) [OF Some True] Some True show ?thesis by auto
    next
      case False
      let ?inc = "incoming_clocks cs clocks m"
      show ?thesis
      proof (cases "1 < card ?inc")
        case True
        from 2(3) [OF Some False refl True] Some False True show ?thesis by (auto simp: Let_def split_beta)
      next
        case F: False
        from 2(4) [OF Some False refl F] Some False F show ?thesis by (auto simp: Let_def split_beta)
      qed
    qed
  qed
qed simp

text \<open>What a compiled node holds.\<close>

definition compiled_ok :: "analysis \<Rightarrow> uuid \<Rightarrow> compiled_node \<Rightarrow> bool" where
  "compiled_ok a n cn \<longleftrightarrow>
     (let cs = an_connections a; table = an_resolved_types a in
      cn_node_id cn = n \<and>
      (\<exists>d. dict_get (an_definitions a) n = Some d \<and> cn_definition cn = nd_execution d \<and>
         dict_get (an_parameters a) n = Some (cn_parameters cn) \<and>
         (\<forall>p. dict_get (cn_input_types cn) p = (if p \<in> set (input_socket_ids d (dict_keys (incoming_dict cs n)))
            then settled table (n, p, False) else None)) \<and>
         (\<forall>p. dict_get (cn_output_types cn) p = (if p \<in> set (map op_id (ec_outputs (nd_execution d)))
            then settled table (n, p, True) else None))) \<and>
      dict_ok (cn_input_bindings cn) \<and> dict_ok (cn_output_types cn) \<and>
      (\<forall>p. dict_get (cn_input_bindings cn) p = map_option (binding_of table n p) (dict_get (incoming_dict cs n) p)) \<and>
      fmlookup (an_clocks a) n = Some (cn_clock_id cn) \<and>
      cn_is_static cn = (cn_clock_id cn = None \<and> ec_cache_policy (cn_definition cn) \<noteq> NEVER) \<and>
      cn_is_demanded cn = (n \<in> an_demanded a))"

lemma compile_ordered_ok:
  assumes node: "fmlookup (an_nodes a) n = Some node" "node_id node = n"
    and d: "dict_get (an_definitions a) n = Some d" "dict_get (an_parameters a) n = Some params"
    and clock: "fmlookup (an_clocks a) n = Some clock"
    and defs: "definitions_ok (an_definitions a)" and table: "table_ok (an_connections a) (an_definitions a) (an_resolved_types a) []"
    and kept: "\<forall>c \<in> set (an_connections a). kept_ok nodes (an_definitions a) c"
    and single: "\<And>c c'. c \<in> set (an_connections a) \<Longrightarrow> c' \<in> set (an_connections a) \<Longrightarrow>
      destination_node c = destination_node c' \<Longrightarrow> destination_port c = destination_port c' \<Longrightarrow> c = c'"
  shows "\<exists>cn. compile_ordered a n = Inr cn \<and> compiled_ok a n cn"
proof -
  let ?cs = "an_connections a" and ?table = "an_resolved_types a"
  let ?inc = "incoming_dict ?cs n"
  let ?sockets = "input_socket_ids d (dict_keys ?inc)" and ?outs = "map op_id (ec_outputs (nd_execution d))"
  have sockets: "\<exists>t. dict_get ?table (n, p, False) = Some (Some t)" if "p \<in> set ?sockets" for p
    by (rule socket_settled [OF defs table d(1) incoming_keys that])
  have outs: "\<exists>t. dict_get ?table (n, p, True) = Some (Some t)" if "p \<in> set ?outs" for p
    by (rule output_settled [OF defs table d(1) that])
  have source: "\<exists>t. dict_get ?table (source_node c, source_port c, True) = Some (Some t)"
    if "dict_get ?inc p = Some c" for p c
  proof -
    from that have "c \<in> set ?cs" using incoming_iff [OF single] by blast
    with kept obtain sd where "dict_get (an_definitions a) (source_node c) = Some sd"
      "contract_output (nd_execution sd) (source_port c) \<noteq> None" by (auto simp: kept_ok_def)
    moreover from this(2) obtain q where "q \<in> set (ec_outputs (nd_execution sd))" "op_id q = source_port c"
      by (auto simp: contract_output_def find_None_iff)
    then have "source_port c \<in> set (map op_id (ec_outputs (nd_execution sd)))" by force
    ultimately show ?thesis by (intro output_settled [OF defs table])
  qed
  have "\<exists>d. foldM (bind_port ?table n ?inc) ?sockets [] = Inr d \<and> dict_ok d \<and>
    (\<forall>p. dict_get d p = (if p \<in> set ?sockets then map_option (binding_of ?table n p) (dict_get ?inc p) else None))"
    by (rule bind_ports_ok) (use sockets source in blast)+
  then obtain bindings where
    b: "foldM (bind_port ?table n ?inc) ?sockets [] = Inr bindings" "dict_ok bindings"
      "\<forall>p. dict_get bindings p = (if p \<in> set ?sockets then map_option (binding_of ?table n p) (dict_get ?inc p) else None)"
    by blast
  from port_types_ok [of ?sockets ?table n False, OF sockets] obtain ins where
    i: "port_types ?table n False ?sockets = Inr ins"
      "\<forall>p. dict_get ins p = (if p \<in> set ?sockets then settled ?table (n, p, False) else None)" by blast
  from port_types_ok [of ?outs ?table n True, OF outs] obtain os where
    o: "port_types ?table n True ?outs = Inr os" "dict_ok os"
      "\<forall>p. dict_get os p = (if p \<in> set ?outs then settled ?table (n, p, True) else None)" by blast
  have bindings: "dict_get bindings p = map_option (binding_of ?table n p) (dict_get ?inc p)" for p
  proof (cases "dict_get ?inc p")
    case (Some c)
    then have "c \<in> set ?cs" "destination_node c = n" "destination_port c = p" using incoming_iff [OF single] by blast+
    then have "p \<in> set ?sockets" using connected_is_socket [of nodes "an_definitions a" c ?cs d] kept d(1) by auto
    with b(3) show ?thesis by simp
  next
    case None
    with spec [OF b(3), of p] show ?thesis by (simp split: if_splits)
  qed
  let ?cn = "\<lparr>cn_node_id = n, cn_definition = nd_execution d, cn_parameters = params,
          cn_input_bindings = bindings, cn_input_types = ins, cn_output_types = os, cn_clock_id = clock,
          cn_is_static = (clock = None \<and> ec_cache_policy (nd_execution d) \<noteq> NEVER), cn_is_demanded = (n \<in> an_demanded a)\<rparr>"
  have "compile_node node d params ?cs ?table clock (n \<in> an_demanded a) = Inr ?cn"
    unfolding compile_node_def Let_def node(2) by (simp add: b(1) i(1) o(1))
  then have "compile_ordered a n = Inr ?cn"
    by (simp add: compile_ordered_def subscript_def node(1) d clock)
  moreover have "compiled_ok a n ?cn"
    unfolding compiled_ok_def Let_def using d clock b(2) o(2) i(2) o(3) bindings by simp
  ultimately show ?thesis by blast
qed

section \<open>Every valid analysis has a plan\<close>

definition binding_fits :: "compiled_node \<Rightarrow> string \<Rightarrow> input_binding \<Rightarrow> compiled_node \<Rightarrow> bool" where
  "binding_fits reader q b source \<longleftrightarrow> cn_node_id source = pk_node (ib_source b) \<and>
     (\<exists>t t'. dict_get (cn_output_types source) (pk_port (ib_source b)) = Some t \<and>
        dict_get (cn_input_types reader) q = Some t' \<and> types_compatible t t' \<and>
        ib_conversion b = (if t = INT_T \<and> t' = FLOAT then Some INT_TO_FLOAT else None))"

text \<open>Every binding reads a compatible port of a node that stands earlier in the plan.\<close>

definition plan_sound :: "execution_plan \<Rightarrow> bool" where
  "plan_sound p \<longleftrightarrow> distinct (topological_node_ids p) \<and>
     (\<forall>i < length (ep_nodes p). \<forall>q b. dict_get (cn_input_bindings (ep_nodes p ! i)) q = Some b \<longrightarrow>
        (\<exists>j < i. binding_fits (ep_nodes p ! i) q b (ep_nodes p ! j)))"

text \<open>The bindings are the connections of the analysed graph.\<close>

definition plan_complete :: "graph_snapshot \<Rightarrow> execution_plan \<Rightarrow> bool" where
  "plan_complete s p \<longleftrightarrow> set (topological_node_ids p) = node_id ` set (snap_nodes s) \<and>
     (\<forall>cn \<in> set (ep_nodes p). \<forall>q k. (\<exists>b. dict_get (cn_input_bindings cn) q = Some b \<and> ib_source b = k) \<longleftrightarrow>
        (\<exists>c \<in> set (snap_connections s). destination_node c = cn_node_id cn \<and> destination_port c = q \<and>
           k = PortKey (source_node c) (source_port c)))"

lemma check_connection_Nil:
  assumes "fst (check_connection nodes defs c) = []"
    and "\<And>n. n |\<in>| fmdom nodes \<Longrightarrow> dict_get defs n \<noteq> None"
  shows "kept_ok nodes defs c"
proof -
  have "source_node c |\<in>| fmdom nodes \<and> destination_node c |\<in>| fmdom nodes"
    using assms(1) by (auto simp: check_connection_def split: if_splits)
  with assms(2) obtain sd dd where "dict_get defs (source_node c) = Some sd" "dict_get defs (destination_node c) = Some dd"
    by (meson not_None_eq)
  with assms(1) have "snd (check_connection nodes defs c)"
    by (auto simp: check_connection_def split: if_splits option.splits)
  then show ?thesis by (simp add: check_connection_kept)
qed

lemma valid_analysis_facts:
  assumes "valid_analysis registry s requested a st"
  shows "distinct (map node_id (snap_nodes s))" and "distinct (map conn_id (snap_connections s))"
    and "\<And>n. n |\<in>| fmdom (an_nodes a) \<Longrightarrow> dict_get (an_definitions a) n \<noteq> None"
    and "set (an_connections a) = set (snap_connections s)"
    and "fset (fmdom (an_nodes a)) = node_id ` set (snap_nodes s)"
    and "set (an_order a) = node_id ` set (snap_nodes s)"
    and "table_ok (an_connections a) (an_definitions a) (an_resolved_types a) []"
    and "validate_cardinality (an_connections a) = []"
    and "snd (analyze_clocks (an_order a) (an_definitions a) (an_connections a) fmempty) = []"
proof -
  have ok: "analysis_ok registry s requested a st" and nil: "an_report a = []"
    using assms by (simp_all add: valid_analysis_def)
  have n: "an_nodes a = fst (index_nodes (snap_nodes s) fmempty)"
    and defs: "resolve_definitions registry (an_nodes a) =
       (an_definitions a, an_parameters a, snd (snd (resolve_definitions registry (an_nodes a))))"
    and cs: "an_connections a = fst (validate_connections s (an_nodes a) (an_definitions a))"
    and tab: "table_ok (an_connections a) (an_definitions a) (an_resolved_types a) (st_types st)"
    and ord: "set (an_order a) \<subseteq> fset (fmdom (an_nodes a))" "set (st_cyclic st) = fset (fmdom (an_nodes a)) - set (an_order a)"
    using ok unfolding analysis_ok_def Let_def by blast+
  have rep: "an_report a = snd (unique_nodes s) @ snd (snd (resolve_definitions registry (an_nodes a))) @
        snd (validate_connections s (an_nodes a) (an_definitions a)) @ validate_cardinality (an_connections a) @ st_types st @
        cycle_issues (st_cyclic st) @ validate_required_inputs (an_connections a) (an_definitions a) (an_parameters a) @
        snd (analyze_clocks (an_order a) (an_definitions a) (an_connections a) fmempty) @
        snd (resolve_demand_roots (an_nodes a) (an_definitions a) (an_connections a) requested)"
    using ok unfolding analysis_ok_def Let_def by blast
  from nil rep have nils: "snd (unique_nodes s) = []" "snd (snd (resolve_definitions registry (an_nodes a))) = []"
    "snd (validate_connections s (an_nodes a) (an_definitions a)) = []" "st_types st = []" "cycle_issues (st_cyclic st) = []"
    and nils2: "validate_cardinality (an_connections a) = []"
      "snd (analyze_clocks (an_order a) (an_definitions a) (an_connections a) fmempty) = []"
    by simp_all
  show "validate_cardinality (an_connections a) = []"
    "snd (analyze_clocks (an_order a) (an_definitions a) (an_connections a) fmempty) = []" by (rule nils2)+
  show d: "distinct (map node_id (snap_nodes s))" and dc: "distinct (map conn_id (snap_connections s))"
    using nils(1) by (simp_all add: unique_nodes_def split_beta index_nodes_duplicates repeated_connections_Nil)
  show known: "dict_get (an_definitions a) i \<noteq> None" if i: "i |\<in>| fmdom (an_nodes a)" for i
  proof -
    obtain x where x: "fmlookup (an_nodes a) i = Some x" using i by (auto simp: fmlookup_dom_iff)
    then have "(i, x) \<in> set (sorted_list_of_fmap (an_nodes a))" by (simp add: sorted_list_of_fmap_iff)
    then have "definition_issues i x (fmlookup registry (node_type_id x)) = []"
      using nils(2) resolve_definitions_facts(5) [OF defs] by fastforce
    then have "fmlookup registry (node_type_id x) \<noteq> None"
      unfolding definition_issues_def by (auto split: option.splits)
    then show ?thesis by (simp add: resolve_definitions_facts(1) [OF defs] x)
  qed
  have "distinct (map conn_id (sort_key conn_id (snap_connections s)))"
    using distinct_card [OF dc] by (intro card_distinct) simp
  then have v: "validate_connections s (an_nodes a) (an_definitions a) =
      (filter (kept_ok (an_nodes a) (an_definitions a)) (sort_key conn_id (snap_connections s)),
       concat (map (\<lambda>c. fst (check_connection (an_nodes a) (an_definitions a) c)) (sort_key conn_id (snap_connections s))))"
    unfolding validate_connections_def by (rule check_connections_unique) simp
  have "kept_ok (an_nodes a) (an_definitions a) c" if "c \<in> set (snap_connections s)" for c
  proof (rule check_connection_Nil [OF _ known])
    show "fst (check_connection (an_nodes a) (an_definitions a) c) = []" using nils(3) v that by simp
  qed
  then show "set (an_connections a) = set (snap_connections s)" by (auto simp: cs v)
  show dom: "fset (fmdom (an_nodes a)) = node_id ` set (snap_nodes s)"
    unfolding n by (simp add: index_nodes_dom)
  have "st_cyclic st = []" using nils(5) by (simp add: cycle_issues_def)
  then show "set (an_order a) = node_id ` set (snap_nodes s)" using ord dom by auto
  show "table_ok (an_connections a) (an_definitions a) (an_resolved_types a) []" using tab nils(4) by simp
qed

lemma settled_compatible:
  assumes "table_ok cs defs table []" and "c \<in> set cs"
    and "settled table (source_node c, source_port c, True) = Some t"
    and "settled table (destination_node c, destination_port c, False) = Some t'"
  shows "types_compatible t t'"
proof -
  have "\<forall>c \<in> set cs. \<forall>s d. settled table (source_node c, source_port c, True) = Some s \<longrightarrow>
        settled table (destination_node c, destination_port c, False) = Some d \<longrightarrow> types_compatible s d"
    using assms(1) by (simp add: table_ok_def)
  with assms(2-4) show ?thesis by blast
qed

lemma build_plan_ok:
  assumes "registry_ok registry" and valid: "valid_analysis registry s requested a st"
  shows "\<exists>p. build_plan s' a = Inr p \<and> list_all2 (\<lambda>n cn. compiled_ok a n cn) (an_order a) (ep_nodes p)"
proof -
  note f = valid_analysis_facts [OF valid]
  have ok: "analysis_ok registry s requested a st" using valid by (simp add: valid_analysis_def)
  have n: "an_nodes a = fst (index_nodes (snap_nodes s) fmempty)"
    and rd: "resolve_definitions registry (an_nodes a) =
       (an_definitions a, an_parameters a, snd (snd (resolve_definitions registry (an_nodes a))))"
    and defs: "definitions_ok (an_definitions a)"
    and cs: "an_connections a = fst (validate_connections s (an_nodes a) (an_definitions a))"
    and clocks: "an_clocks a = fst (analyze_clocks (an_order a) (an_definitions a) (an_connections a) fmempty)"
    using ok unfolding analysis_ok_def Let_def by blast+
  have kept: "\<forall>c \<in> set (an_connections a). kept_ok (an_nodes a) (an_definitions a) c"
    using valid_connections_facts(2) [of s "an_nodes a" "an_definitions a" "an_connections a"] cs by (metis prod.collapse)
  have "\<exists>cn. compile_ordered a i = Inr cn \<and> compiled_ok a i cn" if i: "i \<in> set (an_order a)" for i
  proof -
    have dom: "i |\<in>| fmdom (an_nodes a)" using i f(5,6) by auto
    then obtain x where x: "fmlookup (an_nodes a) i = Some x" by (auto simp: fmlookup_dom_iff)
    then have "node_id x = i" by (simp add: n index_nodes_lookup find_Some_iff) auto
    obtain d where d: "dict_get (an_definitions a) i = Some d" using f(3) [OF dom] by blast
    then have "dict_get (an_parameters a) i = Some (fst (parameter_values (nd_execution d) (parameters x)))"
      using resolve_definitions_facts(1,2) [OF rd, of i] x by simp
    moreover obtain clock where "fmlookup (an_clocks a) i = Some clock"
      using analyze_clocks_lookup [of "an_order a" "an_definitions a" "an_connections a" fmempty i] i d clocks by auto
    ultimately show ?thesis
      using compile_ordered_ok [OF x \<open>node_id x = i\<close> d _ _ defs f(7) kept single_occupant [OF f(8)]] by blast
  qed
  then obtain g where g: "\<And>i. i \<in> set (an_order a) \<Longrightarrow> compile_ordered a i = Inr (g i) \<and> compiled_ok a i (g i)" by metis
  then have "mapM (compile_ordered a) (an_order a) = Inr (map g (an_order a))"
    unfolding mapM_eq_Inr by (simp add: list_all2_conv_all_nth)
  moreover have "list_all2 (compiled_ok a) (an_order a) (map g (an_order a))"
    using g by (simp add: list_all2_conv_all_nth)
  ultimately show ?thesis by (simp add: build_plan_def)
qed

lemma planned_ids:
  assumes "list_all2 (compiled_ok a) order (ep_nodes p)"
  shows "topological_node_ids p = order"
  using assms unfolding topological_node_ids_def
  by (induction rule: list_all2_induct) (auto simp: compiled_ok_def Let_def)

lemma plan_of_valid:
  assumes valid: "valid_analysis registry s requested a st"
    and nodes: "list_all2 (compiled_ok a) (an_order a) (ep_nodes p)"
  shows "plan_sound p" and "plan_complete s p"
proof -
  note f = valid_analysis_facts [OF valid]
  have ok: "analysis_ok registry s requested a st" using valid by (simp add: valid_analysis_def)
  have greedy: "greedy (edges (an_connections a)) (fset (fmdom (an_nodes a))) (an_order a)" and dist: "distinct (an_order a)"
    and defs: "definitions_ok (an_definitions a)"
    and cs: "an_connections a = fst (validate_connections s (an_nodes a) (an_definitions a))"
    using ok unfolding analysis_ok_def Let_def by blast+
  let ?cs = "an_connections a" and ?table = "an_resolved_types a"
  have kept: "\<forall>c \<in> set ?cs. kept_ok (an_nodes a) (an_definitions a) c"
    using valid_connections_facts(2) [of s "an_nodes a" "an_definitions a" ?cs] cs by (metis prod.collapse)
  have len: "length (ep_nodes p) = length (an_order a)" using nodes by (simp add: list_all2_lengthD)
  have cn: "compiled_ok a (an_order a ! i) (ep_nodes p ! i)" if "i < length (ep_nodes p)" for i
    using list_all2_nthD2 [OF nodes that] .
  have inc: "dict_get (incoming_dict ?cs n) q = Some c \<longleftrightarrow> c \<in> set ?cs \<and> destination_node c = n \<and> destination_port c = q" for n q c
    by (rule incoming_iff [OF single_occupant [OF f(8)]])
  show "plan_sound p"
    unfolding plan_sound_def
  proof (intro conjI allI impI)
    show "distinct (topological_node_ids p)" by (simp only: planned_ids [OF nodes] dist)
    fix i q b assume i: "i < length (ep_nodes p)" and b: "dict_get (cn_input_bindings (ep_nodes p ! i)) q = Some b"
    let ?n = "an_order a ! i"
    obtain c where c: "dict_get (incoming_dict ?cs ?n) q = Some c" "b = binding_of ?table ?n q c"
      using cn [OF i] b unfolding compiled_ok_def Let_def by auto
    have cc: "c \<in> set ?cs" "destination_node c = ?n" "destination_port c = q" using c(1) inc by blast+
    have edge: "(source_node c, ?n) \<in> edges ?cs" using cc by (auto simp: edges_def)
    from greedy_position [OF greedy _ edge] i len obtain j where j: "j < i" "an_order a ! j = source_node c" by auto
    with i have jl: "j < length (ep_nodes p)" by simp
    obtain d where d: "dict_get (an_definitions a) ?n = Some d" and ins: "dict_get (cn_input_types (ep_nodes p ! i)) q =
        (if q \<in> set (input_socket_ids d (dict_keys (incoming_dict ?cs ?n))) then settled ?table (?n, q, False) else None)"
      using cn [OF i] unfolding compiled_ok_def Let_def by blast
    obtain sd where sd: "dict_get (an_definitions a) (source_node c) = Some sd"
      and outs: "dict_get (cn_output_types (ep_nodes p ! j)) (source_port c) =
        (if source_port c \<in> set (map op_id (ec_outputs (nd_execution sd))) then settled ?table (source_node c, source_port c, True) else None)"
      using cn [OF jl] unfolding compiled_ok_def Let_def j(2) by blast
    have k: "kept_ok (an_nodes a) (an_definitions a) c" using kept cc(1) by blast
    then have "contract_output (nd_execution sd) (source_port c) \<noteq> None" using sd by (auto simp: kept_ok_def)
    then obtain o' where "o' \<in> set (ec_outputs (nd_execution sd))" "op_id o' = source_port c"
      by (auto simp: contract_output_def find_None_iff)
    then have op: "source_port c \<in> set (map op_id (ec_outputs (nd_execution sd)))" by force
    have sk: "q \<in> set (input_socket_ids d (dict_keys (incoming_dict ?cs ?n)))"
      using connected_is_socket [OF k cc(1)] d cc(2,3) by simp
    obtain t where t: "dict_get ?table (source_node c, source_port c, True) = Some (Some t)"
      using output_settled [OF defs f(7) sd op] by blast
    obtain t' where t': "dict_get ?table (?n, q, False) = Some (Some t')"
      using socket_settled [OF defs f(7) d incoming_keys sk] by blast
    have st: "settled ?table (source_node c, source_port c, True) = Some t" "settled ?table (?n, q, False) = Some t'"
      using t t' by (simp_all add: settled_def)
    have "types_compatible t t'" by (rule settled_compatible [OF f(7) cc(1)]) (use st cc in simp_all)
    moreover have "cn_node_id (ep_nodes p ! j) = source_node c"
      using cn [OF jl] j(2) by (simp add: compiled_ok_def Let_def)
    ultimately have "binding_fits (ep_nodes p ! i) q b (ep_nodes p ! j)"
      using ins outs op sk st unfolding binding_fits_def c(2) binding_of_def by simp
    with j(1) show "\<exists>j < i. binding_fits (ep_nodes p ! i) q b (ep_nodes p ! j)" by blast
  qed
  show "plan_complete s p"
    unfolding plan_complete_def
  proof (intro conjI ballI allI)
    show "set (topological_node_ids p) = node_id ` set (snap_nodes s)" by (simp only: planned_ids [OF nodes] f(6))
    fix x q k assume "x \<in> set (ep_nodes p)"
    then obtain i where i: "i < length (ep_nodes p)" "x = ep_nodes p ! i" by (auto simp: in_set_conv_nth)
    have x: "cn_node_id x = an_order a ! i" "dict_get (cn_input_bindings x) q =
        map_option (binding_of ?table (an_order a ! i) q) (dict_get (incoming_dict ?cs (an_order a ! i)) q)"
      using cn [OF i(1)] unfolding i(2) compiled_ok_def Let_def by blast+
    have "(\<exists>b. dict_get (cn_input_bindings x) q = Some b \<and> ib_source b = k) \<longleftrightarrow>
        (\<exists>c. dict_get (incoming_dict ?cs (an_order a ! i)) q = Some c \<and> k = PortKey (source_node c) (source_port c))"
      unfolding x(2) by (cases "dict_get (incoming_dict ?cs (an_order a ! i)) q") (auto simp: ib_source_binding)
    also have "\<dots> \<longleftrightarrow> (\<exists>c \<in> set (snap_connections s). destination_node c = cn_node_id x \<and> destination_port c = q \<and>
           k = PortKey (source_node c) (source_port c))"
      unfolding inc f(4) x(1) by blast
    finally show "(\<exists>b. dict_get (cn_input_bindings x) q = Some b \<and> ib_source b = k) \<longleftrightarrow>
        (\<exists>c \<in> set (snap_connections s). destination_node c = cn_node_id x \<and> destination_port c = q \<and>
           k = PortKey (source_node c) (source_port c))" .
  qed
qed

end
