(* ===== verification/CompilerResults.thy ===== *)
theory CompilerResults
  imports CompilerPlans
begin

text \<open>
  Compilation as its callers see it: it always returns a plan, sound and, for a valid graph,
  complete; the clocks of a valid graph; and the answers to prospective connections.
\<close>

section \<open>Where diagnostics point\<close>

text \<open>
  Every diagnostic names a node or a connection of the snapshot it was made for, those about
  unknown demand roots excepted. So a reduction removes something as long as there is one.
\<close>

definition located :: "graph_snapshot \<Rightarrow> validation_issue \<Rightarrow> bool" where
  "located s i \<longleftrightarrow> vi_node i \<in> Some ` node_id ` set (snap_nodes s) \<or>
     vi_connection i \<in> Some ` conn_id ` set (snap_connections s)"

lemma located_node: "vi_node i = Some n \<Longrightarrow> n \<in> node_id ` set (snap_nodes s) \<Longrightarrow> located s i"
  by (auto simp: located_def)

lemma located_connection: "vi_connection i = Some k \<Longrightarrow> k \<in> conn_id ` set (snap_connections s) \<Longrightarrow> located s i"
  by (auto simp: located_def)

lemma error_issue_fields [simp]:
  "vi_node (error_issue code msg n c p) = n" "vi_connection (error_issue code msg n c p) = c"
  "vi_port (error_issue code msg n c p) = p" "vi_code (error_issue code msg n c p) = code"
  by (simp_all add: error_issue_def)

lemma index_nodes_nodes: "i \<in> set (snd (index_nodes ns m)) \<Longrightarrow> vi_node i \<in> Some ` node_id ` set ns"
proof (induction ns arbitrary: m)
  case (Cons n ns)
  from Cons.prems consider "vi_node i = Some (node_id n)" | m' where "i \<in> set (snd (index_nodes ns m'))"
    by (auto simp: split_beta split: if_splits)
  then show ?case using Cons.IH by cases auto
qed simp

lemma repeated_connections_ids:
  "i \<in> set (repeated_connections cs seen) \<Longrightarrow> vi_connection i \<in> Some ` conn_id ` set cs"
  by (induction cs arbitrary: seen) (auto split: if_splits)

lemma definition_issues_node: "i \<in> set (definition_issues n x d) \<Longrightarrow> vi_node i = Some n"
  by (auto simp: definition_issues_def split: option.splits if_splits)

lemma check_connections_ids:
  "i \<in> set (snd (check_connections nodes defs cs seen)) \<Longrightarrow> vi_connection i \<in> Some ` conn_id ` set cs"
proof (induction cs arbitrary: seen)
  case (Cons c cs)
  have one: "vi_connection j = Some (conn_id c)" if "j \<in> set (fst (check_connection nodes defs c))" for j
    using that by (auto simp: check_connection_def split: option.splits if_splits)
  from Cons.prems consider "i \<in> set (fst (check_connection nodes defs c))"
    | seen' where "i \<in> set (snd (check_connections nodes defs cs seen'))"
    by (auto simp: split_beta split: if_splits)
  then show ?case using Cons.IH one by cases auto
qed simp

lemma by_input_keys: "fst ` set (by_input cs) = (\<lambda>c. (destination_node c, destination_port c)) ` set cs"
proof -
  have "fst ` set (fold file_input cs d) = fst ` set d \<union> (\<lambda>c. (destination_node c, destination_port c)) ` set cs"
    for cs :: "connection_model list" and d
    by (induction cs arbitrary: d) (auto simp: file_input_def Let_def)
  then show ?thesis by (simp add: by_input_def)
qed

lemma cardinality_nodes:
  assumes "i \<in> set (validate_cardinality cs)"
  shows "vi_node i \<in> Some ` destination_node ` set cs"
proof -
  from assms obtain n p inc where k: "((n, p), inc) \<in> set (by_input cs)" "vi_node i = Some n"
    by (auto simp: validate_cardinality_def split: if_splits)
  then have "(n, p) \<in> fst ` set (by_input cs)" by force
  then show ?thesis unfolding by_input_keys k(2) by auto
qed

lemma requirement_issues_node: "i \<in> set (requirement_issues n c ps p) \<Longrightarrow> vi_node i = Some n"
  by (auto simp: requirement_issues_def Let_def split: option.splits if_splits)

lemma analyze_clocks_nodes:
  "i \<in> set (snd (analyze_clocks order defs cs clocks)) \<Longrightarrow> vi_node i \<in> Some ` set order"
  by (induction order defs cs clocks rule: analyze_clocks.induct)
     (auto simp: split_beta Let_def split: option.splits if_splits)

lemma analysis_located:
  assumes "analysis_ok registry s requested a st"
  shows "\<exists>front. an_report a = front @ snd (resolve_demand_roots (an_nodes a) (an_definitions a) (an_connections a) requested) \<and>
    (\<forall>i \<in> set front. located s i)"
proof -
  let ?nodes = "an_nodes a" and ?defs = "an_definitions a" and ?cs = "an_connections a"
  have n: "?nodes = fst (index_nodes (snap_nodes s) fmempty)"
    and rd: "resolve_definitions registry ?nodes = (?defs, an_parameters a, snd (snd (resolve_definitions registry ?nodes)))"
    and cs: "?cs = fst (validate_connections s ?nodes ?defs)"
    and defs: "definitions_ok ?defs"
    and tab: "table_ok ?cs ?defs (an_resolved_types a) (st_types st)"
    and ord: "set (an_order a) \<subseteq> fset (fmdom ?nodes)" "set (st_cyclic st) = fset (fmdom ?nodes) - set (an_order a)"
    using assms unfolding analysis_ok_def Let_def by blast+
  let ?front = "snd (unique_nodes s) @ snd (snd (resolve_definitions registry ?nodes)) @
        snd (validate_connections s ?nodes ?defs) @ validate_cardinality ?cs @ st_types st @
        cycle_issues (st_cyclic st) @ validate_required_inputs ?cs ?defs (an_parameters a) @
        snd (analyze_clocks (an_order a) ?defs ?cs fmempty)"
  have rep: "an_report a = snd (unique_nodes s) @ snd (snd (resolve_definitions registry ?nodes)) @
        snd (validate_connections s ?nodes ?defs) @ validate_cardinality ?cs @ st_types st @
        cycle_issues (st_cyclic st) @ validate_required_inputs ?cs ?defs (an_parameters a) @
        snd (analyze_clocks (an_order a) ?defs ?cs fmempty) @ snd (resolve_demand_roots ?nodes ?defs ?cs requested)"
    using assms unfolding analysis_ok_def Let_def by blast
  have dom: "fset (fmdom ?nodes) = node_id ` set (snap_nodes s)" unfolding n by (simp add: index_nodes_dom)
  note vc = valid_connections_facts [of s ?nodes ?defs ?cs, OF prod.collapse [of "validate_connections s ?nodes ?defs",
      folded cs, symmetric]]
  have dk: "k \<in> node_id ` set (snap_nodes s)" if "dict_get ?defs k \<noteq> None" for k
    using that unfolding resolve_definitions_facts(1) [OF rd] dom [symmetric] by (auto simp: fmlookup_dom_iff split: option.splits)
  have "located s i" if i: "i \<in> set ?front" for i
  proof -
  from i consider
      "i \<in> set (snd (unique_nodes s))" | "i \<in> set (snd (snd (resolve_definitions registry ?nodes)))"
    | "i \<in> set (snd (validate_connections s ?nodes ?defs))" | "i \<in> set (validate_cardinality ?cs)"
    | "i \<in> set (st_types st)" | "i \<in> set (cycle_issues (st_cyclic st))"
    | "i \<in> set (validate_required_inputs ?cs ?defs (an_parameters a))"
    | "i \<in> set (snd (analyze_clocks (an_order a) ?defs ?cs fmempty))"
    unfolding set_append by blast
  then show ?thesis
  proof cases
    case 1
    then have "vi_node i \<in> Some ` node_id ` set (snap_nodes s) \<or> vi_connection i \<in> Some ` conn_id ` set (snap_connections s)"
      using index_nodes_nodes repeated_connections_ids unfolding unique_nodes_def split_beta by fastforce
    then show ?thesis by (simp add: located_def)
  next
    case 2
    then obtain k x where "(k, x) \<in> set (sorted_list_of_fmap ?nodes)" "vi_node i = Some k"
      using definition_issues_node unfolding resolve_definitions_facts(5) [OF rd] by auto
    then have "vi_node i = Some k" "k \<in> fset (fmdom ?nodes)" by (auto simp: sorted_list_of_fmap_iff fmlookup_dom_iff)
    then show ?thesis unfolding dom using located_node by blast
  next
    case 3
    then have "vi_connection i \<in> Some ` conn_id ` set (snap_connections s)"
      using check_connections_ids unfolding validate_connections_def by fastforce
    then show ?thesis by (simp add: located_def)
  next
    case 4
    from cardinality_nodes [OF this] obtain c where c: "c \<in> set ?cs" "vi_node i = Some (destination_node c)" by auto
    with vc(2) have "destination_node c \<in> fset (fmdom ?nodes)" by (auto simp: kept_ok_def)
    with c(2) show ?thesis unfolding dom using located_node by blast
  next
    case 5
    with tab consider r where "r \<in> all_refs ?cs ?defs" "unsettled_issue r i" | c where "c \<in> set ?cs" "vi_connection i = Some (conn_id c)"
      unfolding table_ok_def by blast
    then show ?thesis
    proof cases
      case 1
      then obtain k d where k: "(k, d) \<in> set ?defs" "r \<in> node_refs ?cs (k, d)" by (auto simp: all_refs_def)
      then have "fst r = k" by (auto simp: node_refs_def socket_refs_def)
      with 1(2) have "vi_node i = Some k" by (simp add: unsettled_issue_def)
      moreover have "dict_get ?defs k \<noteq> None" using k(1) defs by (auto simp: definitions_ok_def dict_ok_def)
      ultimately show ?thesis using located_node dk by blast
    next
      case 2
      with vc(1) show ?thesis using located_connection by blast
    qed
  next
    case 6
    then obtain k where k: "k \<in> set (st_cyclic st)" "vi_node i = Some k" by (auto simp: cycle_issues_def)
    then have "k \<in> node_id ` set (snap_nodes s)" using ord(2) dom by blast
    with k(2) show ?thesis using located_node by blast
  next
    case 7
    then obtain k d where k: "(k, d) \<in> set ?defs" "vi_node i = Some k"
      using requirement_issues_node by (fastforce simp: validate_required_inputs_def)
    then have "dict_get ?defs k \<noteq> None" using defs by (auto simp: definitions_ok_def dict_ok_def)
    with k(2) show ?thesis using located_node dk by blast
  next
    case 8
    from analyze_clocks_nodes [OF this] obtain k where k: "k \<in> set (an_order a)" "vi_node i = Some k" by auto
    then have "k \<in> node_id ` set (snap_nodes s)" using ord(1) dom by blast
    with k(2) show ?thesis using located_node by blast
  qed
  qed
  moreover have "an_report a = ?front @ snd (resolve_demand_roots ?nodes ?defs ?cs requested)" by (simp add: rep)
  ultimately show ?thesis by blast
qed

section \<open>Compilation always ends with a plan\<close>

lemma unreduced:
  assumes "reduced_snapshot s a = None" and "\<forall>i \<in> set (an_report a). vi_severity i = ERROR" and "i \<in> set (an_report a)"
  shows "\<not> located s i"
proof
  assume loc: "located s i"
  let ?gone = "dropped_nodes s a"
  let ?kept = "\<lambda>c. conn_id c \<notin> dropped_connections a \<and> source_node c \<notin> ?gone \<and> destination_node c \<notin> ?gone"
  have none: "?gone = {}" and len: "length (filter ?kept (snap_connections s)) = length (snap_connections s)"
    using assms(1) by (auto simp: reduced_snapshot_def Let_def split: if_splits)
  have err: "i \<in> set (report_errors (an_report a))" using assms(2,3) by (simp add: report_errors_def)
  have keep: "?kept c" if "c \<in> set (snap_connections s)" for c
  proof (rule ccontr)
    assume "\<not> ?kept c"
    from length_filter_less [of c "snap_connections s" ?kept, OF that this] len show False by simp
  qed
  from loc consider n where "vi_node i = Some n" "n \<in> node_id ` set (snap_nodes s)"
    | c where "vi_connection i = Some (conn_id c)" "c \<in> set (snap_connections s)"
    by (auto simp: located_def)
  then show False
  proof cases
    case 1
    then have "Some n \<in> vi_node ` set (report_errors (an_report a))" using err by (metis imageI)
    then have "n \<in> ?gone" using 1(2) by (simp add: dropped_nodes_def in_these_eq)
    with none show ?thesis by simp
  next
    case 2
    then have "Some (conn_id c) \<in> vi_connection ` set (report_errors (an_report a))" using err by (metis imageI)
    then have "conn_id c \<in> dropped_connections a" by (simp add: dropped_connections_def in_these_eq)
    with keep [OF 2(2)] show ?thesis by simp
  qed
qed

lemma unreduced_front:
  assumes "analysis_ok registry s r a st" and "reduced_snapshot s a = None"
  shows "an_report a = snd (resolve_demand_roots (an_nodes a) (an_definitions a) (an_connections a) r)"
proof -
  have err: "\<forall>i \<in> set (an_report a). vi_severity i = ERROR" using assms(1) unfolding analysis_ok_def Let_def by blast
  from analysis_located [OF assms(1)] obtain front where
    f: "an_report a = front @ snd (resolve_demand_roots (an_nodes a) (an_definitions a) (an_connections a) r)"
      "\<forall>i \<in> set front. located s i" by blast
  have "i \<notin> set front" for i using unreduced [OF assms(2) err, of i] f by auto
  then have "front = []" by (metis list.set_intros(1) neq_Nil_conv)
  with f(1) show ?thesis by simp
qed

lemma roots_issues_Nil:
  "snd (resolve_demand_roots nodes defs cs requested) = [] \<longleftrightarrow>
     (case requested of None \<Rightarrow> True | Some rs \<Rightarrow> set rs \<subseteq> fset (fmdom nodes))"
  by (auto simp: resolve_demand_roots_def Let_def sorted_list_of_set_eq_Nil_iff split: option.split)

lemma analysis_nodes:
  assumes "analysis_ok registry s r a st"
  shows "fset (fmdom (an_nodes a)) = node_id ` set (snap_nodes s)"
proof -
  have "an_nodes a = fst (index_nodes (snap_nodes s) fmempty)"
    using assms unfolding analysis_ok_def Let_def by blast
  then show ?thesis by (simp add: index_nodes_dom)
qed

text \<open>The demand roots can only add complaints about absent roots.\<close>

lemma analyze_shape:
  assumes "analyze registry s r = Inr a"
  shows "\<exists>pre nodes defs cs. \<forall>r'. \<exists>a'. analyze registry s r' = Inr a' \<and>
    an_report a' = pre @ snd (resolve_demand_roots nodes defs cs r') \<and> an_nodes a' = nodes \<and>
    an_definitions a' = defs \<and> an_connections a' = cs"
proof -
  obtain nodes is1 where 1: "unique_nodes s = (nodes, is1)" by (metis surj_pair)
  obtain defs "values" is2 where 2: "resolve_definitions registry nodes = (defs, values, is2)" by (metis surj_pair)
  obtain cs is3 where 3: "validate_connections s nodes defs = (cs, is3)" by (metis surj_pair)
  obtain table is4 where 4: "resolve_types cs defs values = Inr (table, is4)"
    using assms by (auto simp: analyze_def 1 2 3 bind_res_eq_Inr)
  obtain order cyc where 5: "topological_order (fmdom nodes) cs = Inr (order, cyc)"
    using assms by (auto simp: analyze_def 1 2 3 4 bind_res_eq_Inr)
  obtain clocks is6 where 6: "analyze_clocks order defs cs fmempty = (clocks, is6)" by (metis surj_pair)
  let ?pre = "is1 @ is2 @ is3 @ validate_cardinality cs @ is4 @ cycle_issues cyc @
      validate_required_inputs cs defs values @ is6"
  have "\<exists>a'. analyze registry s r' = Inr a' \<and>
    an_report a' = ?pre @ snd (resolve_demand_roots nodes defs cs r') \<and> an_nodes a' = nodes \<and>
    an_definitions a' = defs \<and> an_connections a' = cs" for r'
    by (cases "resolve_demand_roots nodes defs cs r'") (simp add: analyze_def 1 2 3 4 5 6)
  then show ?thesis by blast
qed

lemma present_roots_suffice:
  assumes "analyze registry s r = Inr a" and "analyze registry s r' = Inr a'"
    and ok: "analysis_ok registry s r a st" and "reduced_snapshot s a = None"
    and "case r' of None \<Rightarrow> True | Some rs \<Rightarrow> set rs \<subseteq> node_id ` set (snap_nodes s)"
  shows "an_report a' = []"
proof -
  from analyze_shape [OF assms(1)] obtain pre nodes defs cs where
    p: "\<forall>r'. \<exists>a'. analyze registry s r' = Inr a' \<and> an_report a' = pre @ snd (resolve_demand_roots nodes defs cs r') \<and>
      an_nodes a' = nodes \<and> an_definitions a' = defs \<and> an_connections a' = cs" by blast
  from spec [OF p, of r] assms(1) have a: "an_report a = pre @ snd (resolve_demand_roots nodes defs cs r)"
    "an_nodes a = nodes" "an_definitions a = defs" "an_connections a = cs" by auto
  from spec [OF p, of r'] assms(2) have a': "an_report a' = pre @ snd (resolve_demand_roots nodes defs cs r')" by auto
  have "pre = []" using unreduced_front [OF ok assms(4)] a by simp
  moreover have "snd (resolve_demand_roots nodes defs cs r') = []"
    unfolding roots_issues_Nil using assms(5) analysis_nodes [OF ok] a(2) by (auto split: option.splits)
  ultimately show ?thesis by (simp add: a')
qed

text \<open>A result with a plan made from a valid analysis.\<close>

definition has_plan :: "node_registry \<Rightarrow> graph_snapshot \<Rightarrow> compilation_result \<Rightarrow> bool" where
  "has_plan registry s r \<longleftrightarrow> (\<exists>s' p a st requested. cr_plan r = Some p \<and>
     valid_analysis registry s' requested a st \<and> list_all2 (compiled_ok a) (an_order a) (ep_nodes p) \<and>
     set (snap_nodes s') \<subseteq> set (snap_nodes s) \<and> set (snap_connections s') \<subseteq> set (snap_connections s) \<and>
     ep_document_id p = snap_document_id s \<and> ep_graph_revision p = snap_revision s \<and>
     ep_demand_roots p = an_roots a)"

lemma planned_ok:
  assumes "registry_ok registry" and "valid_analysis registry s' requested a st"
    and "set (snap_nodes s') \<subseteq> set (snap_nodes s)" and "set (snap_connections s') \<subseteq> set (snap_connections s)"
  shows "\<exists>r. planned s full a = Inr r \<and> cr_report r = an_report full \<and> has_plan registry s r \<and>
    cr_resolved_types r = an_resolved_types full"
proof -
  from build_plan_ok [OF assms(1,2)] obtain p where p: "build_plan s a = Inr p"
    "list_all2 (compiled_ok a) (an_order a) (ep_nodes p)" by blast
  have "ep_document_id p = snap_document_id s \<and> ep_graph_revision p = snap_revision s \<and> ep_demand_roots p = an_roots a"
    using p(1) by (auto simp: build_plan_def bind_res_eq_Inr)
  with p assms(2-4) show ?thesis by (auto simp: planned_def has_plan_def)
qed

lemma reduced_sub:
  "reduced_snapshot s a = Some s' \<Longrightarrow> set (snap_nodes s') \<subseteq> set (snap_nodes s) \<and>
     set (snap_connections s') \<subseteq> set (snap_connections s)"
  by (auto simp: reduced_snapshot_def Let_def split: if_splits)

lemma surviving_present:
  "case surviving_roots requested s of None \<Rightarrow> True | Some rs \<Rightarrow> set rs \<subseteq> node_id ` set (snap_nodes s)"
  by (auto simp: surviving_roots_def split: option.split)

lemma surviving_all:
  "surviving_roots requested s = requested \<Longrightarrow>
   case requested of None \<Rightarrow> True | Some rs \<Rightarrow> set rs \<subseteq> node_id ` set (snap_nodes s)"
  using surviving_present [where requested = requested and s = s] by simp

lemma valid_iff:
  "analysis_ok registry s r a st \<Longrightarrow> report_is_valid (an_report a) \<longleftrightarrow> an_report a = []"
  by (rule report_valid_iff) (auto simp: analysis_ok_def Let_def)

lemma compile_loop_plans:
  "registry_ok registry \<Longrightarrow> analyze registry current r = Inr a \<Longrightarrow>
    r = requested \<or> r = surviving_roots requested current \<Longrightarrow>
    an_report a \<noteq> [] \<Longrightarrow> set (snap_nodes current) \<subseteq> set (snap_nodes s) \<Longrightarrow>
    set (snap_connections current) \<subseteq> set (snap_connections s) \<Longrightarrow>
    \<exists>res. compile_loop registry s requested full current a = Inr res \<and> cr_report res = an_report full \<and>
      has_plan registry s res \<and> cr_resolved_types res = an_resolved_types full"
proof (induction registry s requested full current a arbitrary: r rule: compile_loop.induct)
  case (1 registry s requested full current a)
  note reg = 1(2) and an = 1(3) and r = 1(4) and bad = 1(5) and sub = 1(6,7)
  obtain st where ok: "analysis_ok registry current r a st"
    using analyze_ok [OF reg, of current r] an by auto
  show ?case
  proof (cases "reduced_snapshot current a")
    case None
    let ?surv = "surviving_roots requested current"
    have "\<not> (case r of None \<Rightarrow> True | Some rs \<Rightarrow> set rs \<subseteq> node_id ` set (snap_nodes current))"
      using present_roots_suffice [OF an an ok None] bad by blast
    then have surv: "?surv \<noteq> requested"
      using r surviving_present [where requested = requested and s = current] surviving_all [where requested = requested and s = current] by auto
    obtain final st' where final: "analyze registry current ?surv = Inr final" "analysis_ok registry current ?surv final st'"
      using analyze_ok [OF reg] by blast
    have nil: "an_report final = []"
      by (rule present_roots_suffice [OF an final(1) ok None surviving_present])
    then have "valid_analysis registry current ?surv final st'" using final(2) by (simp add: valid_analysis_def)
    from planned_ok [OF reg this sub, of full] surv final(1) nil None show ?thesis
      by (simp add: compile_loop.simps [of registry s requested full current a] Let_def report_is_valid_def report_errors_def)
  next
    case (Some reduced)
    let ?surv = "surviving_roots requested reduced"
    obtain a' st' where a': "analyze registry reduced ?surv = Inr a'" "analysis_ok registry reduced ?surv a' st'"
      using analyze_ok [OF reg] by blast
    have sub': "set (snap_nodes reduced) \<subseteq> set (snap_nodes s)" "set (snap_connections reduced) \<subseteq> set (snap_connections s)"
      using reduced_sub [OF Some] sub by blast+
    show ?thesis
    proof (cases "an_report a' = []")
      case True
      then have "valid_analysis registry reduced ?surv a' st'" using a'(2) by (simp add: valid_analysis_def)
      from planned_ok [OF reg this sub', of full] a'(1) True Some show ?thesis
        by (simp add: compile_loop.simps [of registry s requested full current a] report_is_valid_def report_errors_def)
    next
      case False
      then have "\<not> report_is_valid (an_report a')" using valid_iff [OF a'(2)] by simp
      from 1(1) [OF Some a'(1) this reg a'(1) _ False sub'] this a'(1) Some show ?thesis
        by (simp add: compile_loop.simps [of registry s requested full current a])
    qed
  qed
qed

lemma compile_plans:
  assumes "registry_ok registry"
  shows "\<exists>full r. analyze registry s roots = Inr full \<and> compile registry s roots = Inr r \<and>
    cr_report r = an_report full \<and> has_plan registry s r \<and> cr_resolved_types r = an_resolved_types full"
proof -
  obtain full st where full: "analyze registry s roots = Inr full" "analysis_ok registry s roots full st"
    using analyze_ok [OF assms] by blast
  show ?thesis
  proof (cases "an_report full = []")
    case True
    then have "valid_analysis registry s roots full st" using full(2) by (simp add: valid_analysis_def)
    from planned_ok [OF assms this, of s full] full(1) True show ?thesis
      by (simp add: compile_def report_is_valid_def report_errors_def)
  next
    case False
    then have "\<not> report_is_valid (an_report full)" using valid_iff [OF full(2)] by simp
    with compile_loop_plans [OF assms full(1) _ False, of roots s full] full(1) show ?thesis
      by (simp add: compile_def)
  qed
qed

section \<open>Clocks\<close>

text \<open>A source feeds itself and every node it reaches without passing another source.\<close>

inductive feeds :: "definitions \<Rightarrow> (uuid \<times> uuid) set \<Rightarrow> uuid \<Rightarrow> uuid \<Rightarrow> bool" for defs E where
  itself: "dict_get defs s = Some d \<Longrightarrow> ec_kind (nd_execution d) = SOURCE \<Longrightarrow> feeds defs E s s"
| along: "feeds defs E s m \<Longrightarrow> (m, n) \<in> E \<Longrightarrow> dict_get defs n = Some d \<Longrightarrow> ec_kind (nd_execution d) \<noteq> SOURCE \<Longrightarrow> feeds defs E s n"

inductive_cases feedsE: "feeds defs E s n"

lemma feeds_source:
  "dict_get defs n = Some d \<Longrightarrow> ec_kind (nd_execution d) = SOURCE \<Longrightarrow> feeds defs E s n \<longleftrightarrow> s = n"
  by (auto elim: feedsE intro: feeds.itself)

lemma feeds_other:
  "dict_get defs n = Some d \<Longrightarrow> ec_kind (nd_execution d) \<noteq> SOURCE \<Longrightarrow>
   feeds defs E s n \<longleftrightarrow> (\<exists>m. (m, n) \<in> E \<and> feeds defs E s m)"
  by (auto elim: feedsE intro: feeds.along)

lemma feeds_unknown: "dict_get defs n = None \<Longrightarrow> \<not> feeds defs E s n"
  by (auto elim: feedsE)

definition clocks_inv :: "definitions \<Rightarrow> connection_model list \<Rightarrow> uuid set \<Rightarrow> clock_table \<Rightarrow> bool" where
  "clocks_inv defs cs P clocks \<longleftrightarrow> fset (fmdom clocks) \<subseteq> P \<and>
     (\<forall>m \<in> P. \<forall>s. the_clock clocks m = Some s \<longleftrightarrow> feeds defs (edges cs) s m)"

lemma the_clock_upd [simp]: "the_clock (fmupd n c clocks) m = (if m = n then c else the_clock clocks m)"
  by (simp add: the_clock_def)

lemma the_clock_absent: "n \<notin> fset (fmdom clocks) \<Longrightarrow> the_clock clocks n = None"
  by (auto simp: the_clock_def fmlookup_dom_iff split: option.split)

lemma clocks_step:
  assumes "clocks_inv defs cs P clocks" and "\<forall>s. c = Some s \<longleftrightarrow> feeds defs (edges cs) s n"
  shows "clocks_inv defs cs (insert n P) (fmupd n c clocks)"
  using assms by (auto simp: clocks_inv_def)

lemma incoming_feeds:
  assumes "clocks_inv defs cs P clocks" and "\<forall>m. (m, n) \<in> edges cs \<longrightarrow> m \<in> P"
  shows "incoming_clocks cs clocks n = {s. \<exists>m. (m, n) \<in> edges cs \<and> feeds defs (edges cs) s m}"
proof -
  have "s \<in> incoming_clocks cs clocks n \<longleftrightarrow> (\<exists>m. (m, n) \<in> edges cs \<and> the_clock clocks m = Some s)" for s
    by (auto simp: incoming_clocks_def in_these_eq predecessors_edges image_iff)
  moreover have "the_clock clocks m = Some s \<longleftrightarrow> feeds defs (edges cs) s m" if "(m, n) \<in> edges cs" for m s
    using assms that unfolding clocks_inv_def by blast
  ultimately show ?thesis by blast
qed

lemma finite_incoming [simp]: "finite (incoming_clocks cs clocks n)"
  by (simp add: incoming_clocks_def predecessors_def Option.these_def)

lemma analyze_clocks_feeds:
  assumes "greedy (edges cs) N (pre @ post)" and "distinct (pre @ post)" and "clocks_inv defs cs (set pre) clocks"
    and "snd (analyze_clocks post defs cs clocks) = []"
  shows "clocks_inv defs cs (set (pre @ post)) (fst (analyze_clocks post defs cs clocks))"
  using assms
proof (induction post arbitrary: pre clocks)
  case (Cons n post)
  have preds: "\<forall>m. (m, n) \<in> edges cs \<longrightarrow> m \<in> set pre"
  proof (intro allI impI)
    fix m assume "(m, n) \<in> edges cs"
    then have "\<exists>i < length pre. (pre @ n # post) ! i = m"
      using greedy_position [OF Cons.prems(1), of "length pre" m] by simp
    then show "m \<in> set pre" by (auto simp: nth_append)
  qed
  have IH: "clocks_inv defs cs (set (pre @ n # post)) (fst (analyze_clocks post defs cs clocks'))"
    if "clocks_inv defs cs (insert n (set pre)) clocks'" "snd (analyze_clocks post defs cs clocks') = []" for clocks'
    using Cons.IH [of "pre @ [n]" clocks'] Cons.prems(1,2) that by simp
  show ?case
  proof (cases "dict_get defs n")
    case None
    have "n \<notin> fset (fmdom clocks)" using Cons.prems(2,3) by (auto simp: clocks_inv_def)
    then have "clocks_inv defs cs (insert n (set pre)) clocks"
      using Cons.prems(3) feeds_unknown [OF None] by (auto simp: clocks_inv_def the_clock_absent)
    from IH [OF this] Cons.prems(4) None show ?thesis by simp
  next
    case (Some d)
    show ?thesis
    proof (cases "ec_kind (nd_execution d) = SOURCE")
      case True
      have "clocks_inv defs cs (insert n (set pre)) (fmupd n (Some n) clocks)"
        by (rule clocks_step [OF Cons.prems(3)]) (auto simp: feeds_source [OF Some True])
      from IH [OF this] Cons.prems(4) Some True show ?thesis by simp
    next
      case False
      let ?inc = "incoming_clocks cs clocks n"
      have card: "\<not> 1 < card ?inc" using Cons.prems(4) Some False by (auto simp: Let_def split_beta split: if_splits)
      have inc: "?inc = {s. feeds defs (edges cs) s n}"
        unfolding incoming_feeds [OF Cons.prems(3) preds] feeds_other [OF Some False] by blast
      have "(if ?inc = {} then None else Some (the_elem ?inc)) = Some s \<longleftrightarrow> feeds defs (edges cs) s n" for s
      proof (cases "?inc = {}")
        case True
        then show ?thesis using inc by auto
      next
        case F: False
        with card have "card ?inc = 1" by (metis One_nat_def card_gt_0_iff finite_incoming less_one linorder_neqE_nat not_less_zero)
        then obtain x where x: "?inc = {x}" by (auto simp: card_1_singleton_iff)
        then have "feeds defs (edges cs) s n \<longleftrightarrow> s = x" using inc by blast
        with x show ?thesis by auto
      qed
      then have "clocks_inv defs cs (insert n (set pre)) (fmupd n (if ?inc = {} then None else Some (the_elem ?inc)) clocks)"
        by (intro clocks_step [OF Cons.prems(3)]) simp
      from IH [OF this] Cons.prems(4) Some False card show ?thesis by (simp add: Let_def)
    qed
  qed
qed simp

section \<open>Plans as graphs\<close>

definition plan_edges :: "execution_plan \<Rightarrow> (uuid \<times> uuid) set" where
  "plan_edges p = {(pk_node (ib_source b), cn_node_id cn) | cn q b.
     cn \<in> set (ep_nodes p) \<and> dict_get (cn_input_bindings cn) q = Some b}"

text \<open>The clock sources of a plan, read off its nodes and bindings.\<close>

inductive plan_feeds :: "execution_plan \<Rightarrow> uuid \<Rightarrow> uuid \<Rightarrow> bool" for p where
  itself: "cn \<in> set (ep_nodes p) \<Longrightarrow> ec_kind (cn_definition cn) = SOURCE \<Longrightarrow> plan_feeds p (cn_node_id cn) (cn_node_id cn)"
| along: "plan_feeds p s m \<Longrightarrow> (m, cn_node_id cn) \<in> plan_edges p \<Longrightarrow> cn \<in> set (ep_nodes p) \<Longrightarrow>
    ec_kind (cn_definition cn) \<noteq> SOURCE \<Longrightarrow> plan_feeds p s (cn_node_id cn)"

lemma plan_graph:
  assumes valid: "valid_analysis registry s requested a st"
    and nodes: "list_all2 (compiled_ok a) (an_order a) (ep_nodes p)"
  shows "plan_edges p = edges (an_connections a)"
    and "cn \<in> set (ep_nodes p) \<Longrightarrow> compiled_ok a (cn_node_id cn) cn"
    and "plan_feeds p x n \<longleftrightarrow> feeds (an_definitions a) (edges (an_connections a)) x n"
proof -
  note f = valid_analysis_facts [OF valid]
  have complete: "plan_complete s p" by (rule plan_of_valid(2) [OF valid nodes])
  have ids: "cn_node_id ` set (ep_nodes p) = node_id ` set (snap_nodes s)"
    using complete by (simp add: plan_complete_def topological_node_ids_def)
  have cok: "compiled_ok a (cn_node_id cn) cn" if cn: "cn \<in> set (ep_nodes p)" for cn
  proof -
    obtain i where i: "i < length (ep_nodes p)" "cn = ep_nodes p ! i" using cn by (auto simp: in_set_conv_nth)
    have "compiled_ok a (an_order a ! i) cn" unfolding i(2) by (rule list_all2_nthD2 [OF nodes i(1)])
    then show ?thesis by (auto simp: compiled_ok_def Let_def)
  qed
  then show "cn \<in> set (ep_nodes p) \<Longrightarrow> compiled_ok a (cn_node_id cn) cn" .
  have dest: "destination_node c \<in> cn_node_id ` set (ep_nodes p)" if "c \<in> set (snap_connections s)" for c
  proof -
    have "analysis_ok registry s requested a st" using valid by (simp add: valid_analysis_def)
    then have cs: "an_connections a = fst (validate_connections s (an_nodes a) (an_definitions a))"
      unfolding analysis_ok_def Let_def by blast
    have "kept_ok (an_nodes a) (an_definitions a) c"
      using valid_connections_facts(2) [of s "an_nodes a" "an_definitions a" "an_connections a"] cs that f(4) by (metis prod.collapse)
    then show ?thesis using ids f(5) by (auto simp: kept_ok_def)
  qed
  have bind: "(\<exists>b. dict_get (cn_input_bindings cn) q = Some b \<and> ib_source b = k) \<longleftrightarrow>
        (\<exists>c \<in> set (snap_connections s). destination_node c = cn_node_id cn \<and> destination_port c = q \<and>
           k = PortKey (source_node c) (source_port c))" if "cn \<in> set (ep_nodes p)" for cn q k
    using complete that by (simp add: plan_complete_def)
  show edges: "plan_edges p = edges (an_connections a)"
  proof (intro set_eqI iffI)
    fix e assume "e \<in> plan_edges p"
    then obtain cn q b where e: "e = (pk_node (ib_source b), cn_node_id cn)" "cn \<in> set (ep_nodes p)"
      "dict_get (cn_input_bindings cn) q = Some b" by (auto simp: plan_edges_def)
    with bind [OF e(2), of q "ib_source b"] show "e \<in> edges (an_connections a)"
      unfolding edges_def set_map f(4) by auto
  next
    fix e assume "e \<in> edges (an_connections a)"
    then obtain c where c: "c \<in> set (snap_connections s)" "e = (source_node c, destination_node c)"
      unfolding edges_def set_map f(4) by auto
    from dest [OF c(1)] obtain cn where cn: "cn \<in> set (ep_nodes p)" "cn_node_id cn = destination_node c" by auto
    with bind [OF cn(1), of "destination_port c" "PortKey (source_node c) (source_port c)"] c(1) obtain b where
      "dict_get (cn_input_bindings cn) (destination_port c) = Some b" "ib_source b = PortKey (source_node c) (source_port c)"
      by auto
    with cn c(2) show "e \<in> plan_edges p" unfolding plan_edges_def by force
  qed
  have def1: "\<exists>d. dict_get (an_definitions a) (cn_node_id cn) = Some d \<and> cn_definition cn = nd_execution d"
    if "cn \<in> set (ep_nodes p)" for cn
    using cok [OF that] by (auto simp: compiled_ok_def Let_def)
  have def2: "\<exists>cn \<in> set (ep_nodes p). cn_node_id cn = k" if "dict_get (an_definitions a) k = Some d" for k d
  proof -
    have "analysis_ok registry s requested a st" using valid by (simp add: valid_analysis_def)
    then have rd: "resolve_definitions registry (an_nodes a) =
       (an_definitions a, an_parameters a, snd (snd (resolve_definitions registry (an_nodes a))))"
      unfolding analysis_ok_def Let_def by blast
    have "k \<in> fset (fmdom (an_nodes a))"
      using that unfolding resolve_definitions_facts(1) [OF rd] by (auto simp: fmlookup_dom_iff split: option.splits)
    then have "k \<in> cn_node_id ` set (ep_nodes p)" unfolding f(5) ids .
    then show ?thesis by blast
  qed
  show "plan_feeds p x n \<longleftrightarrow> feeds (an_definitions a) (edges (an_connections a)) x n"
  proof
    assume "plan_feeds p x n"
    then show "feeds (an_definitions a) (edges (an_connections a)) x n"
    proof (induction rule: plan_feeds.induct)
      case (itself cn)
      from def1 [OF itself(1)] itself(2) show ?case by (auto intro: feeds.itself)
    next
      case (along y m cn)
      from def1 [OF along(3)] along show ?case by (auto simp: edges intro: feeds.along)
    qed
  next
    assume "feeds (an_definitions a) (edges (an_connections a)) x n"
    then show "plan_feeds p x n"
    proof (induction rule: feeds.induct)
      case (itself y d)
      from def2 [OF itself(1)] obtain cn where cn: "cn \<in> set (ep_nodes p)" "cn_node_id cn = y" by blast
      with def1 [OF cn(1)] itself plan_feeds.itself [OF cn(1)] show ?case by auto
    next
      case (along y m k d)
      from def2 [OF along(3)] obtain cn where cn: "cn \<in> set (ep_nodes p)" "cn_node_id cn = k" by blast
      with def1 [OF cn(1)] along plan_feeds.along [OF _ _ cn(1), of y m] edges show ?case by auto
    qed
  qed
qed

section \<open>Prospective connections\<close>

definition direct_answer :: "(uuid \<Rightarrow> message \<Rightarrow> uuid) \<Rightarrow> node_registry \<Rightarrow> graph_snapshot \<Rightarrow> endpoint \<Rightarrow> compatibility \<Rightarrow> bool" where
  "direct_answer uuid5 registry s e c \<longleftrightarrow>
     (case e of (sn, sp, dn, dp) \<Rightarrow>
       let retained = filter (\<lambda>c. \<not> occupies dn dp c) (snap_connections s) in
       \<exists>before after. validate registry (s\<lparr>snap_connections := retained\<rparr>) None = Inr before \<and>
         validate registry (s\<lparr>snap_connections := retained @ [candidate_connection uuid5 (snap_document_id s) e]\<rparr>) None = Inr after \<and>
         cc_issues c = filter (\<lambda>i. issue_identity i \<notin> issue_identity ` set before) (report_errors after) \<and>
         cc_accepted c = (cc_issues c = []))"

definition cache_ok :: "node_registry \<Rightarrow> graph_snapshot \<Rightarrow> baselines \<Rightarrow> bool" where
  "cache_ok registry s cache \<longleftrightarrow> (\<forall>(cs, ids) \<in> set cache. \<exists>P before. cs = filter P (snap_connections s) \<and>
     validate registry (s\<lparr>snap_connections := cs\<rparr>) None = Inr before \<and> ids = issue_identity ` set before)"

lemma validate_total: "registry_ok registry \<Longrightarrow> \<exists>is. validate registry s roots = Inr is"
  using analyze_ok [of registry s roots] by (auto simp: validate_def)

text \<open>Two retained tuples the cache identifies are the same, since connection ids are unique.\<close>

lemma equal_retained:
  assumes "list_all2 connection_eq (filter P cs) (filter Q cs)" and "distinct (map conn_id cs)"
  shows "filter P cs = filter Q cs"
proof -
  have "map conn_id (filter P cs) = map conn_id (filter Q cs)"
    using assms(1) by (induction rule: list_all2_induct) (auto simp: connection_eq_def)
  moreover have "inj_on conn_id (set (filter P cs) \<union> set (filter Q cs))"
    using assms(2) by (auto simp: distinct_map intro: inj_on_subset)
  ultimately show ?thesis by (rule map_inj_on)
qed

lemma cached_baseline_ok:
  assumes "registry_ok registry" and "cache_ok registry s cache" and "distinct (map conn_id (snap_connections s))"
  shows "\<exists>before cache'. cached_baseline registry s (filter P (snap_connections s)) cache = Inr (issue_identity ` set before, cache') \<and>
    validate registry (s\<lparr>snap_connections := filter P (snap_connections s)\<rparr>) None = Inr before \<and> cache_ok registry s cache'"
proof -
  let ?r = "filter P (snap_connections s)"
  show ?thesis
  proof (cases "List.find (\<lambda>(cs, ids). list_all2 connection_eq cs ?r) cache")
    case None
    obtain before where b: "validate registry (s\<lparr>snap_connections := ?r\<rparr>) None = Inr before"
      using validate_total [OF assms(1)] by blast
    then have "cached_baseline registry s ?r cache = Inr (issue_identity ` set before, cache @ [(?r, issue_identity ` set before)])"
      by (simp add: cached_baseline_def None Let_def)
    moreover have "cache_ok registry s (cache @ [(?r, issue_identity ` set before)])"
      using assms(2) b unfolding cache_ok_def by auto
    ultimately show ?thesis using b by blast
  next
    case (Some x)
    obtain cs ids where x: "x = (cs, ids)" by (cases x)
    from find_SomeD [OF Some] have "(cs, ids) \<in> set cache" and eq: "list_all2 connection_eq cs ?r"
      by (simp_all add: x)
    with assms(2) obtain Q before where q: "cs = filter Q (snap_connections s)"
      "validate registry (s\<lparr>snap_connections := cs\<rparr>) None = Inr before" "ids = issue_identity ` set before"
      unfolding cache_ok_def by blast
    have "cs = ?r" using equal_retained [OF eq [unfolded q(1)] assms(3)] q(1) by simp
    moreover have "cached_baseline registry s ?r cache = Inr (ids, cache)" by (simp add: cached_baseline_def Some x)
    ultimately show ?thesis using q(2,3) assms(2) by blast
  qed
qed

lemma query_endpoint_ok:
  assumes "registry_ok registry" and "cache_ok registry s cache" and "distinct (map conn_id (snap_connections s))"
  shows "\<exists>c cache'. query_endpoint uuid5 registry s e (results, cache) = Inr (dict_set e c results, cache') \<and>
    cache_ok registry s cache' \<and> direct_answer uuid5 registry s e c"
proof -
  obtain sn sp dn dp where e: "e = (sn, sp, dn, dp)" by (cases e)
  let ?r = "filter (\<lambda>c. \<not> occupies dn dp c) (snap_connections s)"
  obtain before cache' where b: "cached_baseline registry s ?r cache = Inr (issue_identity ` set before, cache')"
    "validate registry (s\<lparr>snap_connections := ?r\<rparr>) None = Inr before" "cache_ok registry s cache'"
    using cached_baseline_ok [OF assms, of "\<lambda>c. \<not> occupies dn dp c"] by blast
  obtain after where af: "validate registry (s\<lparr>snap_connections := ?r @ [candidate_connection uuid5 (snap_document_id s) e]\<rparr>) None = Inr after"
    using validate_total [OF assms(1)] by blast
  let ?new = "filter (\<lambda>i. issue_identity i \<notin> issue_identity ` set before) (report_errors after)"
  let ?c = "\<lparr>cc_accepted = (?new = []), cc_issues = ?new\<rparr>"
  have "query_endpoint uuid5 registry s e (results, cache) = Inr (dict_set e ?c results, cache')"
    using af by (simp add: query_endpoint_def e b(1) Let_def)
  moreover have "direct_answer uuid5 registry s e ?c"
    unfolding direct_answer_def Let_def e prod.case using b(2) af [unfolded e] by simp
  ultimately show ?thesis using b(3) by blast
qed

lemma queries_ok:
  assumes "registry_ok registry" and "distinct (map conn_id (snap_connections s))"
  shows "cache_ok registry s cache \<Longrightarrow> \<forall>e c. dict_get results e = Some c \<longrightarrow> direct_answer uuid5 registry s e c \<Longrightarrow>
    \<exists>results' cache'. foldM (query_endpoint uuid5 registry s) es (results, cache) = Inr (results', cache') \<and>
      fst ` set results' = fst ` set results \<union> set es \<and>
      (\<forall>e c. dict_get results' e = Some c \<longrightarrow> direct_answer uuid5 registry s e c)"
proof (induction es arbitrary: results cache)
  case (Cons e es)
  from query_endpoint_ok [OF assms(1) Cons.prems(1) assms(2), of uuid5 e results] obtain c cache1 where
    1: "query_endpoint uuid5 registry s e (results, cache) = Inr (dict_set e c results, cache1)" "cache_ok registry s cache1"
      "direct_answer uuid5 registry s e c" by blast
  have "\<forall>e' c'. dict_get (dict_set e c results) e' = Some c' \<longrightarrow> direct_answer uuid5 registry s e' c'"
    using Cons.prems(2) 1(3) by simp
  from Cons.IH [OF 1(2) this] obtain results' cache' where
    "foldM (query_endpoint uuid5 registry s) es (dict_set e c results, cache1) = Inr (results', cache')"
    "fst ` set results' = fst ` set (dict_set e c results) \<union> set es"
    "\<forall>e c. dict_get results' e = Some c \<longrightarrow> direct_answer uuid5 registry s e c" by blast
  with 1(1) show ?case by auto
qed auto

section \<open>A small registry and graph\<close>

definition plain_contract :: "string \<Rightarrow> execution_kind \<Rightarrow> input_port_spec list \<Rightarrow> output_port_spec list \<Rightarrow> execution_contract" where
  "plain_contract t kind ins outs =
     \<lparr>ec_type_id = t, ec_version = 1, ec_kind = kind, ec_inputs = ins, ec_outputs = outs, ec_parameters = [],
      ec_variadic = None, ec_cache_policy = AUTO, ec_handles_no_data = False, ec_port_type_resolver = None,
      ec_required_input_resolver = None, ec_parameter_validator = None, ec_source_outputs = None,
      ec_has_config_builder = False\<rparr>"

definition plain_definition :: "execution_contract \<Rightarrow> node_definition" where
  "plain_definition c = \<lparr>nd_execution = c, nd_aliases = [], nd_groups = [], nd_persistence = None\<rparr>"

definition demo_camera :: node_definition where
  "demo_camera = plain_definition (plain_contract ''camera'' SOURCE [] [\<lparr>op_id = ''image'', op_label = ''Image'', op_type = PT IMAGE\<rparr>])"

definition demo_relay :: node_definition where
  "demo_relay = plain_definition (plain_contract ''relay'' STATELESS
     [\<lparr>ip_id = ''value'', ip_label = ''Value'', ip_type = TypeVariable ''T'' {} None, ip_required = True\<rparr>]
     [\<lparr>op_id = ''value'', op_label = ''Value'', op_type = TypeVariable ''T'' {} None\<rparr>])"

definition demo_screen :: node_definition where
  "demo_screen = plain_definition (plain_contract ''screen'' SINK
     [\<lparr>ip_id = ''image'', ip_label = ''Image'', ip_type = PT IMAGE, ip_required = True\<rparr>] [])"

definition demo_registry :: node_registry where
  "demo_registry = fmap_of_list [(''camera'', demo_camera), (''relay'', demo_relay), (''screen'', demo_screen)]"

definition demo_node :: "uuid \<Rightarrow> string \<Rightarrow> node_model" where
  "demo_node i t = \<lparr>node_id = i, node_type_id = t, implementation_version = 1, parameters = fmempty,
     position = (Fin 0, Fin 0), node_size = None, user_label = None, collapsed = False, node_ui_state = fmempty\<rparr>"

definition demo_connection :: "uuid \<Rightarrow> uuid \<Rightarrow> string \<Rightarrow> uuid \<Rightarrow> string \<Rightarrow> connection_model" where
  "demo_connection i sn sp dn dp = \<lparr>conn_id = i, source_node = sn, source_port = sp, destination_node = dn,
     destination_port = dp, conn_ui_state = fmempty\<rparr>"

definition demo_snapshot :: graph_snapshot where
  "demo_snapshot = \<lparr>snap_document_id = 9, snap_revision = 4,
     snap_nodes = [demo_node 3 ''screen'', demo_node 2 ''relay'', demo_node 1 ''camera''],
     snap_connections = [demo_connection 8 2 ''value'' 3 ''image'', demo_connection 7 1 ''image'' 2 ''value''],
     snap_settings = fmempty, snap_groups = []\<rparr>"

lemma plain_types_ok:
  assumes "\<forall>p \<in> set ins. array_ok (ip_type p)" and "\<forall>p \<in> set outs. array_ok (op_type p)"
  shows "contract_types_ok (plain_contract t kind ins outs)"
  unfolding contract_types_ok_def
proof (intro allI impI)
  fix p out params
  let ?c = "plain_contract t kind ins outs"
  assume d: "declared_port ?c p out"
  show "\<exists>e. port_type_of ?c p out params = Inr e \<and> array_ok e"
  proof (cases out)
    case True
    then obtain q where q: "List.find (\<lambda>q. op_id q = p) outs = Some q"
      using d by (auto simp: declared_port_def contract_output_def plain_contract_def)
    then have "q \<in> set outs" by (auto simp: find_Some_iff)
    with True q assms(2) show ?thesis
      by (auto simp: port_type_of_def contract_output_def plain_contract_def)
  next
    case False
    then obtain q where q: "List.find (\<lambda>q. ip_id q = p) ins = Some q"
      using d by (auto simp: declared_port_def contract_input_def plain_contract_def split: option.splits)
    then have "q \<in> set ins" by (auto simp: find_Some_iff)
    with False q assms(1) show ?thesis
      by (auto simp: port_type_of_def contract_input_def plain_contract_def)
  qed
qed

lemma demo_registry_ok: "registry_ok demo_registry"
proof -
  have "contract_ok (nd_execution d) \<and> contract_types_ok (nd_execution d)" if "d \<in> {demo_camera, demo_relay, demo_screen}" for d
    using that
    by (auto simp: demo_camera_def demo_relay_def demo_screen_def plain_definition_def contract_ok_def plain_contract_def
        intro!: plain_types_ok [unfolded plain_contract_def])
  then show ?thesis
    unfolding registry_ok_def by (auto simp: demo_registry_def fmlookup_of_list split: if_splits)
qed

lemma demo_valid: "\<exists>a st. analyze demo_registry demo_snapshot None = Inr a \<and> an_report a = [] \<and>
    valid_analysis demo_registry demo_snapshot None a st"
proof -
  have nil: "case analyze demo_registry demo_snapshot None of Inl e \<Rightarrow> False | Inr a \<Rightarrow> an_report a = []"
    by code_simp
  obtain a st where "analyze demo_registry demo_snapshot None = Inr a" "analysis_ok demo_registry demo_snapshot None a st"
    using analyze_ok [OF demo_registry_ok] by blast
  with nil show ?thesis by (auto simp: valid_analysis_def)
qed

lemma demo_plan:
  "\<exists>r p cn. compile demo_registry demo_snapshot None = Inr r \<and> cr_plan r = Some p \<and> cn \<in> set (ep_nodes p) \<and>
     cn_node_id cn = 3 \<and> cn_clock_id cn = Some 1 \<and> cn_is_demanded cn \<and> ep_demand_roots p = {3}"
proof -
  have "case compile demo_registry demo_snapshot None of Inl e \<Rightarrow> False | Inr r \<Rightarrow>
      (case cr_plan r of None \<Rightarrow> False | Some p \<Rightarrow> ep_demand_roots p = {3} \<and>
        list_ex (\<lambda>cn. cn_node_id cn = 3 \<and> cn_clock_id cn = Some 1 \<and> cn_is_demanded cn) (ep_nodes p))"
    by code_simp
  then show ?thesis by (auto simp: list_ex_iff split: sum.splits option.splits)
qed

lemma planned_clock:
  assumes "registry_ok registry" and "compile registry s roots = Inr r" and "cr_plan r = Some p" and "cn \<in> set (ep_nodes p)"
  shows "cn_clock_id cn = Some x \<longleftrightarrow> plan_feeds p x (cn_node_id cn)"
proof -
  from compile_plans [OF assms(1), of s roots] assms(2) have "has_plan registry s r" by auto
  then obtain s' a st requested where p: "valid_analysis registry s' requested a st"
    "list_all2 (compiled_ok a) (an_order a) (ep_nodes p)"
    using assms(3) unfolding has_plan_def by auto
  note g = plan_graph [OF p]
  have ok: "analysis_ok registry s' requested a st" using p(1) by (simp add: valid_analysis_def)
  then have order: "greedy (edges (an_connections a)) (fset (fmdom (an_nodes a))) (an_order a)" "distinct (an_order a)"
    and clocks: "an_clocks a = fst (analyze_clocks (an_order a) (an_definitions a) (an_connections a) fmempty)"
    unfolding analysis_ok_def Let_def by blast+
  have "clocks_inv (an_definitions a) (an_connections a) (set (an_order a)) (an_clocks a)"
    using analyze_clocks_feeds [of "an_connections a" _ "[]" "an_order a" "an_definitions a" fmempty] order
      valid_analysis_facts(9) [OF p(1)] by (simp add: clocks_inv_def clocks)
  moreover have "cn_node_id cn \<in> set (an_order a)"
    unfolding planned_ids [OF p(2), symmetric] topological_node_ids_def using assms(4) by simp
  moreover have "the_clock (an_clocks a) (cn_node_id cn) = cn_clock_id cn"
    using g(2) [OF assms(4)] by (simp add: compiled_ok_def Let_def the_clock_def)
  ultimately show ?thesis unfolding g(3) clocks_inv_def by auto
qed

lemma planned_demand:
  assumes "registry_ok registry" and "compile registry s roots = Inr r" and "cr_plan r = Some p" and "cn \<in> set (ep_nodes p)"
  shows "cn_is_demanded cn \<longleftrightarrow> (\<exists>x \<in> ep_demand_roots p. (cn_node_id cn, x) \<in> (plan_edges p)\<^sup>*)"
proof -
  from compile_plans [OF assms(1), of s roots] assms(2) have "has_plan registry s r" by auto
  then obtain s' a st requested where p: "valid_analysis registry s' requested a st"
    "list_all2 (compiled_ok a) (an_order a) (ep_nodes p)" "ep_demand_roots p = an_roots a"
    using assms(3) unfolding has_plan_def by auto
  note g = plan_graph [OF p(1,2)]
  have ok: "analysis_ok registry s' requested a st" using p(1) by (simp add: valid_analysis_def)
  then have d: "an_demanded a = upstream_reachable (an_roots a) (an_connections a)"
    and roots: "an_roots a = fst (resolve_demand_roots (an_nodes a) (an_definitions a) (an_connections a) requested)"
    unfolding analysis_ok_def Let_def by blast+
  have "finite (an_roots a)" unfolding roots by (auto simp: resolve_demand_roots_def Let_def split: option.split)
  from upstream_reachable_ancestors [OF this, of "an_connections a"]
  have "an_demanded a = {n. \<exists>r \<in> an_roots a. (n, r) \<in> (plan_edges p)\<^sup>*}" unfolding d g(1) .
  moreover have "cn_is_demanded cn \<longleftrightarrow> cn_node_id cn \<in> an_demanded a"
    using g(2) [OF assms(4)] by (simp add: compiled_ok_def Let_def)
  ultimately show ?thesis using p(3) by simp
qed

section \<open>Properties of compilation\<close>



text \<open>
  C7. Plans are sound: in every plan the compiler returns, whole or partial, the nodes are distinct,
  every binding reads an output port of a node that stands earlier, the settled types of the two
  ports are compatible, an integer read as a float is converted and nothing else is, and every
  binding is a connection of the document.
\<close>

theorem plans_are_sound:
  assumes "registry_ok registry" and "compile registry s roots = Inr r" and "cr_plan r = Some p"
  shows "plan_sound p \<and> (\<forall>cn \<in> set (ep_nodes p). \<forall>q b. dict_get (cn_input_bindings cn) q = Some b \<longrightarrow>
    (\<exists>c \<in> set (snap_connections s). destination_node c = cn_node_id cn \<and> destination_port c = q \<and>
       ib_source b = PortKey (source_node c) (source_port c)))"
proof (intro conjI ballI allI impI)
  from compile_plans [OF assms(1), of s roots] assms(2) have "has_plan registry s r" by auto
  then obtain s' a st requested where p: "valid_analysis registry s' requested a st"
    "list_all2 (compiled_ok a) (an_order a) (ep_nodes p)" "set (snap_connections s') \<subseteq> set (snap_connections s)"
    using assms(3) unfolding has_plan_def by auto
  show "plan_sound p" by (rule plan_of_valid(1) [OF p(1,2)])
  fix cn q b assume "cn \<in> set (ep_nodes p)" "dict_get (cn_input_bindings cn) q = Some b"
  then obtain c where "c \<in> set (snap_connections s')" "destination_node c = cn_node_id cn" "destination_port c = q"
      "ib_source b = PortKey (source_node c) (source_port c)"
    using plan_of_valid(2) [OF p(1,2)] unfolding plan_complete_def by blast
  with p(3) show "\<exists>c \<in> set (snap_connections s). destination_node c = cn_node_id cn \<and> destination_port c = q \<and>
       ib_source b = PortKey (source_node c) (source_port c)" by blast
qed

theorem plans_are_sound_witness:
  "\<exists>r p. compile demo_registry demo_snapshot None = Inr r \<and> cr_plan r = Some p \<and> plan_sound p"
proof -
  obtain r p where "compile demo_registry demo_snapshot None = Inr r" "cr_plan r = Some p"
    using compile_plans [OF demo_registry_ok, of demo_snapshot None] by (auto simp: has_plan_def)
  with plans_are_sound [OF demo_registry_ok this] show ?thesis by blast
qed

text \<open>
  C8. A valid graph is planned whole: when the report has no error, the plan has exactly the nodes of
  the document, and its bindings are exactly the document's connections.
\<close>

theorem valid_graph_planned_whole:
  assumes "registry_ok registry" and "compile registry s roots = Inr r" and "report_is_valid (cr_report r)"
  shows "\<exists>p. cr_plan r = Some p \<and> plan_complete s p"
proof -
  obtain full st where full: "analyze registry s roots = Inr full" "analysis_ok registry s roots full st"
    using analyze_ok [OF assms(1)] by blast
  have "cr_report r = an_report full" using compile_plans [OF assms(1), of s roots] assms(2) full(1) by auto
  then have nil: "an_report full = []" using assms(3) valid_iff [OF full(2)] by simp
  then have valid: "valid_analysis registry s roots full st" using full(2) by (simp add: valid_analysis_def)
  from build_plan_ok [OF assms(1) valid, of s] obtain p where
    p: "build_plan s full = Inr p" "list_all2 (compiled_ok full) (an_order full) (ep_nodes p)" by blast
  then have "cr_plan r = Some p"
    using assms(2) full(1) nil by (auto simp: compile_def planned_def report_is_valid_def report_errors_def)
  with plan_of_valid(2) [OF valid p(2)] show ?thesis by blast
qed

theorem valid_graph_planned_whole_witness:
  "\<exists>r p. compile demo_registry demo_snapshot None = Inr r \<and> cr_plan r = Some p \<and> set (topological_node_ids p) = {1, 2, 3}"
proof -
  obtain full r where r: "analyze demo_registry demo_snapshot None = Inr full" "compile demo_registry demo_snapshot None = Inr r"
    "cr_report r = an_report full" using compile_plans [OF demo_registry_ok, of demo_snapshot None] by blast
  then have "report_is_valid (cr_report r)" using demo_valid by (auto simp: report_is_valid_def report_errors_def)
  from valid_graph_planned_whole [OF demo_registry_ok r(2) this] r(2) show ?thesis
    by (auto simp: plan_complete_def demo_snapshot_def demo_node_def)
qed

text \<open>
  C9. Clocks: a planned node runs on the clock of a source exactly when that source feeds it, along
  the bindings and without another source in between. In particular no node of a plan is fed by
  two sources, and a node no source feeds is static.
\<close>

theorem plan_clocks_are_sources:
  assumes "registry_ok registry" and "compile registry s roots = Inr r" and "cr_plan r = Some p" and "cn \<in> set (ep_nodes p)"
  shows "cn_clock_id cn = Some x \<longleftrightarrow> plan_feeds p x (cn_node_id cn)"
  using assms by (rule planned_clock)

theorem plan_clocks_are_sources_witness: "\<exists>p. (\<exists>r. compile demo_registry demo_snapshot None = Inr r \<and> cr_plan r = Some p) \<and> plan_feeds p 1 3"
proof -
  obtain r p cn where d: "compile demo_registry demo_snapshot None = Inr r" "cr_plan r = Some p" "cn \<in> set (ep_nodes p)"
    "cn_node_id cn = 3" "cn_clock_id cn = Some 1" using demo_plan by blast
  then have "plan_feeds p 1 3" using plan_clocks_are_sources [OF demo_registry_ok d(1-3), of 1] by simp
  with d show ?thesis by blast
qed

text \<open>
  C10. Demand: a planned node is demanded exactly when a demand root of the plan depends on it.
\<close>

theorem plan_demand_is_upstream:
  assumes "registry_ok registry" and "compile registry s roots = Inr r" and "cr_plan r = Some p" and "cn \<in> set (ep_nodes p)"
  shows "cn_is_demanded cn \<longleftrightarrow> (\<exists>x \<in> ep_demand_roots p. (cn_node_id cn, x) \<in> (plan_edges p)\<^sup>*)"
  using assms by (rule planned_demand)

theorem plan_demand_is_upstream_witness:
  "\<exists>p x. (\<exists>r. compile demo_registry demo_snapshot None = Inr r \<and> cr_plan r = Some p) \<and> x \<in> ep_demand_roots p \<and> (3, x) \<in> (plan_edges p)\<^sup>*"
proof -
  obtain r p cn where d: "compile demo_registry demo_snapshot None = Inr r" "cr_plan r = Some p" "cn \<in> set (ep_nodes p)"
    "cn_node_id cn = 3" "cn_is_demanded cn" using demo_plan by blast
  then have "\<exists>x \<in> ep_demand_roots p. (3, x) \<in> (plan_edges p)\<^sup>*"
    using plan_demand_is_upstream [OF demo_registry_ok d(1-3)] by simp
  with d show ?thesis by blast
qed

text \<open>
  C12. Queries about prospective connections share baselines, and sharing never shows: for a document
  whose connection ids are unique, each query is answered, and its answer is accepted exactly when
  validating the graph with the new connection in place of the occupant of its input reports no
  error that validating the graph without the occupant does not report at the same place.
\<close>

theorem compatibilities_are_direct:
  assumes "registry_ok registry" and "distinct (map conn_id (snap_connections s))"
  shows "\<exists>results. connection_compatibilities uuid5 registry s es = Inr results \<and>
    set (dict_keys results) = set es \<and> (\<forall>e c. dict_get results e = Some c \<longrightarrow> direct_answer uuid5 registry s e c)"
proof -
  have "cache_ok registry s []" "\<forall>e c. dict_get [] e = Some c \<longrightarrow> direct_answer uuid5 registry s e c"
    by (simp_all add: cache_ok_def)
  from queries_ok [OF assms this, of es] obtain results cache where
    "foldM (query_endpoint uuid5 registry s) es ([], []) = Inr (results, cache)" "fst ` set results = set es"
    "\<forall>e c. dict_get results e = Some c \<longrightarrow> direct_answer uuid5 registry s e c" by auto
  then show ?thesis by (simp add: connection_compatibilities_def)
qed

theorem compatibilities_are_direct_witness:
  "\<exists>results. connection_compatibilities (\<lambda>i m. 0) demo_registry demo_snapshot [(1, ''image'', 3, ''image'')] = Inr results \<and>
     dict_keys results \<noteq> []"
proof -
  have "distinct (map conn_id (snap_connections demo_snapshot))" by (simp add: demo_snapshot_def demo_connection_def)
  from compatibilities_are_direct [OF demo_registry_ok this, of "\<lambda>i m. 0" "[(1, ''image'', 3, ''image'')]"]
  show ?thesis by force
qed

end
