(* ===== verification/Scheduler.thy ===== *)
theory Scheduler
  imports ExecutionPlan
begin

text \<open>
  The frame scheduler (\<^verbatim>\<open>runtime/scheduler.py\<close>). A runtime is a mutable object which two
  schedulers may share while a plan is being replaced, so a scheduler maps node identifiers to
  references into a \<open>world\<close>, which holds the state of every runtime and the sequence of lifecycle
  calls made on it. What a runtime does is a parameter, \<open>runtime_ops\<close>; every one of its methods may
  raise. Timing and profiling hooks and the log observe only and are left out.
\<close>

section \<open>Runtimes\<close>

datatype reset_reason =
    PLAN_REPLACED | SOURCE_RESTARTED | SOURCE_ENDED | SEEK | PARAMETER_CHANGED | CLOCK_CHANGED
  | ENGINE_RESTARTED

type_synonym rt_ref = nat

type_synonym port_values = "(port_key, runtime_value) fmap"

type_synonym inputs = "(string, runtime_value) dict"

text \<open>
  What \<open>process\<close> raises: an \<open>ExpectedNodeError\<close> with its code, message and details, or anything
  else.
\<close>

datatype process_error = ExpectedError string message "message option" | OtherError message

text \<open>
  \<open>reset\<close>, \<open>close\<close> and \<open>panic\<close> return the state they leave and whether they raised; a runtime is
  panic-capable when it has a \<open>panic\<close>.
\<close>

record 's runtime_ops =
  ro_create :: "execution_contract \<Rightarrow> uuid \<Rightarrow> message + 's"
  ro_process :: "'s \<Rightarrow> inputs \<Rightarrow> (string, literal) fmap \<Rightarrow> frame_context \<Rightarrow> 's \<times> (process_error + inputs)"
  ro_reset :: "'s \<Rightarrow> reset_reason \<Rightarrow> 's \<times> message option"
  ro_close :: "'s \<Rightarrow> 's \<times> message option"
  ro_panic :: "'s \<Rightarrow> (int \<Rightarrow> 's \<times> message option) option"

datatype runtime_event =
    Created rt_ref | Reset rt_ref reset_reason | Closed rt_ref | Panicked rt_ref int

record 's world =
  next_runtime :: rt_ref
  cells :: "(rt_ref, 's) fmap"
  events :: "runtime_event list"

definition empty_world :: "'s world" where
  "empty_world = \<lparr>next_runtime = 0, cells = fmempty, events = []\<rparr>"

definition world_create :: "'s \<Rightarrow> 's world \<Rightarrow> rt_ref \<times> 's world" where
  "world_create s w = (next_runtime w, w\<lparr>next_runtime := next_runtime w + 1, cells := fmupd (next_runtime w) s (cells w),
     events := events w @ [Created (next_runtime w)]\<rparr>)"

text \<open>A method call on the object behind a reference.\<close>

definition world_call :: "('s \<Rightarrow> 's \<times> message option) \<Rightarrow> runtime_event \<Rightarrow> rt_ref \<Rightarrow> 's world \<Rightarrow> 's world \<times> message option" where
  "world_call f ev r w =
     (case fmlookup (cells w) r of
        None \<Rightarrow> (w, None)
      | Some s \<Rightarrow> (case f s of (s', raised) \<Rightarrow>
          (w\<lparr>cells := fmupd r s' (cells w), events := events w @ [ev]\<rparr>, raised)))"

section \<open>Checking outputs\<close>

text \<open>\<open>type(value).__name__\<close>\<close>

fun runtime_type_name :: "runtime_value \<Rightarrow> string" where
  "runtime_type_name (RImage _) = ''ImageFrame''"
| "runtime_type_name (RChannel _) = ''ChannelFrame''"
| "runtime_type_name (RArray _ _) = ''ValueArray''"
| "runtime_type_name (RFloat _) = ''float''"
| "runtime_type_name (RInt _) = ''int''"
| "runtime_type_name (RBool _) = ''bool''"
| "runtime_type_name (RColor _) = ''ColorValue''"
| "runtime_type_name (RMidi _) = ''MidiStateFrame''"
| "runtime_type_name (RStr _) = ''str''"
| "runtime_type_name NoData = ''NoDataType''"

definition array_item_types :: "port_type \<Rightarrow> port_type set" where
  "array_item_types t = (case t of
       SCALAR_ARRAY \<Rightarrow> {FLOAT, INT_T} | IMAGE_ARRAY \<Rightarrow> {IMAGE} | CHANNEL_ARRAY \<Rightarrow> {CHANNEL} | _ \<Rightarrow> {})"

fun output_type_check :: "port_type \<Rightarrow> runtime_value \<Rightarrow> bool" where
  "output_type_check t (RImage _) = (t = IMAGE)"
| "output_type_check t (RChannel _) = (t = CHANNEL)"
| "output_type_check t (RFloat _) = (t = FLOAT)"
| "output_type_check t (RInt _) = (t = INT_T)"
| "output_type_check t (RBool _) = (t = BOOL)"
| "output_type_check t (RColor _) = (t = COLOR)"
| "output_type_check t (RMidi _) = (t = MIDI_STATE)"
| "output_type_check t (RStr _) = (t = STRING)"
| "output_type_check t (RArray item _) = (item \<in> array_item_types t)"
| "output_type_check t NoData = False"

text \<open>The clocks of the elements of an array.\<close>

definition item_clocks :: "runtime_value list \<Rightarrow> uuid set" where
  "item_clocks vs = Option.these (set (map clock_id_of vs))"

definition clock_message :: "string \<Rightarrow> uuid \<Rightarrow> uuid \<Rightarrow> message" where
  "clock_message p c e = Msg ''Output {} uses clock {}, expected {}'' [ArgStr p, ArgId c, ArgId e]"

definition check_clock :: "string \<Rightarrow> uuid option \<Rightarrow> uuid option \<Rightarrow> message option" where
  "check_clock p expected c =
     (case (expected, c) of
        (Some e, Some c) \<Rightarrow> if c \<noteq> e then Some (clock_message p c e) else None
      | _ \<Rightarrow> None)"

definition check_output :: "(string, port_type) dict \<Rightarrow> uuid option \<Rightarrow> string \<Rightarrow> runtime_value \<Rightarrow> message option" where
  "check_output types expected p v =
     (case dict_get types p of
        None \<Rightarrow> Some (Msg ''Runtime returned unknown output port(s): {}'' [ArgStr p])
      | Some t \<Rightarrow>
          if v = NoData then None
          else if \<not> output_type_check t v
            then Some (Msg ''Output {} expected {}, got {}''
                   [ArgStr p, ArgStr (port_type_value t), ArgStr (runtime_type_name v)])
          else (case v of
              RArray _ vs \<Rightarrow>
                (let clocks = item_clocks vs in
                 if card clocks = 1 then check_clock p expected (Some (the_elem clocks))
                 else if 1 < card clocks
                   then Some (Msg ''Output {} contains values from multiple source clocks'' [ArgStr p])
                 else None)
            | _ \<Rightarrow> check_clock p expected (clock_id_of v)))"

text \<open>The first message of the loop over the outputs.\<close>

fun first_message :: "('a \<Rightarrow> message option) \<Rightarrow> 'a list \<Rightarrow> message option" where
  "first_message f [] = None"
| "first_message f (x # xs) = (case f x of None \<Rightarrow> first_message f xs | Some m \<Rightarrow> Some m)"

definition validate_outputs :: "compiled_node \<Rightarrow> inputs \<Rightarrow> message option" where
  "validate_outputs n outputs =
     (let unknown = sort (filter (\<lambda>p. dict_get (cn_output_types n) p = None) (dict_keys outputs)) in
      if unknown \<noteq> [] then Some (Msg ''Runtime returned unknown output port(s): {}'' [ArgStrs unknown])
      else first_message (\<lambda>(p, v). check_output (cn_output_types n) (cn_clock_id n) p v) outputs)"

section \<open>Live parameters\<close>

text \<open>A coerced control value as the input the runtime sees.\<close>

fun value_of_literal :: "literal \<Rightarrow> runtime_value" where
  "value_of_literal (LFloat f) = RFloat f"
| "value_of_literal (LInt i) = RInt i"
| "value_of_literal (LBool b) = RBool b"
| "value_of_literal (LStr s) = RStr s"
| "value_of_literal (LColor c) = RColor c"
| "value_of_literal _ = NoData"

text \<open>The loop over the connectable parameters; it changes the inputs in place.\<close>

fun overlay_parameters :: "parameter_spec list \<Rightarrow> (string, literal) fmap \<Rightarrow> bool \<Rightarrow> inputs \<Rightarrow>
    ((string, literal) fmap \<times> bool \<times> inputs) res" where
  "overlay_parameters [] values overlaid inputs = Inr (values, overlaid, inputs)"
| "overlay_parameters (p # ps) values overlaid inputs =
     (case dict_get inputs (ps_id p) of
        None \<Rightarrow> overlay_parameters ps values overlaid inputs
      | Some v \<Rightarrow> bind_res (connected_value p v) (\<lambda>c.
          overlay_parameters ps (fmupd (ps_id p) c values) True (dict_set (ps_id p) (value_of_literal c) inputs)))"

definition invalid_parameter :: "message \<Rightarrow> process_error" where
  "invalid_parameter m = (case m of Msg t args \<Rightarrow>
     ExpectedError ''invalid_dynamic_parameter'' (Msg (''Invalid live parameter value: '' @ t) args) None)"

definition parameter_error :: "py_error \<Rightarrow> process_error" where
  "parameter_error e = (case e of
       ValueError m \<Rightarrow> invalid_parameter m
     | TypeError m \<Rightarrow> invalid_parameter m
     | KeyError m \<Rightarrow> OtherError m
     | RuntimeError m \<Rightarrow> OtherError m
     | OverflowError m \<Rightarrow> OtherError m
     | RecursionError \<Rightarrow> OtherError (Msg ''maximum recursion depth exceeded'' []))"

definition effective_parameters :: "compiled_node \<Rightarrow> inputs \<Rightarrow>
    process_error + ((string, literal) fmap \<times> inputs)" where
  "effective_parameters n inputs =
     (case overlay_parameters (connectable_parameter_specs n) (cn_parameters n) False inputs of
        Inl e \<Rightarrow> Inl (parameter_error e)
      | Inr (values, overlaid, inputs) \<Rightarrow>
          if \<not> overlaid then Inr (cn_parameters n, inputs)
          else (case ec_parameter_validator (cn_definition n) of
              None \<Rightarrow> Inr (values, inputs)
            | Some f \<Rightarrow> (case f values of
                  [] \<Rightarrow> Inr (values, inputs)
                | errors \<Rightarrow> Inl (invalid_parameter (join_messages errors)))))"

section \<open>One node of a tick\<close>

definition oversized :: py_error where
  "oversized = OverflowError (Msg ''int too large to convert to float'' [])"

fun convert_input :: "scalar_conversion option \<Rightarrow> runtime_value \<Rightarrow> runtime_value res" where
  "convert_input (Some INT_TO_FLOAT) (RInt i) =
     (case float_of_int i of Some x \<Rightarrow> Inr (RFloat (Fin x)) | None \<Rightarrow> Inl oversized)"
| "convert_input _ v = Inr v"

definition read_port :: "port_values \<Rightarrow> port_key \<Rightarrow> runtime_value" where
  "read_port values k = (case fmlookup values k of Some v \<Rightarrow> v | None \<Rightarrow> NoData)"

definition gather_inputs :: "port_values \<Rightarrow> compiled_node \<Rightarrow> inputs res" where
  "gather_inputs values n =
     foldM (\<lambda>(p, k, conv) inputs. bind_res (convert_input conv (read_port values k)) (\<lambda>v.
       Inr (dict_set p v inputs))) (input_binding_items n) []"

definition outputs_cached :: "port_values \<Rightarrow> compiled_node \<Rightarrow> bool" where
  "outputs_cached values n \<longleftrightarrow>
     cn_output_types n \<noteq> [] \<and> list_all (\<lambda>k. k |\<in>| fmdom values) (output_port_keys n)"

definition contains_no_data :: "compiled_node \<Rightarrow> inputs \<Rightarrow> bool" where
  "contains_no_data n inputs \<longleftrightarrow>
     \<not> ec_handles_no_data (cn_definition n) \<and> list_ex (\<lambda>(p, v). v = NoData) inputs"

definition no_data_outputs :: "compiled_node \<Rightarrow> inputs" where
  "no_data_outputs n = map (\<lambda>(p, t). (p, NoData)) (cn_output_types n)"

text \<open>The implicit conversion of integers at \<open>FLOAT\<close> outputs; an oversized integer raises.\<close>

definition widen_output :: "string \<Rightarrow> inputs \<Rightarrow> inputs res" where
  "widen_output p outputs =
     (case dict_get outputs p of
        Some (RInt i) \<Rightarrow> (case float_of_int i of
            Some x \<Rightarrow> Inr (dict_set p (RFloat (Fin x)) outputs) | None \<Rightarrow> Inl oversized)
      | _ \<Rightarrow> Inr outputs)"

definition widen_outputs :: "compiled_node \<Rightarrow> inputs \<Rightarrow> inputs res" where
  "widen_outputs n outputs = foldM widen_output (float_output_ports n) outputs"

datatype error_details = NoDetails | Details message | Traceback

record node_error =
  ne_node :: uuid
  ne_code :: string
  ne_message :: message
  ne_details :: error_details
  ne_recoverable :: bool
  ne_tick :: int

definition process_node_error :: "uuid \<Rightarrow> frame_context \<Rightarrow> process_error \<Rightarrow> node_error" where
  "process_node_error i ctx e = (case e of
       ExpectedError code m details \<Rightarrow> \<lparr>ne_node = i, ne_code = code, ne_message = m,
         ne_details = (case details of None \<Rightarrow> NoDetails | Some d \<Rightarrow> Details d), ne_recoverable = True,
         ne_tick = tick_index ctx\<rparr>
     | OtherError m \<Rightarrow> \<lparr>ne_node = i, ne_code = ''unexpected_node_error'', ne_message = m,
         ne_details = Traceback, ne_recoverable = False, ne_tick = tick_index ctx\<rparr>)"

definition invalid_output_error :: "uuid \<Rightarrow> frame_context \<Rightarrow> message \<Rightarrow> node_error" where
  "invalid_output_error i ctx m = \<lparr>ne_node = i, ne_code = ''invalid_node_output'', ne_message = m,
     ne_details = NoDetails, ne_recoverable = False, ne_tick = tick_index ctx\<rparr>"

text \<open>What becomes of the mapping a runtime returned.\<close>

definition settle_outputs :: "compiled_node \<Rightarrow> frame_context \<Rightarrow> process_error + inputs \<Rightarrow> node_error + inputs" where
  "settle_outputs n ctx r =
     (case r of
        Inl e \<Rightarrow> Inl (process_node_error (cn_node_id n) ctx e)
      | Inr outputs \<Rightarrow> (case widen_outputs n outputs of
            Inl e \<Rightarrow> Inl (process_node_error (cn_node_id n) ctx (OtherError (Msg ''int too large to convert to float'' [])))
          | Inr outputs \<Rightarrow> (case validate_outputs n outputs of
                Some m \<Rightarrow> Inl (invalid_output_error (cn_node_id n) ctx m)
              | None \<Rightarrow> Inr outputs)))"

text \<open>The body of the \<open>try\<close>: parameters, the call, the checks.\<close>

definition invoke_runtime :: "'s runtime_ops \<Rightarrow> frame_context \<Rightarrow> compiled_node \<Rightarrow> inputs \<Rightarrow> 's \<Rightarrow>
    's \<times> (node_error + inputs)" where
  "invoke_runtime ops ctx n inputs s =
     (case effective_parameters n inputs of
        Inl e \<Rightarrow> (s, settle_outputs n ctx (Inl e))
      | Inr (params, inputs) \<Rightarrow>
          (case ro_process ops s inputs params ctx of (s', r) \<Rightarrow> (s', settle_outputs n ctx r)))"

section \<open>Schedulers and ticks\<close>

record scheduler =
  sc_plan :: execution_plan
  sc_runtimes :: "(uuid, rt_ref) dict"
  sc_borrowed :: "uuid set"
  sc_static_cache :: port_values

record 's tick_state =
  tk_values :: port_values
  tk_errors :: "node_error list"
  tk_invocations :: "(uuid, int) dict"
  tk_cache :: port_values
  tk_world :: "'s world"

definition count_invocation :: "uuid \<Rightarrow> (uuid, int) dict \<Rightarrow> (uuid, int) dict" where
  "count_invocation i d = dict_set i ((case dict_get d i of Some k \<Rightarrow> k | None \<Rightarrow> 0) + 1) d"

definition invoke_node :: "'s runtime_ops \<Rightarrow> scheduler \<Rightarrow> frame_context \<Rightarrow> compiled_node \<Rightarrow> inputs \<Rightarrow> 's tick_state \<Rightarrow>
    's tick_state \<times> (node_error + inputs)" where
  "invoke_node ops sc ctx n inputs t =
     (let t = t\<lparr>tk_invocations := count_invocation (cn_node_id n) (tk_invocations t)\<rparr>;
          found = Option.bind (dict_get (sc_runtimes sc) (cn_node_id n))
            (\<lambda>r. map_option (Pair r) (fmlookup (cells (tk_world t)) r))
      in case found of
           None \<Rightarrow> (t, case effective_parameters n inputs of
               Inl e \<Rightarrow> settle_outputs n ctx (Inl e)
             | Inr _ \<Rightarrow> settle_outputs n ctx (Inl (OtherError (Msg ''{}'' [ArgId (cn_node_id n)]))))
         | Some (r, s) \<Rightarrow> (case invoke_runtime ops ctx n inputs s of (s', result) \<Rightarrow>
             (t\<lparr>tk_world := (tk_world t)\<lparr>cells := fmupd r s' (cells (tk_world t))\<rparr>\<rparr>, result)))"

definition publish_outputs :: "compiled_node \<Rightarrow> inputs \<Rightarrow> port_values \<Rightarrow> port_values" where
  "publish_outputs n outputs values =
     fold (\<lambda>(p, k). fmupd k (case dict_get outputs p of Some v \<Rightarrow> v | None \<Rightarrow> NoData)) (output_port_items n) values"

definition cache_outputs :: "compiled_node \<Rightarrow> port_values \<Rightarrow> port_values \<Rightarrow> port_values" where
  "cache_outputs n values cache =
     fold (\<lambda>(p, k). fmupd k (read_port values k)) (output_port_items n) cache"

definition finish_node :: "compiled_node \<Rightarrow> inputs \<Rightarrow> 's tick_state \<Rightarrow> 's tick_state" where
  "finish_node n outputs t =
     (let values = publish_outputs n outputs (tk_values t) in
      t\<lparr>tk_values := values, tk_cache := (if cn_is_static n then cache_outputs n values (tk_cache t) else tk_cache t)\<rparr>)"

definition node_outputs :: "'s runtime_ops \<Rightarrow> scheduler \<Rightarrow> frame_context \<Rightarrow> compiled_node \<Rightarrow> inputs \<Rightarrow> 's tick_state \<Rightarrow>
    's tick_state \<times> inputs" where
  "node_outputs ops sc ctx n inputs t =
     (if contains_no_data n inputs then (t, no_data_outputs n)
      else case invoke_node ops sc ctx n inputs t of
          (t, Inl e) \<Rightarrow> (t\<lparr>tk_errors := tk_errors t @ [e]\<rparr>, no_data_outputs n)
        | (t, Inr outputs) \<Rightarrow> (t, outputs))"

text \<open>
  One pass of the loop. The conversion of inputs stands before the \<open>try\<close>: what it raises leaves
  the tick.
\<close>

definition run_node :: "'s runtime_ops \<Rightarrow> scheduler \<Rightarrow> frame_context \<Rightarrow> compiled_node \<Rightarrow> 's tick_state \<Rightarrow>
    's tick_state \<times> py_error option" where
  "run_node ops sc ctx n t =
     (if \<not> cn_is_demanded n \<or> outputs_cached (tk_values t) n then (t, None)
      else case gather_inputs (tk_values t) n of
          Inl e \<Rightarrow> (t, Some e)
        | Inr inputs \<Rightarrow> (case node_outputs ops sc ctx n inputs t of (t, outputs) \<Rightarrow>
            (finish_node n outputs t, None)))"

fun run_nodes :: "'s runtime_ops \<Rightarrow> scheduler \<Rightarrow> frame_context \<Rightarrow> compiled_node list \<Rightarrow> 's tick_state \<Rightarrow>
    's tick_state \<times> py_error option" where
  "run_nodes ops sc ctx [] t = (t, None)"
| "run_nodes ops sc ctx (n # ns) t =
     (case run_node ops sc ctx n t of
        (t, Some e) \<Rightarrow> (t, Some e)
      | (t, None) \<Rightarrow> run_nodes ops sc ctx ns t)"

record tick_result =
  tr_values :: port_values
  tr_errors :: "node_error list"
  tr_invocations :: "(uuid, int) dict"

text \<open>\<open>execute_tick\<close>: the static cache and the runtimes keep what a failing tick did to them.\<close>

definition start_tick :: "scheduler \<Rightarrow> port_values \<Rightarrow> 's world \<Rightarrow> 's tick_state" where
  "start_tick sc source_values w = \<lparr>tk_values = sc_static_cache sc ++\<^sub>f source_values, tk_errors = [],
     tk_invocations = [], tk_cache = sc_static_cache sc, tk_world = w\<rparr>"

definition execute_tick :: "'s runtime_ops \<Rightarrow> frame_context \<Rightarrow> port_values \<Rightarrow> scheduler \<Rightarrow> 's world \<Rightarrow>
    scheduler \<times> 's world \<times> tick_result res" where
  "execute_tick ops ctx source_values sc w =
     (case run_nodes ops sc ctx (ep_nodes (sc_plan sc)) (start_tick sc source_values w) of (t, raised) \<Rightarrow>
       (sc\<lparr>sc_static_cache := tk_cache t\<rparr>, tk_world t,
        case raised of
          Some e \<Rightarrow> Inl e
        | None \<Rightarrow> Inr \<lparr>tr_values = tk_values t, tr_errors = tk_errors t, tr_invocations = tk_invocations t\<rparr>))"

section \<open>Life cycle\<close>

definition close_runtime :: "'s runtime_ops \<Rightarrow> rt_ref \<Rightarrow> 's world \<Rightarrow> 's world" where
  "close_runtime ops r w = fst (world_call (ro_close ops) (Closed r) r w)"

text \<open>\<open>cancel_prepared\<close>: runtimes the scheduler created itself are closed, in order.\<close>

definition cleared :: "scheduler \<Rightarrow> scheduler" where
  "cleared sc = sc\<lparr>sc_runtimes := [], sc_borrowed := {}, sc_static_cache := fmempty\<rparr>"

definition cancel_prepared :: "'s runtime_ops \<Rightarrow> scheduler \<Rightarrow> 's world \<Rightarrow> scheduler \<times> 's world" where
  "cancel_prepared ops sc w =
     (cleared sc, fold (\<lambda>(i, r) w. if i \<in> sc_borrowed sc then w else close_runtime ops r w) (sc_runtimes sc) w)"

text \<open>\<open>__init__\<close>: reusable runtimes are borrowed, the others created; a failing factory disposes
  of what was created.\<close>

fun adopt_runtimes :: "'s runtime_ops \<Rightarrow> (uuid, rt_ref) dict \<Rightarrow> compiled_node list \<Rightarrow> scheduler \<Rightarrow> 's world \<Rightarrow>
    scheduler \<times> 's world \<times> message option" where
  "adopt_runtimes ops reusable [] sc w = (sc, w, None)"
| "adopt_runtimes ops reusable (n # ns) sc w =
     (case dict_get reusable (cn_node_id n) of
        Some r \<Rightarrow> adopt_runtimes ops reusable ns
          (sc\<lparr>sc_borrowed := insert (cn_node_id n) (sc_borrowed sc),
              sc_runtimes := dict_set (cn_node_id n) r (sc_runtimes sc)\<rparr>) w
      | None \<Rightarrow> (case ro_create ops (cn_definition n) (cn_node_id n) of
            Inl m \<Rightarrow> (sc, w, Some m)
          | Inr s \<Rightarrow> (case world_create s w of (r, w) \<Rightarrow>
              adopt_runtimes ops reusable ns (sc\<lparr>sc_runtimes := dict_set (cn_node_id n) r (sc_runtimes sc)\<rparr>) w)))"

definition scheduler_init :: "'s runtime_ops \<Rightarrow> execution_plan \<Rightarrow> (uuid, rt_ref) dict \<Rightarrow> 's world \<Rightarrow>
    (message + scheduler) \<times> 's world" where
  "scheduler_init ops plan reusable w =
     (case adopt_runtimes ops reusable (ep_nodes plan)
        \<lparr>sc_plan = plan, sc_runtimes = [], sc_borrowed = {}, sc_static_cache = fmempty\<rparr> w of
        (sc, w, None) \<Rightarrow> (Inr sc, w)
      | (sc, w, Some m) \<Rightarrow> (Inl m, snd (cancel_prepared ops sc w)))"

text \<open>
  \<open>prepare_replacement\<close>: state is kept by the nodes whose retention key is unchanged and whose
  clock is not that of a replaced source. The dictionary of the previous nodes keeps the last of
  equal identifiers.
\<close>

definition previous_nodes :: "scheduler \<Rightarrow> (uuid, compiled_node) dict" where
  "previous_nodes prev = fold (\<lambda>n. dict_set (cn_node_id n) n) (ep_nodes (sc_plan prev)) []"

definition same_retention :: "compiled_node \<Rightarrow> compiled_node \<Rightarrow> bool res" where
  "same_retention old n =
     bind_res (state_retention_key old) (\<lambda>a. bind_res (state_retention_key n) (\<lambda>b. Inr (retention_eq a b)))"

definition source_invalidated :: "(uuid, compiled_node) dict \<Rightarrow> compiled_node \<Rightarrow> bool res" where
  "source_invalidated previous n =
     (if ec_kind (cn_definition n) \<noteq> SOURCE then Inr False
      else case dict_get previous (cn_node_id n) of
          None \<Rightarrow> Inr True
        | Some old \<Rightarrow> bind_res (same_retention old n) (\<lambda>same. Inr (\<not> same)))"

definition invalidated_clocks :: "(uuid, compiled_node) dict \<Rightarrow> compiled_node list \<Rightarrow> uuid option set res" where
  "invalidated_clocks previous ns =
     foldM (\<lambda>n clocks. bind_res (source_invalidated previous n) (\<lambda>gone.
       Inr (if gone then insert (cn_clock_id n) clocks else clocks))) ns {}"

definition reuse_node :: "scheduler \<Rightarrow> (uuid, compiled_node) dict \<Rightarrow> uuid option set \<Rightarrow> compiled_node \<Rightarrow>
    (uuid, rt_ref) dict \<Rightarrow> (uuid, rt_ref) dict res" where
  "reuse_node prev previous invalidated n reusable =
     (case dict_get previous (cn_node_id n) of
        None \<Rightarrow> Inr reusable
      | Some old \<Rightarrow> bind_res (same_retention old n) (\<lambda>same.
          Inr (if same \<and> cn_clock_id n \<notin> invalidated then
                 (case dict_get (sc_runtimes prev) (cn_node_id n) of
                    Some r \<Rightarrow> dict_set (cn_node_id n) r reusable
                  | None \<Rightarrow> reusable)
               else reusable)))"

definition reusable_runtimes :: "execution_plan \<Rightarrow> scheduler option \<Rightarrow> bool \<Rightarrow> (uuid, rt_ref) dict res" where
  "reusable_runtimes plan previous preserve_state =
     (case previous of
        None \<Rightarrow> Inr []
      | Some prev \<Rightarrow>
          if \<not> preserve_state then Inr []
          else bind_res (invalidated_clocks (previous_nodes prev) (ep_nodes plan)) (\<lambda>invalidated.
            foldM (reuse_node prev (previous_nodes prev) invalidated) (ep_nodes plan) []))"

definition prepare_replacement :: "'s runtime_ops \<Rightarrow> execution_plan \<Rightarrow> scheduler option \<Rightarrow> bool \<Rightarrow> 's world \<Rightarrow>
    (message + scheduler) res \<times> 's world" where
  "prepare_replacement ops plan previous preserve_state w =
     (case reusable_runtimes plan previous preserve_state of
        Inl e \<Rightarrow> (Inl e, w)
      | Inr reusable \<Rightarrow> (case scheduler_init ops plan reusable w of (r, w) \<Rightarrow> (Inr r, w)))"

text \<open>\<open>claim_borrowed_runtimes\<close>: nothing changes unless every borrowed runtime is still there.\<close>

definition claim_borrowed_runtimes :: "scheduler \<Rightarrow> scheduler \<Rightarrow> (scheduler \<times> scheduler) res" where
  "claim_borrowed_runtimes sc prev =
     (if \<exists>i \<in> sc_borrowed sc. dict_get (sc_runtimes prev) i \<noteq> dict_get (sc_runtimes sc) i
      then Inl (RuntimeError (Msg ''Prepared runtime no longer matches the active plan'' []))
      else Inr (sc\<lparr>sc_borrowed := {}\<rparr>,
        prev\<lparr>sc_runtimes := filter (\<lambda>(i, r). i \<notin> sc_borrowed sc) (sc_runtimes prev)\<rparr>))"

definition close_with :: "'s runtime_ops \<Rightarrow> reset_reason option \<Rightarrow> rt_ref \<Rightarrow> 's world \<Rightarrow> 's world" where
  "close_with ops reason r w = close_runtime ops r
     (case reason of None \<Rightarrow> w | Some x \<Rightarrow> fst (world_call (\<lambda>s. ro_reset ops s x) (Reset r x) r w))"

definition close_scheduler :: "'s runtime_ops \<Rightarrow> reset_reason option \<Rightarrow> scheduler \<Rightarrow> 's world \<Rightarrow> scheduler \<times> 's world" where
  "close_scheduler ops reason sc w =
     (cleared sc, fold (\<lambda>(i, r). close_with ops reason r) (sc_runtimes sc) w)"

text \<open>Loops of calls without a handler: the first exception ends them.\<close>

fun call_all :: "(rt_ref \<Rightarrow> 's world \<Rightarrow> 's world \<times> message option) \<Rightarrow> rt_ref list \<Rightarrow> 's world \<Rightarrow> 's world \<times> message option" where
  "call_all f [] w = (w, None)"
| "call_all f (r # rs) w = (case f r w of (w, Some m) \<Rightarrow> (w, Some m) | (w, None) \<Rightarrow> call_all f rs w)"

definition owns_state :: "execution_kind \<Rightarrow> bool" where
  "owns_state k \<longleftrightarrow> k \<in> {SOURCE, STATEFUL, SINK, VISUALIZER}"

definition reset_source :: "'s runtime_ops \<Rightarrow> uuid \<Rightarrow> reset_reason \<Rightarrow> scheduler \<Rightarrow> 's world \<Rightarrow> 's world \<times> message option" where
  "reset_source ops clock reason sc w =
     call_all (\<lambda>i w. case dict_get (sc_runtimes sc) i of
         None \<Rightarrow> (w, Some (Msg ''{}'' [ArgId i]))
       | Some r \<Rightarrow> world_call (\<lambda>s. ro_reset ops s reason) (Reset r reason) r w)
       (map cn_node_id (filter (\<lambda>n. cn_clock_id n = Some clock \<and> owns_state (ec_kind (cn_definition n)))
          (ep_nodes (sc_plan sc)))) w"

definition reset_all :: "'s runtime_ops \<Rightarrow> reset_reason \<Rightarrow> scheduler \<Rightarrow> 's world \<Rightarrow> scheduler \<times> 's world \<times> message option" where
  "reset_all ops reason sc w =
     (case call_all (\<lambda>r. world_call (\<lambda>s. ro_reset ops s reason) (Reset r reason) r) (map snd (sc_runtimes sc)) w of
        (w, Some m) \<Rightarrow> (sc, w, Some m)
      | (w, None) \<Rightarrow> (sc\<lparr>sc_static_cache := fmempty\<rparr>, w, None))"

definition panic_runtime :: "'s runtime_ops \<Rightarrow> int \<Rightarrow> rt_ref \<Rightarrow> 's world \<Rightarrow> 's world \<times> message option" where
  "panic_runtime ops generation r w =
     (case fmlookup (cells w) r of
        None \<Rightarrow> (w, None)
      | Some s \<Rightarrow> (case ro_panic ops s of
            None \<Rightarrow> (w, None)
          | Some f \<Rightarrow> world_call (\<lambda>_. f generation) (Panicked r generation) r w))"

definition panic_scheduler :: "'s runtime_ops \<Rightarrow> int \<Rightarrow> scheduler \<Rightarrow> 's world \<Rightarrow> 's world \<times> message option" where
  "panic_scheduler ops generation sc w = call_all (panic_runtime ops generation) (map snd (sc_runtimes sc)) w"

end
