(* ===== verification/SchedulerFacts.thy ===== *)
theory SchedulerFacts
  imports Scheduler CompilerPlans
begin

text \<open>
  What a tick does, for any behaviour of the runtimes: the values it publishes are typed and
  complete, they solve the equations of the plan, exceptions leave a tick only through an
  oversized integer, and the static cache never shows.
\<close>

section \<open>Typed values\<close>

definition value_clocks :: "runtime_value \<Rightarrow> uuid set" where
  "value_clocks v = (case v of RArray t vs \<Rightarrow> item_clocks vs | _ \<Rightarrow> set_option (clock_id_of v))"

definition clock_fits :: "uuid option \<Rightarrow> runtime_value \<Rightarrow> bool" where
  "clock_fits expected v \<longleftrightarrow> (case expected of None \<Rightarrow> \<exists>c. value_clocks v \<subseteq> {c} | Some c \<Rightarrow> value_clocks v \<subseteq> {c})"

definition value_settled :: "compiled_node \<Rightarrow> string \<Rightarrow> runtime_value \<Rightarrow> bool" where
  "value_settled n p v \<longleftrightarrow> v = NoData \<or>
     (\<exists>t. dict_get (cn_output_types n) p = Some t \<and> output_type_check t v \<and> clock_fits (cn_clock_id n) v)"

text \<open>Every value filed under a declared output has the settled type and the clock of its node.\<close>

definition values_typed :: "compiled_node list \<Rightarrow> port_values \<Rightarrow> bool" where
  "values_typed ns values \<longleftrightarrow> (\<forall>n \<in> set ns. \<forall>p v. dict_get (cn_output_types n) p \<noteq> None \<longrightarrow>
     fmlookup values (PortKey (cn_node_id n) p) = Some v \<longrightarrow> value_settled n p v)"

text \<open>What an input accepts: its type, or an element where an array is expected.\<close>

definition fits_input :: "port_type \<Rightarrow> runtime_value \<Rightarrow> bool" where
  "fits_input t v \<longleftrightarrow> v = NoData \<or> (\<exists>t' \<in> insert t (array_item_types t). output_type_check t' v)"

lemma finite_item_clocks [simp]: "finite (item_clocks vs)"
  by (simp add: item_clocks_def Option.these_def)

lemma check_output_None:
  assumes "check_output types expected p v = None" and "v \<noteq> NoData"
  shows "\<exists>t. dict_get types p = Some t \<and> output_type_check t v \<and> clock_fits expected v"
proof -
  obtain t where t: "dict_get types p = Some t" "output_type_check t v"
    using assms by (auto simp: check_output_def split: option.splits if_splits)
  have "clock_fits expected v"
  proof (cases v)
    case (RArray item vs)
    then consider "card (item_clocks vs) = 1" "check_clock p expected (Some (the_elem (item_clocks vs))) = None"
      | "\<not> 1 \<le> card (item_clocks vs)"
      using assms(1) t by (fastforce simp: check_output_def Let_def split: if_splits)
    then show ?thesis
    proof cases
      case 1
      then obtain c where "item_clocks vs = {c}" by (auto simp: card_1_singleton_iff)
      with 1(2) show ?thesis
        by (auto simp: RArray clock_fits_def value_clocks_def check_clock_def split: option.splits if_splits)
    next
      case 2
      then have "item_clocks vs = {}" by (simp add: not_less_eq_eq)
      then show ?thesis by (simp add: RArray clock_fits_def value_clocks_def split: option.split)
    qed
  qed (use assms(1) t in \<open>auto simp: check_output_def clock_fits_def value_clocks_def check_clock_def
      split: option.splits if_splits\<close>)
  with t show ?thesis by blast
qed

lemma first_message_None: "first_message f xs = None \<longleftrightarrow> (\<forall>x \<in> set xs. f x = None)"
  by (induction xs) (auto split: option.split)

lemma validated_settled:
  assumes "validate_outputs n outputs = None" and "dict_get outputs p = Some v"
  shows "value_settled n p v"
proof -
  have "(p, v) \<in> set outputs" using assms(2) by (rule map_of_SomeD)
  with assms(1) have "check_output (cn_output_types n) (cn_clock_id n) p v = None"
    by (auto simp: validate_outputs_def Let_def first_message_None split: if_splits)
  then show ?thesis using check_output_None unfolding value_settled_def by blast
qed

lemma settle_settled:
  assumes "settle_outputs n ctx r = Inr outputs" and "dict_get outputs p = Some v"
  shows "value_settled n p v"
  using assms validated_settled by (auto simp: settle_outputs_def split: sum.splits option.splits)

lemma no_data_outputs_get: "dict_get (no_data_outputs n) p = Some v \<Longrightarrow> v = NoData"
  by (auto simp: no_data_outputs_def dest!: map_of_SomeD)

lemma node_outputs_settled:
  assumes "node_outputs ops sc ctx n inputs t = (t', outputs)" and "dict_get outputs p = Some v"
  shows "value_settled n p v"
proof (cases "outputs = no_data_outputs n")
  case True
  with assms(2) show ?thesis using no_data_outputs_get by (auto simp: value_settled_def)
next
  case False
  then obtain r where "settle_outputs n ctx r = Inr outputs"
    using assms(1)
    by (auto simp: node_outputs_def invoke_node_def invoke_runtime_def Let_def
        split: if_splits prod.splits sum.splits option.splits)
  then show ?thesis using assms(2) by (rule settle_settled)
qed

section \<open>Publishing\<close>

lemma fold_fmupd_keys:
  assumes "\<forall>(p, k) \<in> set items. f p k = g k"
  shows "fmlookup (fold (\<lambda>(p, k). fmupd k (f p k)) items m) key =
    (if key \<in> snd ` set items then Some (g key) else fmlookup m key)"
  using assms by (induction items arbitrary: m) auto

definition answer_of :: "inputs \<Rightarrow> string \<Rightarrow> runtime_value" where
  "answer_of outputs p = (case dict_get outputs p of Some v \<Rightarrow> v | None \<Rightarrow> NoData)"

text \<open>The keys a node publishes.\<close>

definition own_key :: "compiled_node \<Rightarrow> port_key \<Rightarrow> bool" where
  "own_key n k \<longleftrightarrow> pk_node k = cn_node_id n \<and> dict_get (cn_output_types n) (pk_port k) \<noteq> None"

lemma output_port_items_iff: "(p, k) \<in> set (output_port_items n) \<longleftrightarrow> own_key n k \<and> p = pk_port k"
proof -
  have "(p, k) \<in> set (output_port_items n) \<longleftrightarrow> k = PortKey (cn_node_id n) p \<and> p \<in> fst ` set (cn_output_types n)"
    unfolding output_port_items_def by auto
  then show ?thesis unfolding own_key_def dict_get_None_iff by (cases k) auto
qed

lemma output_port_keys_iff: "k \<in> set (output_port_keys n) \<longleftrightarrow> own_key n k"
  by (simp add: output_port_keys_def image_iff Bex_def output_port_items_iff)

lemma publish_lookup:
  "fmlookup (publish_outputs n outputs values) k =
    (if own_key n k then Some (answer_of outputs (pk_port k)) else fmlookup values k)"
proof -
  have "\<forall>(p, k) \<in> set (output_port_items n). answer_of outputs p = answer_of outputs (pk_port k)"
    by (auto simp: output_port_items_iff)
  from fold_fmupd_keys [OF this] show ?thesis
    by (simp add: publish_outputs_def answer_of_def output_port_keys_iff [unfolded output_port_keys_def list.set_map])
qed

lemma cache_outputs_lookup:
  "fmlookup (cache_outputs n values cache) k =
    (if own_key n k then Some (read_port values k) else fmlookup cache k)"
  using fold_fmupd_keys [of "output_port_items n" "\<lambda>p. read_port values" "read_port values"]
  by (simp add: cache_outputs_def output_port_keys_iff [unfolded output_port_keys_def list.set_map])

lemma node_outputs_keeps:
  assumes "node_outputs ops sc ctx n inputs t = (t', outputs)"
  shows "tk_values t' = tk_values t" and "tk_cache t' = tk_cache t"
  using assms by (auto simp: node_outputs_def invoke_node_def Let_def split: if_splits prod.splits sum.splits option.splits)

lemma finish_node_simps [simp]:
  "tk_values (finish_node n outputs t) = publish_outputs n outputs (tk_values t)"
  "tk_cache (finish_node n outputs t) =
     (if cn_is_static n then cache_outputs n (publish_outputs n outputs (tk_values t)) (tk_cache t) else tk_cache t)"
  "tk_world (finish_node n outputs t) = tk_world t"
  "tk_errors (finish_node n outputs t) = tk_errors t"
  "tk_invocations (finish_node n outputs t) = tk_invocations t"
  by (simp_all add: finish_node_def Let_def)

section \<open>Reading inputs\<close>

abbreviation read_binding :: "port_values \<Rightarrow> input_binding \<Rightarrow> runtime_value res" where
  "read_binding values b \<equiv> convert_input (ib_conversion b) (read_port values (ib_source b))"

lemma gather_step:
  "gather_inputs values n = foldM (\<lambda>(q, b) inputs. bind_res (read_binding values b) (\<lambda>v. Inr (dict_set q v inputs)))
     (cn_input_bindings n) []"
proof -
  have "foldM (\<lambda>(p, k, conv) inputs. bind_res (convert_input conv (read_port values k)) (\<lambda>v. Inr (dict_set p v inputs)))
      (map (\<lambda>(p, b). (p, ib_source b, ib_conversion b)) bs) acc =
    foldM (\<lambda>(q, b) inputs. bind_res (read_binding values b) (\<lambda>v. Inr (dict_set q v inputs))) bs acc" for bs acc
    by (induction bs arbitrary: acc) (auto simp: bind_res_def split: sum.split)
  then show ?thesis by (simp add: gather_inputs_def input_binding_items_def)
qed

lemma gather_get:
  assumes "gather_inputs values n = Inr inputs" and "dict_ok (cn_input_bindings n)"
  shows "rel_option (\<lambda>b v. read_binding values b = Inr v) (dict_get (cn_input_bindings n) q) (dict_get inputs q)"
proof -
  have "foldM (\<lambda>(q, b) inputs. bind_res (read_binding values b) (\<lambda>v. Inr (dict_set q v inputs))) bs acc = Inr inputs \<Longrightarrow>
      distinct (map fst bs) \<Longrightarrow> (case dict_get bs q of None \<Rightarrow> dict_get inputs q = dict_get acc q
        | Some b \<Rightarrow> \<exists>v. dict_get inputs q = Some v \<and> read_binding values b = Inr v)" for bs acc
  proof (induction bs arbitrary: acc)
    case (Cons x bs)
    obtain q' b where x: "x = (q', b)" by (cases x)
    with Cons.prems(1) obtain v where v: "read_binding values b = Inr v"
      and r: "foldM (\<lambda>(q, b) inputs. bind_res (read_binding values b) (\<lambda>v. Inr (dict_set q v inputs))) bs
        (dict_set q' v acc) = Inr inputs"
      by (auto simp: bind_res_eq_Inr)
    from Cons.prems(2) have q': "dict_get bs q' = None" "distinct (map fst bs)" by (simp_all add: x dict_get_None_iff)
    from Cons.IH [OF r q'(2)] q' v show ?case
      by (cases "q = q'"; cases "dict_get bs q") (auto simp: x simp del: map_of_eq_Some_iff)
  qed simp
  from this [of "cn_input_bindings n" "[]"] assms show ?thesis
    by (auto simp: gather_step dict_ok_def split: option.splits)
qed

lemma gather_raises:
  assumes "gather_inputs values n = Inl e"
  shows "\<exists>q b. (q, b) \<in> set (cn_input_bindings n) \<and> read_binding values b = Inl e"
proof -
  have "foldM (\<lambda>(q, b) inputs. bind_res (read_binding values b) (\<lambda>v. Inr (dict_set q v inputs))) bs acc = Inl e \<Longrightarrow>
      \<exists>q b. (q, b) \<in> set bs \<and> read_binding values b = Inl e" for bs acc
  proof (induction bs arbitrary: acc)
    case (Cons x bs)
    obtain q b where x: "x = (q, b)" by (cases x)
    show ?case
    proof (cases "read_binding values b")
      case (Inl e')
      with Cons.prems show ?thesis by (auto simp: x)
    next
      case (Inr v)
      with Cons.prems Cons.IH [of "dict_set q v acc"] show ?thesis by (auto simp: x)
    qed
  qed simp
  with assms show ?thesis by (simp add: gather_step)
qed

lemma gather_cong:
  assumes "\<And>q b. (q, b) \<in> set (cn_input_bindings n) \<Longrightarrow> read_port values (ib_source b) = read_port values' (ib_source b)"
  shows "gather_inputs values n = gather_inputs values' n"
proof -
  have "foldM (\<lambda>(q, b) inputs. bind_res (read_binding values b) (\<lambda>v. Inr (dict_set q v inputs))) bs acc =
      foldM (\<lambda>(q, b) inputs. bind_res (read_binding values' b) (\<lambda>v. Inr (dict_set q v inputs))) bs acc"
    if "set bs \<subseteq> set (cn_input_bindings n)" for bs acc
    using that
  proof (induction bs arbitrary: acc)
    case (Cons x bs)
    obtain q b where x: "x = (q, b)" by (cases x)
    with Cons.prems assms [of q b] have "read_binding values b = read_binding values' b" by simp
    with Cons show ?case by (cases "read_binding values' b") (simp_all add: x)
  qed simp
  then show ?thesis unfolding gather_step by blast
qed

lemma convert_input_raises: "convert_input conv v = Inl e \<Longrightarrow>
    e = oversized \<and> conv = Some INT_TO_FLOAT \<and> (\<exists>i. v = RInt i \<and> float_of_int i = None)"
  by (induction conv v rule: convert_input.induct) (auto split: option.splits)

section \<open>One pass of the loop\<close>

definition due :: "port_values \<Rightarrow> compiled_node \<Rightarrow> bool" where
  "due values n \<longleftrightarrow> cn_is_demanded n \<and> \<not> outputs_cached values n"

lemma outputs_cached_iff:
  "outputs_cached values n \<longleftrightarrow> cn_output_types n \<noteq> [] \<and> (\<forall>k. own_key n k \<longrightarrow> k |\<in>| fmdom values)"
  by (auto simp: outputs_cached_def list_all_iff output_port_keys_iff)

lemma run_node_cases [consumes 1, case_names skip raises runs]:
  assumes "run_node ops sc ctx n t = (t', raised)"
  obtains "\<not> due (tk_values t) n" "t' = t" "raised = None"
  | e where "due (tk_values t) n" "gather_inputs (tk_values t) n = Inl e" "t' = t" "raised = Some e"
  | inputs u outputs where "due (tk_values t) n" "gather_inputs (tk_values t) n = Inr inputs"
      "node_outputs ops sc ctx n inputs t = (u, outputs)" "t' = finish_node n outputs u" "raised = None"
      "tk_values u = tk_values t" "tk_cache u = tk_cache t"
proof (cases "due (tk_values t) n")
  case False
  then have skip: "\<not> cn_is_demanded n \<or> outputs_cached (tk_values t) n" by (simp add: due_def)
  have "t' = t" "raised = None" using assms unfolding run_node_def if_P [OF skip] by simp_all
  with False show ?thesis by (rule that(1))
next
  case due: True
  then have run: "\<not> (\<not> cn_is_demanded n \<or> outputs_cached (tk_values t) n)" by (simp add: due_def)
  show ?thesis
  proof (cases "gather_inputs (tk_values t) n")
    case (Inl e)
    have "t' = t" "raised = Some e" using assms unfolding run_node_def if_not_P [OF run] Inl by simp_all
    with due Inl show ?thesis by (rule that(2))
  next
    case (Inr inputs)
    obtain u outputs where u: "node_outputs ops sc ctx n inputs t = (u, outputs)" by fastforce
    have "t' = finish_node n outputs u" "raised = None"
      using assms unfolding run_node_def if_not_P [OF run] Inr by (simp_all add: u)
    then show ?thesis by (rule that(3) [OF due Inr u _ _ node_outputs_keeps [OF u]])
  qed
qed

lemma run_nodes_induct [consumes 1, case_names Nil Raise Step]:
  assumes "run_nodes ops sc ctx ns t = (t', raised)"
    and "\<And>t. P [] t t None"
    and "\<And>n ns t u e. run_node ops sc ctx n t = (u, Some e) \<Longrightarrow> P (n # ns) t u (Some e)"
    and "\<And>n ns t u t' raised. run_node ops sc ctx n t = (u, None) \<Longrightarrow> run_nodes ops sc ctx ns u = (t', raised) \<Longrightarrow>
      P ns u t' raised \<Longrightarrow> P (n # ns) t t' raised"
  shows "P ns t t' raised"
  using assms(1)
proof (induction ns arbitrary: t)
  case Nil
  then show ?case using assms(2) by simp
next
  case (Cons n ns)
  then show ?case using assms(3,4) by (auto split: prod.splits option.splits)
qed

lemma run_node_raises:
  assumes "run_node ops sc ctx n t = (t', Some e)"
  shows "e = oversized \<and> due (tk_values t) n \<and> t' = t \<and> (\<exists>q b i. (q, b) \<in> set (cn_input_bindings n) \<and>
     ib_conversion b = Some INT_TO_FLOAT \<and> read_port (tk_values t) (ib_source b) = RInt i \<and> float_of_int i = None)"
  using assms
proof (cases rule: run_node_cases)
  case (raises e')
  then obtain q b where "(q, b) \<in> set (cn_input_bindings n)" "read_binding (tk_values t) b = Inl e"
    using gather_raises by blast
  with raises convert_input_raises show ?thesis by blast
qed auto

lemma run_node_keeps:
  assumes "run_node ops sc ctx n t = (t', raised)" and "\<not> own_key n k"
  shows "fmlookup (tk_values t') k = fmlookup (tk_values t) k \<and> fmlookup (tk_cache t') k = fmlookup (tk_cache t) k"
  using assms by (cases rule: run_node_cases) (auto simp: publish_lookup cache_outputs_lookup)

lemma run_node_present:
  assumes "run_node ops sc ctx n t = (t', None)"
  shows "fmdom (tk_values t) |\<subseteq>| fmdom (tk_values t')"
    and "cn_is_demanded n \<Longrightarrow> own_key n k \<Longrightarrow> k |\<in>| fmdom (tk_values t')"
proof -
  show "fmdom (tk_values t) |\<subseteq>| fmdom (tk_values t')"
    using assms by (cases rule: run_node_cases) (auto simp: publish_lookup fmlookup_dom_iff split: if_splits)
  show "cn_is_demanded n \<Longrightarrow> own_key n k \<Longrightarrow> k |\<in>| fmdom (tk_values t')"
    using assms
  proof (cases rule: run_node_cases)
    case skip
    assume "cn_is_demanded n" "own_key n k"
    moreover have "cn_output_types n \<noteq> []" using \<open>own_key n k\<close> by (auto simp: own_key_def)
    ultimately show ?thesis using skip by (simp add: due_def outputs_cached_iff)
  qed (simp_all add: publish_lookup fmlookup_dom_iff)
qed

lemma run_nodes_keeps:
  assumes "run_nodes ops sc ctx ns t = (t', raised)" and "\<forall>n \<in> set ns. \<not> own_key n k"
  shows "fmlookup (tk_values t') k = fmlookup (tk_values t) k \<and> fmlookup (tk_cache t') k = fmlookup (tk_cache t) k"
  using assms by (induction rule: run_nodes_induct) (auto dest: run_node_keeps)

lemma run_nodes_present:
  assumes "run_nodes ops sc ctx ns t = (t', None)"
  shows "fmdom (tk_values t) |\<subseteq>| fmdom (tk_values t') \<and>
    (\<forall>n \<in> set ns. cn_is_demanded n \<longrightarrow> (\<forall>k. own_key n k \<longrightarrow> k |\<in>| fmdom (tk_values t')))"
proof -
  have "raised = None \<longrightarrow> fmdom (tk_values t) |\<subseteq>| fmdom (tk_values t') \<and>
    (\<forall>n \<in> set ns. cn_is_demanded n \<longrightarrow> (\<forall>k. own_key n k \<longrightarrow> k |\<in>| fmdom (tk_values t')))"
    if "run_nodes ops sc ctx ns t = (t', raised)" for raised
    using that
  proof (induction rule: run_nodes_induct)
    case (Step n ns t u t' raised)
    with run_node_present [OF Step(1)] show ?case by (auto dest: fsubsetD)
  qed auto
  with assms show ?thesis by blast
qed

lemma run_node_typed:
  assumes "run_node ops sc ctx n t = (t', raised)" and "distinct (map cn_node_id ns)" and "n \<in> set ns"
    and "values_typed ns (tk_values t)" and "values_typed ns (tk_cache t)"
  shows "values_typed ns (tk_values t') \<and> values_typed ns (tk_cache t')"
  using assms(1)
proof (cases rule: run_node_cases)
  case (runs inputs u outputs)
  have own: "m = n" if "m \<in> set ns" "cn_node_id m = cn_node_id n" for m
    using assms(2,3) that by (auto simp: distinct_map inj_on_def)
  have settled: "value_settled n p (answer_of outputs p)" for p
    using node_outputs_settled [OF runs(3), of p]
    by (cases "dict_get outputs p") (auto simp: answer_of_def value_settled_def)
  have vals: "values_typed ns (tk_values t')"
    unfolding values_typed_def
  proof (intro ballI allI impI)
    fix m p v assume m: "m \<in> set ns" "dict_get (cn_output_types m) p \<noteq> None"
      "fmlookup (tk_values t') (PortKey (cn_node_id m) p) = Some v"
    show "value_settled m p v"
    proof (cases "cn_node_id m = cn_node_id n")
      case True
      then have mn: "m = n" using own m(1) by blast
      then show ?thesis using m(2,3) settled [of p] by (simp add: runs(4) publish_lookup own_key_def)
    next
      case False
      with m assms(4) show ?thesis by (auto simp: runs(4,6) publish_lookup own_key_def values_typed_def)
    qed
  qed
  have "values_typed ns (tk_cache t')"
    unfolding values_typed_def
  proof (intro ballI allI impI)
    fix m p v assume m: "m \<in> set ns" "dict_get (cn_output_types m) p \<noteq> None"
      "fmlookup (tk_cache t') (PortKey (cn_node_id m) p) = Some v"
    show "value_settled m p v"
    proof (cases "cn_node_id m = cn_node_id n \<and> cn_is_static n")
      case True
      then have mn: "m = n" using own m(1) by blast
      then show ?thesis using True m(2,3) settled [of p]
        by (simp add: runs(4) cache_outputs_lookup read_port_def publish_lookup own_key_def)
    next
      case False
      with m assms(5) show ?thesis
        by (auto simp: runs(4,7) cache_outputs_lookup own_key_def values_typed_def split: if_splits)
    qed
  qed
  with vals show ?thesis by blast
qed (use assms in auto)

lemma run_nodes_typed:
  assumes "run_nodes ops sc ctx ms t = (t', raised)" and "distinct (map cn_node_id ns)" and "set ms \<subseteq> set ns"
    and "values_typed ns (tk_values t)" and "values_typed ns (tk_cache t)"
  shows "values_typed ns (tk_values t') \<and> values_typed ns (tk_cache t')"
  using assms(1,3-5)
proof (induction rule: run_nodes_induct)
  case (Raise n ms t u e)
  with run_node_typed [OF Raise(1) assms(2)] show ?case by simp
next
  case (Step n ms t u t' raised)
  with run_node_typed [OF Step(1) assms(2)] show ?case by simp
qed simp

section \<open>The equations of a plan\<close>

definition runtime_at :: "scheduler \<Rightarrow> 's world \<Rightarrow> compiled_node \<Rightarrow> 's option" where
  "runtime_at sc w n = Option.bind (dict_get (sc_runtimes sc) (cn_node_id n)) (fmlookup (cells w))"

text \<open>Every node of the plan has a runtime of its own.\<close>

definition scheduler_ok :: "scheduler \<Rightarrow> 's world \<Rightarrow> bool" where
  "scheduler_ok sc w \<longleftrightarrow> (\<forall>n \<in> set (ep_nodes (sc_plan sc)). runtime_at sc w n \<noteq> None) \<and>
     (\<forall>i j r. dict_get (sc_runtimes sc) i = Some r \<longrightarrow> dict_get (sc_runtimes sc) j = Some r \<longrightarrow> i = j)"

text \<open>What one node does with its inputs and its state, without the bookkeeping of the tick.\<close>

definition node_call :: "'s runtime_ops \<Rightarrow> frame_context \<Rightarrow> compiled_node \<Rightarrow> inputs \<Rightarrow> 's \<Rightarrow> 's \<times> (node_error + inputs)" where
  "node_call ops ctx n inputs s =
     (if contains_no_data n inputs then (s, Inr (no_data_outputs n)) else invoke_runtime ops ctx n inputs s)"

definition result_outputs :: "compiled_node \<Rightarrow> node_error + inputs \<Rightarrow> inputs" where
  "result_outputs n r = (case r of Inl e \<Rightarrow> no_data_outputs n | Inr outputs \<Rightarrow> outputs)"

definition result_errors :: "node_error + inputs \<Rightarrow> node_error list" where
  "result_errors r = (case r of Inl e \<Rightarrow> [e] | Inr outputs \<Rightarrow> [])"

text \<open>
  The equation of a node between the values before the tick, the values after it and the worlds
  before and after.
\<close>

definition node_equation :: "'s runtime_ops \<Rightarrow> scheduler \<Rightarrow> frame_context \<Rightarrow> port_values \<Rightarrow> 's world \<Rightarrow>
    port_values \<Rightarrow> 's world \<Rightarrow> node_error list \<Rightarrow> compiled_node \<Rightarrow> bool" where
  "node_equation ops sc ctx v w v' w' errors n \<longleftrightarrow>
     (if due v n then
        \<exists>inputs s s' r. gather_inputs v' n = Inr inputs \<and> runtime_at sc w n = Some s \<and>
          node_call ops ctx n inputs s = (s', r) \<and> runtime_at sc w' n = Some s' \<and> errors = result_errors r \<and>
          (\<forall>k. own_key n k \<longrightarrow> fmlookup v' k = Some (answer_of (result_outputs n r) (pk_port k)))
      else runtime_at sc w' n = runtime_at sc w n \<and> errors = [] \<and>
        (\<forall>k. own_key n k \<longrightarrow> fmlookup v' k = fmlookup v k))"

lemma run_node_effect:
  assumes "run_node ops sc ctx n t = (u, None)" and "due (tk_values t) n"
    and "runtime_at sc (tk_world t) n = Some s" and "dict_get (sc_runtimes sc) (cn_node_id n) = Some r"
  shows "\<exists>inputs s' a. gather_inputs (tk_values t) n = Inr inputs \<and> node_call ops ctx n inputs s = (s', a) \<and>
    tk_values u = publish_outputs n (result_outputs n a) (tk_values t) \<and>
    tk_errors u = tk_errors t @ result_errors a \<and>
    tk_cache u = (if cn_is_static n then cache_outputs n (tk_values u) (tk_cache t) else tk_cache t) \<and>
    tk_world u = (tk_world t)\<lparr>cells := fmupd r s' (cells (tk_world t))\<rparr>"
  using assms(1)
proof (cases rule: run_node_cases)
  case (runs inputs v outputs)
  have cell: "fmlookup (cells (tk_world t)) r = Some s" using assms(3,4) by (simp add: runtime_at_def)
  then have "fmupd r s (cells (tk_world t)) = cells (tk_world t)" by (intro fmap_ext) auto
  then have same: "(tk_world t)\<lparr>cells := fmupd r s (cells (tk_world t))\<rparr> = tk_world t" by simp
  obtain s' a where call: "invoke_runtime ops ctx n inputs s = (s', a)" by fastforce
  have "\<exists>s' a. node_call ops ctx n inputs s = (s', a) \<and> outputs = result_outputs n a \<and>
    tk_errors v = tk_errors t @ result_errors a \<and> tk_world v = (tk_world t)\<lparr>cells := fmupd r s' (cells (tk_world t))\<rparr>"
  proof (cases "contains_no_data n inputs")
    case True
    then have "v = t" "outputs = no_data_outputs n" using runs(3) by (simp_all add: node_outputs_def)
    moreover have "node_call ops ctx n inputs s = (s, Inr (no_data_outputs n))" using True by (simp add: node_call_def)
    ultimately show ?thesis using same
      by (intro exI [of _ s] exI [of _ "Inr (no_data_outputs n)"]) (simp add: result_outputs_def result_errors_def)
  next
    case False
    then have "node_call ops ctx n inputs s = (s', a)" using call by (simp add: node_call_def)
    moreover have "outputs = result_outputs n a \<and> tk_errors v = tk_errors t @ result_errors a \<and>
      tk_world v = (tk_world t)\<lparr>cells := fmupd r s' (cells (tk_world t))\<rparr>"
      using runs(3) False assms(4) cell call
      by (cases a) (auto simp: node_outputs_def result_outputs_def result_errors_def invoke_node_def Let_def)
    ultimately show ?thesis by blast
  qed
  with runs(2,4,6,7) show ?thesis by auto
qed (use assms in auto)

lemma run_node_gathers:
  assumes "run_node ops sc ctx n t = (u, raised)" and "due (tk_values t) n"
  shows "raised = (case gather_inputs (tk_values t) n of Inl e \<Rightarrow> Some e | Inr _ \<Rightarrow> None)"
    and "raised \<noteq> None \<Longrightarrow> u = t"
  using assms by (cases rule: run_node_cases; simp)+

lemma run_node_skips:
  "run_node ops sc ctx n t = (u, raised) \<Longrightarrow> \<not> due (tk_values t) n \<Longrightarrow> u = t \<and> raised = None"
  by (cases rule: run_node_cases) auto

lemma due_cong:
  "(\<And>k. own_key n k \<Longrightarrow> fmlookup v k = fmlookup v' k) \<Longrightarrow> due v n = due v' n"
  unfolding due_def outputs_cached_iff by (simp add: fmlookup_dom_iff)

text \<open>A list of nodes in which nobody reads from itself or from a later node.\<close>

fun reads_back :: "compiled_node list \<Rightarrow> bool" where
  "reads_back [] = True"
| "reads_back (n # ns) = ((\<forall>(q, b) \<in> set (cn_input_bindings n). \<forall>m \<in> set (n # ns). \<not> own_key m (ib_source b)) \<and>
     reads_back ns)"

lemma own_key_same_node: "own_key m k \<Longrightarrow> own_key n k \<Longrightarrow> cn_node_id m = cn_node_id n"
  by (simp add: own_key_def)

lemma runtime_at_other:
  assumes "\<forall>i j r. dict_get (sc_runtimes sc) i = Some r \<longrightarrow> dict_get (sc_runtimes sc) j = Some r \<longrightarrow> i = j"
    and "dict_get (sc_runtimes sc) (cn_node_id n) = Some r" and "cn_node_id m \<noteq> cn_node_id n"
    and "cells w' = fmupd r s (cells w)"
  shows "runtime_at sc w' m = runtime_at sc w m"
proof (cases "dict_get (sc_runtimes sc) (cn_node_id m)")
  case None
  then show ?thesis by (simp add: runtime_at_def)
next
  case (Some r')
  with assms have "r' \<noteq> r" by blast
  with Some assms(4) show ?thesis by (simp add: runtime_at_def)
qed

lemma run_node_world:
  assumes "run_node ops sc ctx n t = (u, None)" and "runtime_at sc (tk_world t) n \<noteq> None"
    and "\<forall>i j r. dict_get (sc_runtimes sc) i = Some r \<longrightarrow> dict_get (sc_runtimes sc) j = Some r \<longrightarrow> i = j"
    and "cn_node_id m \<noteq> cn_node_id n"
  shows "runtime_at sc (tk_world u) m = runtime_at sc (tk_world t) m"
proof (cases "due (tk_values t) n")
  case True
  from assms(2) obtain r s where r: "dict_get (sc_runtimes sc) (cn_node_id n) = Some r" "runtime_at sc (tk_world t) n = Some s"
    by (auto simp: runtime_at_def split: bind_split_asm)
  from run_node_effect [OF assms(1) True r(2,1)] obtain s' where
    "tk_world u = (tk_world t)\<lparr>cells := fmupd r s' (cells (tk_world t))\<rparr>" by blast
  then have "cells (tk_world u) = fmupd r s' (cells (tk_world t))" by simp
  then show ?thesis by (rule runtime_at_other [OF assms(3) r(1) assms(4)])
next
  case False
  then show ?thesis using run_node_skips [OF assms(1)] by simp
qed

lemma run_nodes_runtimes:
  assumes "run_nodes ops sc ctx ns t = (t', None)" and "distinct (map cn_node_id ns)"
    and "\<forall>n \<in> set ns. runtime_at sc (tk_world t) n \<noteq> None"
    and "\<forall>i j r. dict_get (sc_runtimes sc) i = Some r \<longrightarrow> dict_get (sc_runtimes sc) j = Some r \<longrightarrow> i = j"
    and "cn_node_id m \<notin> cn_node_id ` set ns"
  shows "runtime_at sc (tk_world t') m = runtime_at sc (tk_world t) m"
  using assms(1-3,5)
proof (induction ns arbitrary: t)
  case (Cons n ns)
  from Cons.prems(1) obtain u where u: "run_node ops sc ctx n t = (u, None)" "run_nodes ops sc ctx ns u = (t', None)"
    by (auto split: prod.splits option.splits)
  note keep = run_node_world [OF u(1) _ assms(4)]
  have "cn_node_id x \<noteq> cn_node_id n" if "x \<in> set ns \<or> x = m" for x
    using that Cons.prems(2,4) by (metis distinct.simps(2) image_eqI list.set_intros(1) list.set_map list.simps(9))
  then have "runtime_at sc (tk_world u) x = runtime_at sc (tk_world t) x" if "x \<in> set ns \<or> x = m" for x
    using keep [of x] that Cons.prems(3) by simp
  with Cons.IH [OF u(2)] Cons.prems(2-4) show ?case by simp
qed simp

lemma run_nodes_equations:
  assumes "run_nodes ops sc ctx ns t = (t', None)" and "distinct (map cn_node_id ns)" and "reads_back ns"
    and "\<forall>n \<in> set ns. runtime_at sc (tk_world t) n \<noteq> None"
    and inj: "\<forall>i j r. dict_get (sc_runtimes sc) i = Some r \<longrightarrow> dict_get (sc_runtimes sc) j = Some r \<longrightarrow> i = j"
  shows "\<exists>ess. tk_errors t' = tk_errors t @ concat ess \<and> list_all2 (\<lambda>es n. node_equation ops sc ctx
    (tk_values t) (tk_world t) (tk_values t') (tk_world t') es n) ess ns"
  using assms(1-4)
proof (induction ns arbitrary: t)
  case (Cons n ns)
  from Cons.prems(1) obtain u where u: "run_node ops sc ctx n t = (u, None)" "run_nodes ops sc ctx ns u = (t', None)"
    by (auto split: prod.splits option.splits)
  note w = run_node_world [OF u(1) _ inj]
  have n: "runtime_at sc (tk_world t) n \<noteq> None" using Cons.prems(4) by simp
  have other: "cn_node_id m \<noteq> cn_node_id n" if "m \<in> set ns" for m :: compiled_node
    using Cons.prems(2) that by (metis distinct.simps(2) image_eqI list.set_map list.simps(9))
  have runtimes: "runtime_at sc (tk_world u) m = runtime_at sc (tk_world t) m" if "m \<in> set ns" for m
    using w [OF n other [OF that]] .
  have vals: "fmlookup (tk_values u) k = fmlookup (tk_values t) k" if "m \<in> set ns" "own_key m k" for m k
    using run_node_keeps [OF u(1), of k] own_key_same_node [OF that(2)] other [OF that(1)] by blast
  have later: "fmlookup (tk_values t') k = fmlookup (tk_values u) k" if "\<forall>m \<in> set ns. \<not> own_key m k" for k
    using run_nodes_keeps [OF u(2) that] by blast
  have "\<forall>m \<in> set ns. runtime_at sc (tk_world u) m \<noteq> None" using Cons.prems(4) runtimes by simp
  with Cons.IH [OF u(2)] Cons.prems(2,3) obtain ess where ess: "tk_errors t' = tk_errors u @ concat ess"
    "list_all2 (\<lambda>es n. node_equation ops sc ctx (tk_values u) (tk_world u) (tk_values t') (tk_world t') es n) ess ns"
    by auto
  have "node_equation ops sc ctx (tk_values t) (tk_world t) (tk_values t') (tk_world t') es m"
    if "m \<in> set ns" "node_equation ops sc ctx (tk_values u) (tk_world u) (tk_values t') (tk_world t') es m" for es m
  proof -
    have "due (tk_values u) m = due (tk_values t) m" by (rule due_cong) (rule vals [OF that(1)])
    with that(2) runtimes [OF that(1)] vals [OF that(1)] show ?thesis
      unfolding node_equation_def by (cases "due (tk_values t) m") simp_all
  qed
  then have rest: "list_all2 (\<lambda>es n. node_equation ops sc ctx (tk_values t) (tk_world t) (tk_values t') (tk_world t') es n) ess ns"
    using ess(2) by (auto simp: list_all2_conv_all_nth)
  have own: "\<forall>m \<in> set ns. \<not> own_key m k" if "own_key n k" for k
    using own_key_same_node [of _ k n] other that by blast
  have last: "runtime_at sc (tk_world t') n = runtime_at sc (tk_world u) n"
    by (rule run_nodes_runtimes [OF u(2) _ _ inj]) (use Cons.prems(2,4) runtimes in auto)
  have "\<exists>es. tk_errors u = tk_errors t @ es \<and>
      node_equation ops sc ctx (tk_values t) (tk_world t) (tk_values t') (tk_world t') es n"
  proof (cases "due (tk_values t) n")
    case False
    with run_node_skips [OF u(1)] have "u = t" by simp
    with False last later own show ?thesis by (auto simp: node_equation_def)
  next
    case True
    from n obtain r s where r: "dict_get (sc_runtimes sc) (cn_node_id n) = Some r" "runtime_at sc (tk_world t) n = Some s"
      by (auto simp: runtime_at_def split: bind_split_asm)
    from run_node_effect [OF u(1) True r(2,1)] obtain inputs s' a where
      e: "gather_inputs (tk_values t) n = Inr inputs" "node_call ops ctx n inputs s = (s', a)"
        "tk_values u = publish_outputs n (result_outputs n a) (tk_values t)"
        "tk_errors u = tk_errors t @ result_errors a"
        "tk_world u = (tk_world t)\<lparr>cells := fmupd r s' (cells (tk_world t))\<rparr>" by blast
    have "gather_inputs (tk_values t') n = gather_inputs (tk_values t) n"
    proof (rule gather_cong)
      fix q b assume "(q, b) \<in> set (cn_input_bindings n)"
      with Cons.prems(3) have "\<forall>m \<in> set (n # ns). \<not> own_key m (ib_source b)" by fastforce
      with later [of "ib_source b"] run_node_keeps [OF u(1), of "ib_source b"]
      show "read_port (tk_values t') (ib_source b) = read_port (tk_values t) (ib_source b)"
        by (simp add: read_port_def)
    qed
    moreover have "runtime_at sc (tk_world t') n = Some s'" unfolding last by (simp add: runtime_at_def r(1) e(5))
    moreover have "fmlookup (tk_values t') k = Some (answer_of (result_outputs n a) (pk_port k))" if "own_key n k" for k
      using later [OF own [OF that]] that by (simp add: e(3) publish_lookup)
    ultimately show ?thesis using True e r(2) unfolding node_equation_def by auto
  qed
  then obtain es where "tk_errors u = tk_errors t @ es"
    "node_equation ops sc ctx (tk_values t) (tk_world t) (tk_values t') (tk_world t') es n" by blast
  with ess(1) rest show ?case by (intro exI [of _ "es # ess"]) simp
qed simp

end
