(* ===== verification/EngineFacade.thy ===== *)
theory EngineFacade
  imports SchedulerFacts Compiler MidiState
begin

text \<open>
  The compile, prepare, commit cycle of \<^verbatim>\<open>runtime/engine_facade.py\<close>: a compiled candidate
  scheduler is prepared beside the active one, shares the runtimes whose state survives, and
  replaces it at a boundary between ticks. The facade numbers the ticks; the number orders MIDI
  states against panics. The step relation is the discipline of the engine body
  (\<^verbatim>\<open>runtime/engine_body.py\<close>, \<open>activate\<close> and its callers): one candidate at a time, and between
  preparation and commitment only ticks and resets of the frame worker.
\<close>

section \<open>Operations\<close>

record prepared_activation =
  pa_result :: compilation_result
  pa_scheduler :: "scheduler option"
  pa_committed :: bool

record engine_facade =
  ef_plan :: "execution_plan option"
  ef_scheduler :: "scheduler option"
  ef_generation :: int

definition facade_init :: engine_facade where
  "facade_init = \<lparr>ef_plan = None, ef_scheduler = None, ef_generation = 0\<rparr>"

text \<open>What may be raised: an error of the model's own or whatever a runtime factory raised.\<close>

type_synonym 'a raising = "(py_error + message) + 'a"

text \<open>\<open>PreparedEngineActivation.close\<close>\<close>

definition prepared_close :: "'s runtime_ops \<Rightarrow> prepared_activation \<Rightarrow> 's world \<Rightarrow> prepared_activation \<times> 's world" where
  "prepared_close ops p w =
     (case pa_scheduler p of
        Some sc \<Rightarrow> if pa_committed p then (p, w) else (p\<lparr>pa_scheduler := None\<rparr>, snd (cancel_prepared ops sc w))
      | None \<Rightarrow> (p, w))"

definition facade_prepare :: "'s runtime_ops \<Rightarrow> node_registry \<Rightarrow> graph_snapshot \<Rightarrow> uuid list option \<Rightarrow> reset_reason \<Rightarrow>
    engine_facade \<Rightarrow> 's world \<Rightarrow> prepared_activation raising \<times> 's world" where
  "facade_prepare ops registry s roots reason f w =
     (case compile registry s roots of
        Inl e \<Rightarrow> (Inl (Inl e), w)
      | Inr result \<Rightarrow>
          (case cr_plan result of
             None \<Rightarrow> (Inr \<lparr>pa_result = result, pa_scheduler = None, pa_committed = False\<rparr>, w)
           | Some plan \<Rightarrow>
               (case prepare_replacement ops plan (ef_scheduler f) (reason = PLAN_REPLACED) w of
                  (Inl e, w) \<Rightarrow> (Inl (Inl e), w)
                | (Inr (Inl m), w) \<Rightarrow> (Inl (Inr m), w)
                | (Inr (Inr sc), w) \<Rightarrow> (Inr \<lparr>pa_result = result, pa_scheduler = Some sc, pa_committed = False\<rparr>, w))))"

definition facade_commit :: "'s runtime_ops \<Rightarrow> reset_reason \<Rightarrow> prepared_activation \<Rightarrow> engine_facade \<Rightarrow> 's world \<Rightarrow>
    (engine_facade \<times> prepared_activation) res \<times> 's world" where
  "facade_commit ops reason p f w =
     (case (pa_committed p, pa_scheduler p, cr_plan (pa_result p)) of
        (False, Some replacement, Some plan) \<Rightarrow>
          (case ef_scheduler f of
             None \<Rightarrow> (Inr (f\<lparr>ef_plan := Some plan, ef_scheduler := Some replacement\<rparr>,
                 p\<lparr>pa_committed := True, pa_scheduler := None\<rparr>), w)
           | Some previous \<Rightarrow>
               (case claim_borrowed_runtimes replacement previous of
                  Inl e \<Rightarrow> (Inl e, w)
                | Inr (replacement, previous) \<Rightarrow>
                    (Inr (f\<lparr>ef_plan := Some plan, ef_scheduler := Some replacement\<rparr>,
                       p\<lparr>pa_committed := True, pa_scheduler := None\<rparr>),
                     snd (close_scheduler ops (Some reason) previous w))))
      | _ \<Rightarrow> (Inl (RuntimeError (Msg ''Engine activation candidate is not available for commit'' [])), w))"

definition facade_activate :: "'s runtime_ops \<Rightarrow> node_registry \<Rightarrow> graph_snapshot \<Rightarrow> uuid list option \<Rightarrow> reset_reason \<Rightarrow>
    engine_facade \<Rightarrow> 's world \<Rightarrow> (engine_facade \<times> compilation_result) raising \<times> 's world" where
  "facade_activate ops registry s roots reason f w =
     (case facade_prepare ops registry s roots reason f w of
        (Inl e, w) \<Rightarrow> (Inl e, w)
      | (Inr p, w) \<Rightarrow>
          if cr_plan (pa_result p) = None then (Inr (f, pa_result p), w)
          else (case facade_commit ops reason p f w of
              (Inl e, w) \<Rightarrow> (Inl (Inl e), w)
            | (Inr (f, p), w) \<Rightarrow> (Inr (f, pa_result p), w)))"

text \<open>\<open>stop\<close>: the facade forgets its scheduler first; a raising panic does not keep it from closing.\<close>

definition facade_stop :: "'s runtime_ops \<Rightarrow> reset_reason \<Rightarrow> engine_facade \<Rightarrow> 's world \<Rightarrow>
    engine_facade \<times> 's world \<times> message option" where
  "facade_stop ops reason f w =
     (case ef_scheduler f of
        None \<Rightarrow> (f\<lparr>ef_plan := None, ef_scheduler := None\<rparr>, w, None)
      | Some sc \<Rightarrow> (case panic_scheduler ops 0 sc w of (w, raised) \<Rightarrow>
          (f\<lparr>ef_plan := None, ef_scheduler := None\<rparr>, snd (close_scheduler ops (Some reason) sc w), raised)))"

definition facade_tick :: "'s runtime_ops \<Rightarrow> frame_context \<Rightarrow> port_values \<Rightarrow> engine_facade \<Rightarrow> 's world \<Rightarrow>
    engine_facade \<times> 's world \<times> tick_result res" where
  "facade_tick ops ctx v f w =
     (case ef_scheduler f of
        None \<Rightarrow> (f, w, Inl (RuntimeError (Msg ''No valid graph plan is active'' [])))
      | Some sc \<Rightarrow>
          (let g = ef_generation f + 1 in
           case execute_tick ops (ctx\<lparr>publish_generation := g\<rparr>) v sc w of (sc, w, r) \<Rightarrow>
             (f\<lparr>ef_generation := g, ef_scheduler := Some sc\<rparr>, w, r)))"

definition facade_reset_source :: "'s runtime_ops \<Rightarrow> uuid \<Rightarrow> reset_reason \<Rightarrow> engine_facade \<Rightarrow> 's world \<Rightarrow> 's world \<times> message option" where
  "facade_reset_source ops i reason f w =
     (case ef_scheduler f of None \<Rightarrow> (w, None) | Some sc \<Rightarrow> reset_source ops i reason sc w)"

definition facade_reset_all :: "'s runtime_ops \<Rightarrow> reset_reason \<Rightarrow> engine_facade \<Rightarrow> 's world \<Rightarrow>
    engine_facade \<times> 's world \<times> message option" where
  "facade_reset_all ops reason f w =
     (case ef_scheduler f of
        None \<Rightarrow> (f, w, None)
      | Some sc \<Rightarrow> (case reset_all ops reason sc w of (sc, w, raised) \<Rightarrow> (f\<lparr>ef_scheduler := Some sc\<rparr>, w, raised)))"

definition facade_panic :: "'s runtime_ops \<Rightarrow> engine_facade \<Rightarrow> 's world \<Rightarrow> 's world \<times> message option" where
  "facade_panic ops f w =
     (case ef_scheduler f of None \<Rightarrow> (w, None) | Some sc \<Rightarrow> panic_scheduler ops (ef_generation f) sc w)"

definition facade_close :: "'s runtime_ops \<Rightarrow> engine_facade \<Rightarrow> 's world \<Rightarrow> engine_facade \<times> 's world" where
  "facade_close ops f w =
     (f\<lparr>ef_plan := None, ef_scheduler := None\<rparr>,
      case ef_scheduler f of None \<Rightarrow> w | Some sc \<Rightarrow> snd (close_scheduler ops None sc w))"

section \<open>Runs of the engine\<close>

record 's engine =
  en_facade :: engine_facade
  en_candidate :: "prepared_activation option"
  en_world :: "'s world"

definition engine_start :: "'s engine" where
  "engine_start = \<lparr>en_facade = facade_init, en_candidate = None, en_world = empty_world\<rparr>"

text \<open>A registry may change between activations (\<open>registry\<close> is a parameter of the step).\<close>

inductive engine_step :: "'s runtime_ops \<Rightarrow> node_registry \<Rightarrow> 's engine \<Rightarrow> 's engine \<Rightarrow> bool" for ops registry where
  prepare: "en_candidate e = None \<Longrightarrow>
    facade_prepare ops registry s roots reason (en_facade e) (en_world e) = (Inr p, w) \<Longrightarrow>
    engine_step ops registry e (e\<lparr>en_candidate := Some p, en_world := w\<rparr>)"
| prepare_fails: "en_candidate e = None \<Longrightarrow>
    facade_prepare ops registry s roots reason (en_facade e) (en_world e) = (Inl x, w) \<Longrightarrow>
    engine_step ops registry e (e\<lparr>en_world := w\<rparr>)"
| commit: "en_candidate e = Some p \<Longrightarrow>
    facade_commit ops reason p (en_facade e) (en_world e) = (Inr (f, p'), w) \<Longrightarrow>
    engine_step ops registry e \<lparr>en_facade = f, en_candidate = None, en_world = w\<rparr>"
| discard: "en_candidate e = Some p \<Longrightarrow> prepared_close ops p (en_world e) = (p', w) \<Longrightarrow>
    engine_step ops registry e (e\<lparr>en_candidate := None, en_world := w\<rparr>)"
| tick: "facade_tick ops ctx v (en_facade e) (en_world e) = (f, w, r) \<Longrightarrow>
    engine_step ops registry e (e\<lparr>en_facade := f, en_world := w\<rparr>)"
| reset_one: "facade_reset_source ops i reason (en_facade e) (en_world e) = (w, r) \<Longrightarrow>
    engine_step ops registry e (e\<lparr>en_world := w\<rparr>)"
| reset_every: "en_candidate e = None \<Longrightarrow> facade_reset_all ops reason (en_facade e) (en_world e) = (f, w, r) \<Longrightarrow>
    engine_step ops registry e (e\<lparr>en_facade := f, en_world := w\<rparr>)"
| panic: "en_candidate e = None \<Longrightarrow> facade_panic ops (en_facade e) (en_world e) = (w, r) \<Longrightarrow>
    engine_step ops registry e (e\<lparr>en_world := w\<rparr>)"
| stop: "en_candidate e = None \<Longrightarrow> facade_stop ops reason (en_facade e) (en_world e) = (f, w, r) \<Longrightarrow>
    engine_step ops registry e (e\<lparr>en_facade := f, en_world := w\<rparr>)"
| close: "en_candidate e = None \<Longrightarrow> facade_close ops (en_facade e) (en_world e) = (f, w) \<Longrightarrow>
    engine_step ops registry e (e\<lparr>en_facade := f, en_world := w\<rparr>)"

inductive_cases engine_stepE: "engine_step ops registry e e'"

inductive engine_reachable :: "'s runtime_ops \<Rightarrow> node_registry \<Rightarrow> 's engine \<Rightarrow> bool" for ops registry where
  start: "engine_reachable ops registry engine_start"
| step: "engine_reachable ops registry e \<Longrightarrow> engine_step ops registry e e' \<Longrightarrow> engine_reachable ops registry e'"

end
