(* ===== verification/EngineSafety.thy ===== *)
theory EngineSafety
  imports EngineFacade CompilerResults "HOL-Library.Multiset"
begin

text \<open>
  Ownership of runtimes: in every reachable state of the engine each runtime that was created is
  owned by the active scheduler, owned by the prepared candidate, or has been closed exactly once.
\<close>

section \<open>Lifecycle calls\<close>

definition created_refs :: "'s world \<Rightarrow> rt_ref list" where
  "created_refs w = List.map_filter (\<lambda>e. case e of Created r \<Rightarrow> Some r | _ \<Rightarrow> None) (events w)"

definition closed_refs :: "'s world \<Rightarrow> rt_ref list" where
  "closed_refs w = List.map_filter (\<lambda>e. case e of Closed r \<Rightarrow> Some r | _ \<Rightarrow> None) (events w)"

definition world_ok :: "'s world \<Rightarrow> bool" where
  "world_ok w \<longleftrightarrow> created_refs w = [0..<next_runtime w] \<and> (\<forall>r. r |\<in>| fmdom (cells w) \<longleftrightarrow> r < next_runtime w)"

lemma map_filter_append: "List.map_filter f (xs @ ys) = List.map_filter f xs @ List.map_filter f ys"
  by (simp add: List.map_filter_def)

lemma empty_world_ok [simp]: "world_ok empty_world" "closed_refs empty_world = []" "next_runtime empty_world = 0"
  by (simp_all add: world_ok_def empty_world_def created_refs_def closed_refs_def List.map_filter_def)

text \<open>A call that neither creates nor closes.\<close>

definition quiet :: "'s world \<Rightarrow> 's world \<Rightarrow> bool" where
  "quiet w w' \<longleftrightarrow> next_runtime w' = next_runtime w \<and> fmdom (cells w') = fmdom (cells w) \<and>
     created_refs w' = created_refs w \<and> closed_refs w' = closed_refs w"

lemma quiet_refl [simp]: "quiet w w"
  by (simp add: quiet_def)

lemma quiet_trans: "quiet u v \<Longrightarrow> quiet v w \<Longrightarrow> quiet u w"
  by (simp add: quiet_def)

lemma quiet_ok: "quiet w w' \<Longrightarrow> world_ok w \<Longrightarrow> world_ok w'"
  by (simp add: quiet_def world_ok_def)

lemma quiet_call:
  assumes "world_call f ev r w = (w', raised)" and "\<And>x. ev \<noteq> Created x" and "\<And>x. ev \<noteq> Closed x"
  shows "quiet w w'"
proof -
  have "List.map_filter (\<lambda>e. case e of Created r \<Rightarrow> Some r | _ \<Rightarrow> None) [ev] = []"
    "List.map_filter (\<lambda>e. case e of Closed r \<Rightarrow> Some r | _ \<Rightarrow> None) [ev] = []"
    using assms(2,3) by (cases ev; simp add: List.map_filter_def)+
  then show ?thesis
    using assms(1)
    by (auto simp: world_call_def quiet_def created_refs_def closed_refs_def map_filter_append fmlookup_dom_iff
        split: option.splits prod.splits)
qed

lemma close_runtime_ok:
  assumes "world_ok w" and "r < next_runtime w"
  shows "world_ok (close_runtime ops r w) \<and> next_runtime (close_runtime ops r w) = next_runtime w \<and>
    closed_refs (close_runtime ops r w) = closed_refs w @ [r]"
proof -
  obtain s where s: "fmlookup (cells w) r = Some s" using assms by (auto simp: world_ok_def fmlookup_dom_iff)
  obtain s' m where m: "ro_close ops s = (s', m)" by fastforce
  have w': "close_runtime ops r w = w\<lparr>cells := fmupd r s' (cells w), events := events w @ [Closed r]\<rparr>"
    using s m by (simp add: close_runtime_def world_call_def)
  show ?thesis
    using assms by (auto simp: w' world_ok_def created_refs_def closed_refs_def map_filter_append List.map_filter_def)
qed

lemma close_all_ok:
  assumes "world_ok w" and "\<forall>r \<in> set rs. r < next_runtime w"
    and step: "\<And>r w. world_ok w \<Longrightarrow> r < next_runtime w \<Longrightarrow>
      world_ok (f r w) \<and> next_runtime (f r w) = next_runtime w \<and> closed_refs (f r w) = closed_refs w @ [r]"
  shows "world_ok (fold f rs w) \<and> next_runtime (fold f rs w) = next_runtime w \<and> closed_refs (fold f rs w) = closed_refs w @ rs"
  using assms(1,2) by (induction rs arbitrary: w) (auto simp: step)

lemma close_with_ok:
  assumes "world_ok w" and "r < next_runtime w"
  shows "world_ok (close_with ops reason r w) \<and> next_runtime (close_with ops reason r w) = next_runtime w \<and>
    closed_refs (close_with ops reason r w) = closed_refs w @ [r]"
proof -
  let ?v = "case reason of None \<Rightarrow> w | Some x \<Rightarrow> fst (world_call (\<lambda>s. ro_reset ops s x) (Reset r x) r w)"
  have "quiet w ?v"
    by (cases reason) (auto intro: quiet_call [OF surjective_pairing])
  then have "world_ok ?v" "r < next_runtime ?v" "next_runtime ?v = next_runtime w" "closed_refs ?v = closed_refs w"
    using assms quiet_ok by (auto simp: quiet_def)
  with close_runtime_ok [of ?v r ops] show ?thesis by (simp add: close_with_def)
qed

definition refs :: "scheduler \<Rightarrow> rt_ref list" where
  "refs sc = map snd (sc_runtimes sc)"

definition owned :: "scheduler \<Rightarrow> rt_ref list" where
  "owned sc = map snd (filter (\<lambda>(i, r). i \<notin> sc_borrowed sc) (sc_runtimes sc))"

lemma fold_pairs: "fold (\<lambda>(i, r). f r) d w = fold f (map snd d) w"
  by (induction d arbitrary: w) auto

lemma fold_unless: "fold (\<lambda>(i, r) w. if p i then w else f r w) d w = fold f (map snd (filter (\<lambda>(i, r). \<not> p i) d)) w"
  by (induction d arbitrary: w) auto

lemma close_scheduler_ok:
  assumes "world_ok w" and "\<forall>r \<in> set (refs sc). r < next_runtime w" and "close_scheduler ops reason sc w = (sc', w')"
  shows "world_ok w' \<and> next_runtime w' = next_runtime w \<and> closed_refs w' = closed_refs w @ refs sc"
  using close_all_ok [OF assms(1,2), of "close_with ops reason", OF close_with_ok] assms(3)
  by (simp add: close_scheduler_def fold_pairs refs_def)

lemma cancel_prepared_ok:
  assumes "world_ok w" and "\<forall>r \<in> set (owned sc). r < next_runtime w" and "cancel_prepared ops sc w = (sc', w')"
  shows "world_ok w' \<and> next_runtime w' = next_runtime w \<and> closed_refs w' = closed_refs w @ owned sc"
  using close_all_ok [OF assms(1,2), of "close_runtime ops", OF close_runtime_ok] assms(3)
  by (simp add: cancel_prepared_def fold_unless owned_def)

section \<open>Adopting runtimes\<close>

lemma dict_set_fresh: "k \<notin> fst ` set d \<Longrightarrow> dict_set k v d = d @ [(k, v)]"
  by (induction d) auto

lemma world_create_ok:
  assumes "world_create s w = (r, w')" and "world_ok w"
  shows "r = next_runtime w \<and> world_ok w' \<and> next_runtime w' = Suc (next_runtime w) \<and> closed_refs w' = closed_refs w"
proof -
  have r: "r = next_runtime w" and w': "next_runtime w' = Suc (next_runtime w)"
    "cells w' = fmupd r s (cells w)" "events w' = events w @ [Created r]"
    using assms(1) by (auto simp: world_create_def)
  have "created_refs w' = created_refs w @ [r]" "closed_refs w' = closed_refs w"
    by (simp_all add: created_refs_def closed_refs_def w'(3) map_filter_append List.map_filter_def)
  moreover have "x |\<in>| fmdom (cells w') \<longleftrightarrow> x < next_runtime w'" for x
    using assms(2) by (auto simp: w' r world_ok_def less_Suc_eq)
  ultimately show ?thesis using assms(2) r w'(1) by (simp add: world_ok_def)
qed

lemma adopt_ok:
  assumes "adopt_runtimes ops reusable ns sc w = (sc', w', raised)" and "world_ok w"
    and "distinct (map cn_node_id ns)" and "cn_node_id ` set ns \<inter> fst ` set (sc_runtimes sc) = {}"
    and "dict_ok (sc_runtimes sc)" and "sc_borrowed sc \<subseteq> fst ` set (sc_runtimes sc)"
    and "\<forall>i \<in> sc_borrowed sc. dict_get (sc_runtimes sc) i = dict_get reusable i"
  shows "sc_plan sc' = sc_plan sc \<and> sc_static_cache sc' = sc_static_cache sc \<and> world_ok w' \<and>
    owned sc' = owned sc @ [next_runtime w..<next_runtime w'] \<and> next_runtime w \<le> next_runtime w' \<and>
    closed_refs w' = closed_refs w \<and> dict_ok (sc_runtimes sc') \<and> sc_borrowed sc' \<subseteq> fst ` set (sc_runtimes sc') \<and>
    (\<forall>i \<in> sc_borrowed sc'. dict_get (sc_runtimes sc') i = dict_get reusable i) \<and>
    (raised = None \<longrightarrow> fst ` set (sc_runtimes sc') = fst ` set (sc_runtimes sc) \<union> cn_node_id ` set ns)"
  using assms
proof (induction ns arbitrary: sc w)
  case Nil
  then show ?case by simp
next
  case (Cons n ns)
  let ?i = "cn_node_id n"
  have i: "?i \<notin> fst ` set (sc_runtimes sc)" "?i \<notin> cn_node_id ` set ns" "distinct (map cn_node_id ns)"
    and rest: "cn_node_id ` set ns \<inter> fst ` set (sc_runtimes sc) = {}"
    using Cons.prems(3,4) by auto
  have ib: "?i \<notin> sc_borrowed sc" using i(1) Cons.prems(6) by blast
  have get: "dict_get (sc_runtimes sc @ [(?i, r)]) j = (if j = ?i then Some r else dict_get (sc_runtimes sc) j)" for j r
  proof (cases "j = ?i")
    case True
    then have "dict_get (sc_runtimes sc) j = None" using i(1) by (simp add: dict_get_None_iff)
    with True show ?thesis by (simp add: map_add_def)
  qed (simp add: map_add_def split: option.split)
  show ?case
  proof (cases "dict_get reusable ?i")
    case (Some r)
    let ?sc = "sc\<lparr>sc_borrowed := insert ?i (sc_borrowed sc), sc_runtimes := dict_set ?i r (sc_runtimes sc)\<rparr>"
    have rts: "sc_runtimes ?sc = sc_runtimes sc @ [(?i, r)]" using i(1) by (simp add: dict_set_fresh)
    have own: "owned ?sc = owned sc"
    proof -
      have "filter (\<lambda>(j, r). j \<notin> insert ?i (sc_borrowed sc)) (sc_runtimes sc) =
          filter (\<lambda>(j, r). j \<notin> sc_borrowed sc) (sc_runtimes sc)"
      proof (rule filter_cong [OF refl])
        fix x assume "x \<in> set (sc_runtimes sc)"
        with i(1) have "fst x \<noteq> ?i" by force
        then show "(case x of (j, r) \<Rightarrow> j \<notin> insert ?i (sc_borrowed sc)) = (case x of (j, r) \<Rightarrow> j \<notin> sc_borrowed sc)"
          by (cases x) simp
      qed
      then show ?thesis using i(1) by (simp add: owned_def dict_set_fresh)
    qed
    have "adopt_runtimes ops reusable ns ?sc w = (sc', w', raised)" using Cons.prems(1) Some by simp
    moreover have "cn_node_id ` set ns \<inter> fst ` set (sc_runtimes ?sc) = {}" using rest i(2) by auto
    moreover have "sc_borrowed ?sc \<subseteq> fst ` set (sc_runtimes ?sc)" using Cons.prems(6) by auto
    moreover have "dict_ok (sc_runtimes ?sc)" using Cons.prems(5) by simp
    moreover have "\<forall>j \<in> sc_borrowed ?sc. dict_get (sc_runtimes ?sc) j = dict_get reusable j"
      using Cons.prems(7) Some by auto
    note ih = Cons.IH [of ?sc w, OF \<open>adopt_runtimes ops reusable ns ?sc w = (sc', w', raised)\<close> Cons.prems(2) i(3)
        \<open>cn_node_id ` set ns \<inter> fst ` set (sc_runtimes ?sc) = {}\<close> \<open>dict_ok (sc_runtimes ?sc)\<close>
        \<open>sc_borrowed ?sc \<subseteq> fst ` set (sc_runtimes ?sc)\<close> \<open>\<forall>j \<in> sc_borrowed ?sc. dict_get (sc_runtimes ?sc) j = dict_get reusable j\<close>]
    then show ?thesis unfolding own by auto
  next
    case None
    show ?thesis
    proof (cases "ro_create ops (cn_definition n) ?i")
      case (Inl m)
      then show ?thesis using Cons.prems None by auto
    next
      case (Inr s)
      obtain r v where v: "world_create s w = (r, v)" by fastforce
      note c = world_create_ok [OF v Cons.prems(2)]
      let ?sc = "sc\<lparr>sc_runtimes := dict_set ?i r (sc_runtimes sc)\<rparr>"
      have own: "owned ?sc = owned sc @ [next_runtime w]" using i(1) ib c by (simp add: owned_def dict_set_fresh)
      have a: "adopt_runtimes ops reusable ns ?sc v = (sc', w', raised)" using Cons.prems(1) None Inr v by simp
      have b: "cn_node_id ` set ns \<inter> fst ` set (sc_runtimes ?sc) = {}" using rest i(2) by auto
      have d: "sc_borrowed ?sc \<subseteq> fst ` set (sc_runtimes ?sc)" using Cons.prems(6) by auto
      have e: "dict_ok (sc_runtimes ?sc)" using Cons.prems(5) by simp
      have f: "\<forall>j \<in> sc_borrowed ?sc. dict_get (sc_runtimes ?sc) j = dict_get reusable j"
        using Cons.prems(7) ib by auto
      have "next_runtime v = Suc (next_runtime w)" "closed_refs v = closed_refs w" "world_ok v" using c by simp_all
      with Cons.IH [OF a _ i(3) b e d f] own show ?thesis
        by (auto simp: upt_conv_Cons)
    qed
  qed
qed

lemma scheduler_init_ok:
  assumes "scheduler_init ops plan reusable w = (r, w')" and "world_ok w" and "distinct (topological_node_ids plan)"
  shows "world_ok w' \<and> next_runtime w \<le> next_runtime w' \<and>
    (case r of
       Inl m \<Rightarrow> closed_refs w' = closed_refs w @ [next_runtime w..<next_runtime w']
     | Inr sc \<Rightarrow> closed_refs w' = closed_refs w \<and> owned sc = [next_runtime w..<next_runtime w'] \<and>
         sc_plan sc = plan \<and> sc_static_cache sc = fmempty \<and> dict_ok (sc_runtimes sc) \<and>
         fst ` set (sc_runtimes sc) = set (topological_node_ids plan) \<and>
         sc_borrowed sc \<subseteq> fst ` set (sc_runtimes sc) \<and>
         (\<forall>i \<in> sc_borrowed sc. dict_get (sc_runtimes sc) i = dict_get reusable i))"
proof -
  let ?sc0 = "\<lparr>sc_plan = plan, sc_runtimes = [], sc_borrowed = {}, sc_static_cache = fmempty\<rparr>"
  obtain sc v raised where a: "adopt_runtimes ops reusable (ep_nodes plan) ?sc0 w = (sc, v, raised)"
    using prod_cases3 by blast
  have d: "distinct (map cn_node_id (ep_nodes plan))" using assms(3) by (simp add: topological_node_ids_def)
  have owned0: "owned ?sc0 = []" by (simp add: owned_def)
  note ok = adopt_ok [OF a assms(2) d, simplified, unfolded owned0 append_Nil]
  show ?thesis
  proof (cases raised)
    case None
    then have "r = Inr sc" "w' = v" using assms(1) a by (simp_all add: scheduler_init_def)
    moreover have "sc_borrowed sc \<subseteq> fst ` set (sc_runtimes sc)" using ok by blast
    ultimately show ?thesis using ok None by (simp add: topological_node_ids_def)
  next
    case (Some m)
    then have r: "r = Inl m" "w' = snd (cancel_prepared ops sc v)" using assms(1) a by (simp_all add: scheduler_init_def)
    have "world_ok w' \<and> next_runtime w' = next_runtime v \<and> closed_refs w' = closed_refs v @ owned sc"
      unfolding r(2) by (rule cancel_prepared_ok [OF _ _ surjective_pairing]) (use ok in auto)
    with ok r(1) show ?thesis by simp
  qed
qed

lemma reusable_from_previous:
  assumes "reusable_runtimes plan previous keep = Inr reusable" and "dict_get reusable i = Some r"
  shows "\<exists>prev. previous = Some prev \<and> dict_get (sc_runtimes prev) i = Some r"
proof (cases previous)
  case None
  with assms show ?thesis by (simp add: reusable_runtimes_def)
next
  case (Some prev)
  with assms obtain invalidated where
    f: "foldM (reuse_node prev (previous_nodes prev) invalidated) (ep_nodes plan) [] = Inr reusable"
    by (auto simp: reusable_runtimes_def bind_res_eq_Inr split: if_splits)
  have "\<forall>i r. dict_get reusable i = Some r \<longrightarrow> dict_get (sc_runtimes prev) i = Some r"
  proof (rule foldM_invariant [OF f])
    fix n d d'
    assume p: "\<forall>i r. dict_get d i = Some r \<longrightarrow> dict_get (sc_runtimes prev) i = Some r"
      and s: "reuse_node prev (previous_nodes prev) invalidated n d = Inr d'"
    show "\<forall>i r. dict_get d' i = Some r \<longrightarrow> dict_get (sc_runtimes prev) i = Some r"
      using s p by (auto simp: reuse_node_def bind_res_eq_Inr simp del: map_of_eq_Some_iff split: option.splits if_splits)
  qed simp
  with assms(2) Some show ?thesis by blast
qed

section \<open>The invariant\<close>

definition active_refs :: "engine_facade \<Rightarrow> rt_ref list" where
  "active_refs f = (case ef_scheduler f of None \<Rightarrow> [] | Some sc \<Rightarrow> refs sc)"

definition candidate_refs :: "prepared_activation option \<Rightarrow> rt_ref list" where
  "candidate_refs c = (case Option.bind c pa_scheduler of None \<Rightarrow> [] | Some sc \<Rightarrow> owned sc)"

lemma candidate_refs_None [simp]: "candidate_refs None = []"
  by (simp add: candidate_refs_def)

definition facade_ok :: "engine_facade \<Rightarrow> bool" where
  "facade_ok f \<longleftrightarrow> (case ef_scheduler f of
       None \<Rightarrow> ef_plan f = None
     | Some sc \<Rightarrow> ef_plan f = Some (sc_plan sc) \<and> dict_ok (sc_runtimes sc) \<and>
         fst ` set (sc_runtimes sc) = set (topological_node_ids (sc_plan sc)))"

definition candidate_ok :: "engine_facade \<Rightarrow> prepared_activation \<Rightarrow> bool" where
  "candidate_ok f p \<longleftrightarrow> \<not> pa_committed p \<and> (case pa_scheduler p of
       None \<Rightarrow> True
     | Some sc \<Rightarrow> cr_plan (pa_result p) = Some (sc_plan sc) \<and> dict_ok (sc_runtimes sc) \<and>
         fst ` set (sc_runtimes sc) = set (topological_node_ids (sc_plan sc)) \<and>
         (\<forall>i \<in> sc_borrowed sc. \<exists>prev r. ef_scheduler f = Some prev \<and>
            dict_get (sc_runtimes prev) i = Some r \<and> dict_get (sc_runtimes sc) i = Some r))"

definition engine_inv :: "'s engine \<Rightarrow> bool" where
  "engine_inv e \<longleftrightarrow> world_ok (en_world e) \<and>
     distinct (closed_refs (en_world e) @ active_refs (en_facade e) @ candidate_refs (en_candidate e)) \<and>
     set (closed_refs (en_world e) @ active_refs (en_facade e) @ candidate_refs (en_candidate e)) =
       {..<next_runtime (en_world e)} \<and>
     facade_ok (en_facade e) \<and> (\<forall>p. en_candidate e = Some p \<longrightarrow> candidate_ok (en_facade e) p)"

lemma engine_inv_start: "engine_inv engine_start"
  by (simp add: engine_inv_def engine_start_def facade_init_def active_refs_def candidate_refs_def facade_ok_def)

text \<open>Steps that leave ownership as it is.\<close>

lemma engine_inv_quiet:
  assumes "engine_inv e" and "quiet (en_world e) w"
    and "ef_plan f = ef_plan (en_facade e)"
    and "rel_option (\<lambda>a b. sc_plan a = sc_plan b \<and> sc_runtimes a = sc_runtimes b) (ef_scheduler (en_facade e)) (ef_scheduler f)"
  shows "engine_inv (e\<lparr>en_facade := f, en_world := w\<rparr>)"
proof -
  have a: "active_refs f = active_refs (en_facade e)" "facade_ok f = facade_ok (en_facade e)"
    using assms(3,4) by (cases "ef_scheduler f"; cases "ef_scheduler (en_facade e)";
      simp add: active_refs_def refs_def facade_ok_def)+
  have "candidate_ok f p = candidate_ok (en_facade e) p" for p
    using assms(4) by (cases "ef_scheduler f"; cases "ef_scheduler (en_facade e)")
      (auto simp: candidate_ok_def split: option.split)
  with a assms(1,2) quiet_ok [OF assms(2)] show ?thesis by (simp add: engine_inv_def quiet_def)
qed

lemma quiet_call_all:
  assumes "call_all f rs w = (w', raised)" and "\<And>r w w' m. f r w = (w', m) \<Longrightarrow> quiet w w'"
  shows "quiet w w'"
  using assms(1)
proof (induction rs arbitrary: w)
  case (Cons r rs)
  obtain v m where v: "f r w = (v, m)" by fastforce
  show ?case
  proof (cases m)
    case None
    with Cons v have "quiet v w'" by simp
    with assms(2) [OF v] show ?thesis by (rule quiet_trans)
  next
    case (Some x)
    with Cons.prems v assms(2) [OF v] show ?thesis by simp
  qed
qed simp

lemma quiet_panic: "panic_scheduler ops g sc w = (w', raised) \<Longrightarrow> quiet w w'"
  unfolding panic_scheduler_def
  by (erule quiet_call_all) (auto simp: panic_runtime_def split: option.splits intro: quiet_call)

lemma quiet_reset_source: "reset_source ops i reason sc w = (w', raised) \<Longrightarrow> quiet w w'"
  unfolding reset_source_def
  by (erule quiet_call_all) (auto split: option.splits intro: quiet_call)

lemma quiet_reset_all: "reset_all ops reason sc w = (sc', w', raised) \<Longrightarrow>
    quiet w w' \<and> sc_plan sc' = sc_plan sc \<and> sc_runtimes sc' = sc_runtimes sc"
  unfolding reset_all_def
  by (auto split: prod.splits option.splits elim!: quiet_call_all intro: quiet_call)

lemma quiet_run_node: "run_node ops sc ctx n t = (t', raised) \<Longrightarrow> quiet (tk_world t) (tk_world t')"
proof (erule run_node_cases)
  fix inputs u outputs assume "node_outputs ops sc ctx n inputs t = (u, outputs)" "t' = finish_node n outputs u"
  then show ?thesis
    by (auto simp: node_outputs_def invoke_node_def Let_def quiet_def created_refs_def closed_refs_def fmlookup_dom_iff
        split: if_splits option.splits sum.splits prod.splits bind_splits)
qed simp_all

lemma quiet_tick:
  assumes "execute_tick ops ctx v sc w = (sc', w', r)"
  shows "quiet w w' \<and> sc_plan sc' = sc_plan sc \<and> sc_runtimes sc' = sc_runtimes sc"
proof -
  obtain t raised where t: "run_nodes ops sc ctx (ep_nodes (sc_plan sc)) (start_tick sc v w) = (t, raised)" by fastforce
  have "run_nodes ops sc ctx ns u = (t, raised) \<Longrightarrow> quiet (tk_world u) (tk_world t)" for ns u t raised
    by (induction rule: run_nodes_induct) (auto dest: quiet_run_node intro: quiet_trans)
  from this [OF t] assms t show ?thesis by (auto simp: execute_tick_def start_tick_def)
qed

section \<open>Every step keeps the invariant\<close>

lemma compiled_plan:
  assumes "registry_ok registry" and "compile registry s roots = Inr r" and "cr_plan r = Some p"
  shows "plan_sound p \<and> (\<forall>n \<in> set (ep_nodes p). dict_ok (cn_input_bindings n) \<and> dict_ok (cn_output_types n) \<and>
    cn_is_static n = (cn_clock_id n = None \<and> ec_cache_policy (cn_definition n) \<noteq> NEVER))"
proof -
  from compile_plans [OF assms(1), of s roots] assms(2) have "has_plan registry s r" by auto
  then obtain s' a st requested where p: "valid_analysis registry s' requested a st"
    "list_all2 (compiled_ok a) (an_order a) (ep_nodes p)" using assms(3) unfolding has_plan_def by auto
  have "\<exists>i. compiled_ok a i n" if "n \<in> set (ep_nodes p)" for n
    using p(2) that by (auto simp: list_all2_conv_all_nth in_set_conv_nth)
  then have "dict_ok (cn_input_bindings n) \<and> dict_ok (cn_output_types n) \<and>
    cn_is_static n = (cn_clock_id n = None \<and> ec_cache_policy (cn_definition n) \<noteq> NEVER)"
    if "n \<in> set (ep_nodes p)" for n
    using that unfolding compiled_ok_def Let_def by blast
  with plan_of_valid(1) [OF p] show ?thesis by blast
qed

lemma prepare_ok:
  assumes "registry_ok registry" and "world_ok w"
    and "facade_prepare ops registry s roots reason f w = (r, w')"
  shows "world_ok w' \<and> next_runtime w \<le> next_runtime w' \<and>
    (case r of
       Inl x \<Rightarrow> closed_refs w' = closed_refs w @ [next_runtime w..<next_runtime w']
     | Inr p \<Rightarrow> closed_refs w' = closed_refs w \<and> candidate_refs (Some p) = [next_runtime w..<next_runtime w'] \<and>
         candidate_ok f p)"
proof -
  obtain result where result: "compile registry s roots = Inr result" using compile_plans [OF assms(1)] by blast
  show ?thesis
  proof (cases "cr_plan result")
    case None
    then have "r = Inr \<lparr>pa_result = result, pa_scheduler = None, pa_committed = False\<rparr>" "w' = w"
      using assms(3) result by (simp_all add: facade_prepare_def)
    then show ?thesis using assms(2) by (simp add: candidate_refs_def candidate_ok_def)
  next
    case (Some plan)
    have d: "distinct (topological_node_ids plan)"
      using compiled_plan [OF assms(1) result Some] by (simp add: plan_sound_def)
    show ?thesis
    proof (cases "reusable_runtimes plan (ef_scheduler f) (reason = PLAN_REPLACED)")
      case (Inl e)
      then have "r = Inl (Inl e)" "w' = w"
        using assms(3) result Some by (simp_all add: facade_prepare_def prepare_replacement_def)
      then show ?thesis using assms(2) by simp
    next
      case (Inr reusable)
      obtain x v where x: "scheduler_init ops plan reusable w = (x, v)" by fastforce
      note init = scheduler_init_ok [OF x assms(2) d]
      show ?thesis
      proof (cases x)
        case (Inl m)
        then have "r = Inl (Inr m)" "w' = v"
          using assms(3) result Some Inr x by (simp_all add: facade_prepare_def prepare_replacement_def)
        with init Inl show ?thesis by simp
      next
        case (Inr sc)
        then have r: "r = Inr \<lparr>pa_result = result, pa_scheduler = Some sc, pa_committed = False\<rparr>" "w' = v"
          using assms(3) result Some \<open>reusable_runtimes _ _ _ = _\<close> x
          by (simp_all add: facade_prepare_def prepare_replacement_def)
        have "\<exists>prev r. ef_scheduler f = Some prev \<and> dict_get (sc_runtimes prev) i = Some r \<and> dict_get (sc_runtimes sc) i = Some r"
          if i: "i \<in> sc_borrowed sc" for i
        proof -
          have "i \<in> fst ` set (sc_runtimes sc)" using init Inr i by auto
          then obtain r where "dict_get (sc_runtimes sc) i = Some r" using dict_get_None_iff [of "sc_runtimes sc" i] by blast
          moreover from this have "dict_get reusable i = Some r" using init Inr i by simp
          ultimately show ?thesis using reusable_from_previous [OF \<open>reusable_runtimes _ _ _ = _\<close>] by blast
        qed
        with init Inr r Some show ?thesis by (simp add: candidate_refs_def candidate_ok_def)
      qed
    qed
  qed
qed

lemma borrowed_same:
  assumes "dict_ok a" and "dict_ok b" and "\<forall>i \<in> B. \<exists>r. dict_get a i = Some r \<and> dict_get b i = Some r"
  shows "mset (filter (\<lambda>(i, r). i \<in> B) a) = mset (filter (\<lambda>(i, r). i \<in> B) b)"
proof -
  have "distinct a" "distinct b" using assms(1,2) by (simp_all add: dict_ok_def distinct_map)
  moreover have "(i, r) \<in> set a \<longleftrightarrow> (i, r) \<in> set b" if "i \<in> B" for i r
    using assms(3) that dict_get_eq_Some [OF assms(1), of i r] dict_get_eq_Some [OF assms(2), of i r] by fastforce
  then have "set (filter (\<lambda>(i, r). i \<in> B) a) = set (filter (\<lambda>(i, r). i \<in> B) b)" by auto
  ultimately show ?thesis by (intro set_eq_iff_mset_eq_distinct [THEN iffD1]) simp_all
qed

lemma split_refs:
  "mset (map snd d) = mset (map snd (filter (\<lambda>(i, r). i \<notin> B) d)) + image_mset snd (mset (filter (\<lambda>(i, r). i \<in> B) d))"
  by (induction d) auto

lemma commit_ok:
  assumes inv: "engine_inv e" and p: "en_candidate e = Some p"
    and c: "facade_commit ops reason p (en_facade e) (en_world e) = (Inr (f, p'), w)"
  shows "engine_inv \<lparr>en_facade = f, en_candidate = None, en_world = w\<rparr>"
proof -
  let ?w = "en_world e" and ?f = "en_facade e"
  have cand: "candidate_ok ?f p" and wok: "world_ok ?w" and fok: "facade_ok ?f" using inv p by (simp_all add: engine_inv_def)
  then obtain sc plan where sc: "pa_scheduler p = Some sc" "cr_plan (pa_result p) = Some plan"
    using c by (auto simp: facade_commit_def candidate_ok_def split: option.splits)
  have nc: "pa_committed p = False" and plan: "plan = sc_plan sc" and ok: "dict_ok (sc_runtimes sc)"
    "fst ` set (sc_runtimes sc) = set (topological_node_ids (sc_plan sc))"
    using cand sc by (simp_all add: candidate_ok_def)
  have own: "candidate_refs (en_candidate e) = owned sc" using p sc by (simp add: candidate_refs_def)
  show ?thesis
  proof (cases "ef_scheduler ?f")
    case None
    then have "sc_borrowed sc = {}" using cand sc by (auto simp: candidate_ok_def)
    then have "owned sc = refs sc" by (simp add: owned_def refs_def split_beta)
    moreover have "f = ?f\<lparr>ef_plan := Some plan, ef_scheduler := Some sc\<rparr>" "w = ?w"
      using c sc nc None by (simp_all add: facade_commit_def)
    ultimately show ?thesis
      using inv own None ok plan by (simp add: engine_inv_def active_refs_def facade_ok_def)
  next
    case (Some prev)
    let ?B = "sc_borrowed sc" and ?prev = "prev\<lparr>sc_runtimes := filter (\<lambda>(i, r). i \<notin> sc_borrowed sc) (sc_runtimes prev)\<rparr>"
    have b: "\<forall>i \<in> ?B. \<exists>r. dict_get (sc_runtimes prev) i = Some r \<and> dict_get (sc_runtimes sc) i = Some r"
      using cand sc Some by (auto simp: candidate_ok_def)
    have f: "f = ?f\<lparr>ef_plan := Some plan, ef_scheduler := Some (sc\<lparr>sc_borrowed := {}\<rparr>)\<rparr>"
      and w: "w = snd (close_scheduler ops (Some reason) ?prev ?w)"
      using c sc nc Some by (auto simp: facade_commit_def claim_borrowed_runtimes_def split: if_splits)
    have prev_ok: "dict_ok (sc_runtimes prev)" using fok Some by (simp add: facade_ok_def)
    have all: "distinct (closed_refs ?w @ refs prev @ owned sc)" "set (closed_refs ?w @ refs prev @ owned sc) = {..<next_runtime ?w}"
      using inv Some own by (simp_all add: engine_inv_def active_refs_def)
    have "mset (refs prev) + mset (owned sc) = mset (refs ?prev) + mset (refs sc)"
      using split_refs [of "sc_runtimes prev" ?B] split_refs [of "sc_runtimes sc" ?B] borrowed_same [OF prev_ok ok(1) b]
      by (simp add: refs_def owned_def)
    then have m: "mset (closed_refs ?w @ refs prev @ owned sc) = mset (closed_refs ?w @ refs ?prev @ refs sc)" by simp
    have lt: "\<forall>r \<in> set (refs ?prev). r < next_runtime ?w"
      using all(2) mset_eq_setD [OF m] by auto
    have w': "world_ok w" "next_runtime w = next_runtime ?w" "closed_refs w = closed_refs ?w @ refs ?prev"
      using close_scheduler_ok [OF wok lt surjective_pairing, of ops "Some reason"] unfolding w by simp_all
    have "active_refs f = refs sc" by (simp add: f active_refs_def refs_def)
    moreover have "distinct (closed_refs ?w @ refs ?prev @ refs sc)"
      using all(1) mset_eq_imp_distinct_iff [OF m] by blast
    moreover have "set (closed_refs ?w @ refs ?prev @ refs sc) = {..<next_runtime ?w}"
      using all(2) mset_eq_setD [OF m] by blast
    moreover have "facade_ok f" using ok plan by (simp add: f facade_ok_def)
    ultimately show ?thesis using w' by (simp add: engine_inv_def)
  qed
qed

lemma discard_ok:
  assumes inv: "engine_inv e" and p: "en_candidate e = Some p" and c: "prepared_close ops p (en_world e) = (p', w)"
  shows "engine_inv (e\<lparr>en_candidate := None, en_world := w\<rparr>)"
proof (cases "pa_scheduler p")
  case None
  then show ?thesis using inv p c by (simp add: prepared_close_def engine_inv_def candidate_refs_def)
next
  case (Some sc)
  have nc: "\<not> pa_committed p" and wok: "world_ok (en_world e)" using inv p by (simp_all add: engine_inv_def candidate_ok_def)
  have own: "candidate_refs (en_candidate e) = owned sc" using p Some by (simp add: candidate_refs_def)
  have w: "w = snd (cancel_prepared ops sc (en_world e))" using c Some nc by (simp add: prepared_close_def)
  have "\<forall>r \<in> set (owned sc). r < next_runtime (en_world e)" using inv own by (auto simp: engine_inv_def)
  from cancel_prepared_ok [OF wok this surjective_pairing] have
    "world_ok w" "next_runtime w = next_runtime (en_world e)" "closed_refs w = closed_refs (en_world e) @ owned sc"
    by (simp_all add: w)
  with inv own show ?thesis by (auto simp: engine_inv_def)
qed

lemma shutdown_ok:
  assumes inv: "engine_inv e" and none: "en_candidate e = None" and sc: "ef_scheduler (en_facade e) = Some sc"
    and q: "quiet (en_world e) v" and w: "w = snd (close_scheduler ops reason sc v)"
  shows "engine_inv (e\<lparr>en_facade := (en_facade e)\<lparr>ef_plan := None, ef_scheduler := None\<rparr>, en_world := w\<rparr>)"
proof -
  have wok: "world_ok v" using inv quiet_ok [OF q] by (simp add: engine_inv_def)
  have v: "next_runtime v = next_runtime (en_world e)" "closed_refs v = closed_refs (en_world e)" using q by (simp_all add: quiet_def)
  have "\<forall>r \<in> set (refs sc). r < next_runtime v" using inv sc v by (auto simp: engine_inv_def active_refs_def)
  from close_scheduler_ok [OF wok this surjective_pairing, of ops reason] have
    "world_ok w" "next_runtime w = next_runtime (en_world e)" "closed_refs w = closed_refs (en_world e) @ refs sc"
    by (simp_all add: w v)
  with inv sc none show ?thesis
    by (simp add: engine_inv_def active_refs_def facade_ok_def)
qed

text \<open>A block of new references beside the old ones.\<close>

lemma extend_refs:
  assumes "distinct (xs @ ys)" and "set (xs @ ys) = {..<n :: nat}" and "n \<le> m"
  shows "distinct (xs @ ys @ [n..<m]) \<and> set (xs @ ys @ [n..<m]) = {..<m} \<and>
    distinct ((xs @ [n..<m]) @ ys) \<and> set ((xs @ [n..<m]) @ ys) = {..<m}"
proof -
  have old: "set xs \<union> set ys = {..<n}" using assms(2) by simp
  have "{..<n} \<inter> {n..<m} = {}" by auto
  then have d: "set xs \<inter> {n..<m} = {}" "set ys \<inter> {n..<m} = {}" unfolding old [symmetric] by blast+
  have u: "set xs \<union> set ys \<union> {n..<m} = {..<m}" unfolding old using assms(3) by (rule ivl_disj_un_one(2))
  have x: "distinct xs" "distinct ys" "set xs \<inter> set ys = {}" using assms(1) by simp_all
  show ?thesis
    unfolding distinct_append set_append set_upt using d u x distinct_upt [of n m] by blast
qed

lemma engine_inv_step:
  assumes "engine_step ops registry e e'" and "engine_inv e" and "registry_ok registry"
  shows "engine_inv e'"
  using assms(1)
proof cases
  case (prepare s roots reason p w)
  have wok: "world_ok (en_world e)" using assms(2) by (simp add: engine_inv_def)
  from prepare_ok [OF assms(3) wok prepare(3)] have
    r: "world_ok w" "next_runtime (en_world e) \<le> next_runtime w" "closed_refs w = closed_refs (en_world e)"
      "candidate_refs (Some p) = [next_runtime (en_world e)..<next_runtime w]" "candidate_ok (en_facade e) p" by simp_all
  have "distinct (closed_refs (en_world e) @ active_refs (en_facade e))"
    "set (closed_refs (en_world e) @ active_refs (en_facade e)) = {..<next_runtime (en_world e)}" "facade_ok (en_facade e)"
    using assms(2) prepare(2) by (simp_all add: engine_inv_def)
  from extend_refs [OF this(1,2) r(2)] this(3) r show ?thesis
    unfolding prepare engine_inv_def by simp
next
  case (prepare_fails s roots reason x w)
  have wok: "world_ok (en_world e)" using assms(2) by (simp add: engine_inv_def)
  from prepare_ok [OF assms(3) wok prepare_fails(3)] have
    r: "world_ok w" "next_runtime (en_world e) \<le> next_runtime w"
      "closed_refs w = closed_refs (en_world e) @ [next_runtime (en_world e)..<next_runtime w]" by simp_all
  have "distinct (closed_refs (en_world e) @ active_refs (en_facade e))"
    "set (closed_refs (en_world e) @ active_refs (en_facade e)) = {..<next_runtime (en_world e)}" "facade_ok (en_facade e)"
    using assms(2) prepare_fails(2) by (simp_all add: engine_inv_def)
  from extend_refs [OF this(1,2) r(2)] this(3) r prepare_fails(2) show ?thesis
    unfolding prepare_fails(1) engine_inv_def by simp
next
  case (commit p reason f p' w)
  then show ?thesis using commit_ok assms(2) by simp
next
  case (discard p p' w)
  then show ?thesis using discard_ok assms(2) by simp
next
  case (tick ctx v f w r)
  show ?thesis
  proof (cases "ef_scheduler (en_facade e)")
    case None
    then have "f = en_facade e" "w = en_world e" using tick by (simp_all add: facade_tick_def)
    with tick assms(2) show ?thesis by simp
  next
    case (Some sc)
    obtain sc' w' r' where t: "execute_tick ops (ctx\<lparr>publish_generation := ef_generation (en_facade e) + 1\<rparr>) v sc (en_world e) = (sc', w', r')"
      using prod_cases3 by blast
    then have "f = (en_facade e)\<lparr>ef_generation := ef_generation (en_facade e) + 1, ef_scheduler := Some sc'\<rparr>" "w = w'"
      using tick Some by (simp_all add: facade_tick_def)
    with quiet_tick [OF t] Some show ?thesis
      unfolding tick by (intro engine_inv_quiet [OF assms(2)]) simp_all
  qed
next
  case (reset_one i reason w r)
  then have "quiet (en_world e) w"
    by (auto simp: facade_reset_source_def split: option.splits intro: quiet_reset_source)
  from engine_inv_quiet [OF assms(2) this, of "en_facade e"] show ?thesis
    unfolding reset_one by (simp add: option.rel_refl)
next
  case (reset_every reason f w r)
  show ?thesis
  proof (cases "ef_scheduler (en_facade e)")
    case None
    then have "f = en_facade e" "w = en_world e" using reset_every by (simp_all add: facade_reset_all_def)
    with reset_every assms(2) show ?thesis by simp
  next
    case (Some sc)
    obtain sc' w' r' where t: "reset_all ops reason sc (en_world e) = (sc', w', r')" using prod_cases3 by blast
    then have "f = (en_facade e)\<lparr>ef_scheduler := Some sc'\<rparr>" "w = w'"
      using reset_every Some by (simp_all add: facade_reset_all_def)
    with quiet_reset_all [OF t] Some show ?thesis
      unfolding reset_every by (intro engine_inv_quiet [OF assms(2)]) simp_all
  qed
next
  case (panic w r)
  then have "quiet (en_world e) w"
    by (auto simp: facade_panic_def split: option.splits intro: quiet_panic)
  from engine_inv_quiet [OF assms(2) this, of "en_facade e"] show ?thesis
    unfolding panic by (simp add: option.rel_refl)
next
  case (stop reason f w r)
  show ?thesis
  proof (cases "ef_scheduler (en_facade e)")
    case None
    then have "f = (en_facade e)\<lparr>ef_plan := None, ef_scheduler := None\<rparr>" "w = en_world e"
      using stop by (simp_all add: facade_stop_def)
    with None assms(2) show ?thesis unfolding stop by (intro engine_inv_quiet) (simp_all add: engine_inv_def facade_ok_def)
  next
    case (Some sc)
    obtain v m where v: "panic_scheduler ops 0 sc (en_world e) = (v, m)" by fastforce
    then have "f = (en_facade e)\<lparr>ef_plan := None, ef_scheduler := None\<rparr>" "w = snd (close_scheduler ops (Some reason) sc v)"
      using stop Some by (simp_all add: facade_stop_def)
    with shutdown_ok [OF assms(2) stop(2) Some quiet_panic [OF v]] show ?thesis unfolding stop by simp
  qed
next
  case (close f w)
  show ?thesis
  proof (cases "ef_scheduler (en_facade e)")
    case None
    then have "f = (en_facade e)\<lparr>ef_plan := None, ef_scheduler := None\<rparr>" "w = en_world e"
      using close by (simp_all add: facade_close_def)
    with None assms(2) show ?thesis unfolding close by (intro engine_inv_quiet) (simp_all add: engine_inv_def facade_ok_def)
  next
    case (Some sc)
    then have "f = (en_facade e)\<lparr>ef_plan := None, ef_scheduler := None\<rparr>" "w = snd (close_scheduler ops None sc (en_world e))"
      using close by (simp_all add: facade_close_def)
    with shutdown_ok [OF assms(2) close(2) Some quiet_refl] show ?thesis unfolding close by simp
  qed
qed

lemma engine_inv_reachable: "engine_reachable ops registry e \<Longrightarrow> registry_ok registry \<Longrightarrow> engine_inv e"
  by (induction rule: engine_reachable.induct) (auto intro: engine_inv_start engine_inv_step)

end
