(* ===== verification/EngineReuse.thy ===== *)
theory EngineReuse
  imports EngineSafety
begin

text \<open>
  Which runtimes survive the replacement of a plan: \<open>prepare_replacement\<close> of
  \<^verbatim>\<open>runtime/scheduler.py\<close> against a declarative account.
\<close>

section \<open>Nodes whose state survives\<close>

text \<open>The previous plan has the node, with an equal retention key.\<close>

definition unchanged_in :: "scheduler \<Rightarrow> compiled_node \<Rightarrow> bool" where
  "unchanged_in prev n \<longleftrightarrow>
     (\<exists>old \<in> set (ep_nodes (sc_plan prev)). cn_node_id old = cn_node_id n \<and> same_retention old n = Inr True)"

text \<open>The node is unchanged and so is every source of the new plan that drives its clock.\<close>

definition keeps_state :: "scheduler \<Rightarrow> execution_plan \<Rightarrow> compiled_node \<Rightarrow> bool" where
  "keeps_state prev plan n \<longleftrightarrow> unchanged_in prev n \<and>
     (\<forall>s \<in> set (ep_nodes plan). ec_kind (cn_definition s) = SOURCE \<longrightarrow> cn_clock_id s = cn_clock_id n \<longrightarrow>
        unchanged_in prev s)"

section \<open>What the code computes\<close>

lemma previous_get:
  assumes "distinct (topological_node_ids (sc_plan prev))"
  shows "dict_get (previous_nodes prev) i = Some old \<longleftrightarrow> old \<in> set (ep_nodes (sc_plan prev)) \<and> cn_node_id old = i"
proof -
  have "dict_get (fold (\<lambda>n. dict_set (cn_node_id n) n) ns d) i = Some old \<longleftrightarrow>
      old \<in> set ns \<and> cn_node_id old = i \<or> i \<notin> cn_node_id ` set ns \<and> dict_get d i = Some old"
    if "distinct (map cn_node_id ns)" for ns :: "compiled_node list" and d
    using that
  proof (induction ns arbitrary: d)
    case (Cons n ns)
    have "dict_get (fold (\<lambda>n. dict_set (cn_node_id n) n) ns (dict_set (cn_node_id n) n d)) i = Some old \<longleftrightarrow>
      old \<in> set ns \<and> cn_node_id old = i \<or>
      i \<notin> cn_node_id ` set ns \<and> (if i = cn_node_id n then Some n else dict_get d i) = Some old"
      using Cons by simp
    moreover have "cn_node_id n \<notin> cn_node_id ` set ns" using Cons.prems by simp
    ultimately show ?case by (cases "i = cn_node_id n") auto
  qed simp
  from this [of "ep_nodes (sc_plan prev)" "[]"] assms show ?thesis
    by (simp add: previous_nodes_def topological_node_ids_def)
qed

lemma unchanged_iff:
  assumes "distinct (topological_node_ids (sc_plan prev))"
  shows "unchanged_in prev n \<longleftrightarrow>
    (\<exists>old. dict_get (previous_nodes prev) (cn_node_id n) = Some old \<and> same_retention old n = Inr True)"
  unfolding unchanged_in_def previous_get [OF assms] by blast

lemma source_invalidated_iff:
  assumes "distinct (topological_node_ids (sc_plan prev))" and "source_invalidated (previous_nodes prev) n = Inr gone"
  shows "gone \<longleftrightarrow> ec_kind (cn_definition n) = SOURCE \<and> \<not> unchanged_in prev n"
proof (cases "ec_kind (cn_definition n) = SOURCE")
  case False
  with assms(2) show ?thesis by (simp add: source_invalidated_def)
next
  case True
  show ?thesis
  proof (cases "dict_get (previous_nodes prev) (cn_node_id n)")
    case None
    with True assms show ?thesis by (simp add: source_invalidated_def unchanged_iff)
  next
    case (Some old)
    with True assms(2) obtain same where "same_retention old n = Inr same" "gone = (\<not> same)"
      by (auto simp: source_invalidated_def bind_res_eq_Inr simp del: map_of_eq_Some_iff)
    with True Some assms(1) show ?thesis by (simp add: unchanged_iff del: map_of_eq_Some_iff)
  qed
qed

lemma invalidated_exact:
  assumes "distinct (topological_node_ids (sc_plan prev))" and "invalidated_clocks (previous_nodes prev) ns = Inr clocks"
  shows "clocks = cn_clock_id ` {s \<in> set ns. ec_kind (cn_definition s) = SOURCE \<and> \<not> unchanged_in prev s}"
proof -
  have "foldM (\<lambda>n clocks. bind_res (source_invalidated (previous_nodes prev) n) (\<lambda>gone.
       Inr (if gone then insert (cn_clock_id n) clocks else clocks))) ns c = Inr clocks \<Longrightarrow>
     clocks = c \<union> cn_clock_id ` {s \<in> set ns. ec_kind (cn_definition s) = SOURCE \<and> \<not> unchanged_in prev s}" for c
  proof (induction ns arbitrary: c)
    case (Cons n ns)
    then obtain gone where g: "source_invalidated (previous_nodes prev) n = Inr gone"
      by (auto simp: bind_res_eq_Inr)
    let ?S = "\<lambda>ns. cn_clock_id ` {s \<in> set ns. ec_kind (cn_definition s) = SOURCE \<and> \<not> unchanged_in prev s}"
    have "?S (n # ns) = (if gone then insert (cn_clock_id n) (?S ns) else ?S ns)"
      using source_invalidated_iff [OF assms(1) g] by auto
    moreover have "clocks = (if gone then insert (cn_clock_id n) c else c) \<union> ?S ns"
      using Cons.IH Cons.prems g by simp
    ultimately show ?case by (cases gone) auto
  qed simp
  from this [of "{}"] assms(2) show ?thesis by (simp add: invalidated_clocks_def)
qed

lemma reuse_step:
  assumes "distinct (topological_node_ids (sc_plan prev))"
    and "reuse_node prev (previous_nodes prev) clocks n d = Inr d'"
  shows "dict_get d' i = (if i = cn_node_id n \<and> unchanged_in prev n \<and> cn_clock_id n \<notin> clocks \<and>
     dict_get (sc_runtimes prev) i \<noteq> None then dict_get (sc_runtimes prev) i else dict_get d i)"
proof (cases "dict_get (previous_nodes prev) (cn_node_id n)")
  case None
  with assms have "d' = d" "\<not> unchanged_in prev n" by (simp_all add: reuse_node_def unchanged_iff)
  then show ?thesis by simp
next
  case (Some old)
  with assms(2) obtain same where same: "same_retention old n = Inr same"
    by (auto simp: reuse_node_def bind_res_eq_Inr simp del: map_of_eq_Some_iff)
  then have u: "unchanged_in prev n \<longleftrightarrow> same" using Some by (simp add: unchanged_iff [OF assms(1)] del: map_of_eq_Some_iff)
  show ?thesis
  proof (cases "same \<and> cn_clock_id n \<notin> clocks")
    case True
    with assms(2) Some same u show ?thesis
      by (cases "dict_get (sc_runtimes prev) (cn_node_id n)") (auto simp: reuse_node_def simp del: map_of_eq_Some_iff)
  next
    case False
    with assms(2) Some same have "d' = d" by (auto simp: reuse_node_def simp del: map_of_eq_Some_iff)
    with False u show ?thesis by auto
  qed
qed

lemma reuse_all:
  assumes "distinct (topological_node_ids (sc_plan prev))"
    and "foldM (reuse_node prev (previous_nodes prev) clocks) ns d = Inr reusable" and "distinct (map cn_node_id ns)"
    and "n \<in> set ns" and "dict_get d (cn_node_id n) = None"
  shows "dict_get reusable (cn_node_id n) = (if unchanged_in prev n \<and> cn_clock_id n \<notin> clocks
     then dict_get (sc_runtimes prev) (cn_node_id n) else None)"
  using assms(2-5)
proof (induction ns arbitrary: d)
  case (Cons m ns)
  then obtain d' where d': "reuse_node prev (previous_nodes prev) clocks m d = Inr d'"
    "foldM (reuse_node prev (previous_nodes prev) clocks) ns d' = Inr reusable"
    by (auto simp: bind_res_eq_Inr)
  note step = reuse_step [OF assms(1) d'(1)]
  have keep: "dict_get reusable i = dict_get e i"
    if "foldM (reuse_node prev (previous_nodes prev) clocks) ks e = Inr reusable" "i \<notin> cn_node_id ` set ks" for ks e i
    using that
  proof (induction ks arbitrary: e)
    case (Cons k ks)
    then obtain e' where "reuse_node prev (previous_nodes prev) clocks k e = Inr e'"
      "foldM (reuse_node prev (previous_nodes prev) clocks) ks e' = Inr reusable"
      by (auto simp: bind_res_eq_Inr)
    with Cons.IH [of e'] Cons.prems(2) reuse_step [OF assms(1), of clocks k e e' i] show ?case by simp
  qed simp
  show ?case
  proof (cases "n = m")
    case True
    then have "dict_get reusable (cn_node_id n) = dict_get d' (cn_node_id n)"
      using keep [OF d'(2)] Cons.prems(2) by simp
    with step [of "cn_node_id n"] True Cons.prems(4) show ?thesis by simp
  next
    case False
    then have n: "n \<in> set ns" using Cons.prems(3) by simp
    have "cn_node_id m \<notin> cn_node_id ` set ns" using Cons.prems(2) by simp
    then have "cn_node_id n \<noteq> cn_node_id m" using n by (metis image_eqI)
    then have "dict_get d' (cn_node_id n) = None" using step [of "cn_node_id n"] Cons.prems(4) by simp
    with Cons.IH [OF d'(2) _ n] Cons.prems(2) show ?thesis by simp
  qed
qed simp

lemma reusable_exact:
  assumes "distinct (topological_node_ids (sc_plan prev))" and "distinct (topological_node_ids plan)"
    and "reusable_runtimes plan (Some prev) keep = Inr reusable" and "n \<in> set (ep_nodes plan)"
  shows "dict_get reusable (cn_node_id n) =
    (if keep \<and> keeps_state prev plan n then dict_get (sc_runtimes prev) (cn_node_id n) else None)"
proof (cases keep)
  case False
  with assms(3) show ?thesis by (simp add: reusable_runtimes_def)
next
  case True
  with assms(3) obtain clocks where c: "invalidated_clocks (previous_nodes prev) (ep_nodes plan) = Inr clocks"
    "foldM (reuse_node prev (previous_nodes prev) clocks) (ep_nodes plan) [] = Inr reusable"
    by (auto simp: reusable_runtimes_def bind_res_eq_Inr)
  have "keeps_state prev plan n \<longleftrightarrow> unchanged_in prev n \<and> cn_clock_id n \<notin> clocks"
    unfolding keeps_state_def invalidated_exact [OF assms(1) c(1)] by (auto simp: image_iff)
  with reuse_all [OF assms(1) c(2) _ assms(4)] assms(2) True show ?thesis by (simp add: topological_node_ids_def)
qed

lemma adopt_borrowed:
  assumes "adopt_runtimes ops reusable ns sc w = (sc', w', None)"
  shows "sc_borrowed sc' = sc_borrowed sc \<union> {i \<in> cn_node_id ` set ns. dict_get reusable i \<noteq> None}"
  using assms
proof (induction ns arbitrary: sc w)
  case (Cons n ns)
  show ?case
  proof (cases "dict_get reusable (cn_node_id n)")
    case None
    then obtain s r v where "adopt_runtimes ops reusable ns (sc\<lparr>sc_runtimes := dict_set (cn_node_id n) r (sc_runtimes sc)\<rparr>) v =
        (sc', w', None)"
      using Cons.prems by (auto split: sum.splits prod.splits)
    from Cons.IH [OF this] None show ?thesis by auto
  next
    case (Some r)
    then have "adopt_runtimes ops reusable ns (sc\<lparr>sc_borrowed := insert (cn_node_id n) (sc_borrowed sc),
              sc_runtimes := dict_set (cn_node_id n) r (sc_runtimes sc)\<rparr>) w = (sc', w', None)"
      using Cons.prems by simp
    from Cons.IH [OF this] Some show ?thesis by auto
  qed
qed simp

lemma init_borrowed:
  assumes "scheduler_init ops plan reusable w = (Inr sc, w')"
  shows "sc_borrowed sc = {i \<in> set (topological_node_ids plan). dict_get reusable i \<noteq> None}"
proof -
  have "adopt_runtimes ops reusable (ep_nodes plan)
      \<lparr>sc_plan = plan, sc_runtimes = [], sc_borrowed = {}, sc_static_cache = fmempty\<rparr> w = (sc, w', None)"
    using assms unfolding scheduler_init_def by (auto split: prod.splits option.splits)
  from adopt_borrowed [OF this] show ?thesis by (simp add: topological_node_ids_def)
qed

text \<open>
  The runtimes of a prepared replacement: those of the previous plan where state is kept, and new
  ones elsewhere.
\<close>

lemma replacement_runtimes:
  assumes "prepare_replacement ops plan (Some prev) keep w = (Inr (Inr sc), w')" and "world_ok w"
    and "distinct (topological_node_ids (sc_plan prev))" and "distinct (topological_node_ids plan)"
    and "set (topological_node_ids (sc_plan prev)) \<subseteq> fst ` set (sc_runtimes prev)"
    and n: "n \<in> set (ep_nodes plan)"
  shows "if keep \<and> keeps_state prev plan n
    then dict_get (sc_runtimes sc) (cn_node_id n) = dict_get (sc_runtimes prev) (cn_node_id n)
    else \<exists>r \<ge> next_runtime w. dict_get (sc_runtimes sc) (cn_node_id n) = Some r"
proof -
  let ?i = "cn_node_id n"
  obtain reusable where r: "reusable_runtimes plan (Some prev) keep = Inr reusable"
    "scheduler_init ops plan reusable w = (Inr sc, w')"
    using assms(1) by (auto simp: prepare_replacement_def split: sum.splits prod.splits)
  have ok: "owned sc = [next_runtime w..<next_runtime w']" "dict_ok (sc_runtimes sc)"
    "fst ` set (sc_runtimes sc) = set (topological_node_ids plan)"
    "\<forall>i \<in> sc_borrowed sc. dict_get (sc_runtimes sc) i = dict_get reusable i"
    using scheduler_init_ok [OF r(2) assms(2,4)] by simp_all
  note ru = reusable_exact [OF assms(3,4) r(1) n]
  have i: "?i \<in> set (topological_node_ids plan)" using n by (simp add: topological_node_ids_def)
  show ?thesis
  proof (cases "keep \<and> keeps_state prev plan n")
    case True
    then obtain old where "old \<in> set (ep_nodes (sc_plan prev))" "cn_node_id old = ?i"
      unfolding keeps_state_def unchanged_in_def by blast
    then have "?i \<in> set (topological_node_ids (sc_plan prev))"
      unfolding topological_node_ids_def by (metis image_eqI set_map)
    then have "dict_get (sc_runtimes prev) ?i \<noteq> None" using assms(5) by (auto simp: dict_get_None_iff)
    moreover have same: "dict_get reusable ?i = dict_get (sc_runtimes prev) ?i" using ru True by simp
    ultimately have "?i \<in> sc_borrowed sc" unfolding init_borrowed [OF r(2)] using i by simp
    with ok(4) same True show ?thesis by simp
  next
    case False
    have "dict_get reusable ?i = None" unfolding ru by (rule if_not_P [OF False])
    then have nb: "?i \<notin> sc_borrowed sc" unfolding init_borrowed [OF r(2)] by simp
    obtain x where x: "dict_get (sc_runtimes sc) ?i = Some x"
      using i ok(3) by (metis dict_get_None_iff not_None_eq)
    then have "x \<in> set (owned sc)" using nb ok(2) by (force simp: owned_def dict_get_eq_Some)
    then have "next_runtime w \<le> x" unfolding ok(1) by simp
    then show ?thesis unfolding if_not_P [OF False] using x by blast
  qed
qed

end
