(* ===== verification/SchedulerCache.thy ===== *)
theory SchedulerCache
  imports SchedulerFacts
begin

text \<open>
  The static cache of the scheduler is an optimisation: as long as static nodes are pure, ticks
  with the cache publish the values that ticks from an empty cache would publish, raise what they
  would raise and leave every runtime in the same state.
\<close>

section \<open>Pure runtimes\<close>

definition pure_runtime :: "'s runtime_ops \<Rightarrow> 's \<Rightarrow> bool" where
  "pure_runtime ops s \<longleftrightarrow> (\<forall>inputs params ctx ctx'. ro_process ops s inputs params ctx = (s, snd (ro_process ops s inputs params ctx')))"

lemma settle_outputs_ctx:
  "result_outputs n (settle_outputs n ctx r) = result_outputs n (settle_outputs n ctx' r)"
  by (auto simp: result_outputs_def settle_outputs_def split: sum.splits option.splits)

lemma pure_call:
  assumes "pure_runtime ops s"
  shows "fst (node_call ops ctx n inputs s) = s"
    and "result_outputs n (snd (node_call ops ctx n inputs s)) = result_outputs n (snd (node_call ops ctx' n inputs s))"
proof -
  have p: "ro_process ops s i params c = (s, snd (ro_process ops s i params ctx))" for i params c
    using assms unfolding pure_runtime_def by blast
  have eq: "invoke_runtime ops c n inputs s = (s, settle_outputs n c (case effective_parameters n inputs of
      Inl e \<Rightarrow> Inl e | Inr (params, i) \<Rightarrow> snd (ro_process ops s i params ctx)))" for c
    unfolding invoke_runtime_def by (subst p) (auto split: sum.split prod.split)
  show "fst (node_call ops ctx n inputs s) = s" by (simp add: node_call_def eq)
  show "result_outputs n (snd (node_call ops ctx n inputs s)) = result_outputs n (snd (node_call ops ctx' n inputs s))"
    unfolding node_call_def eq by (simp add: settle_outputs_ctx [of n ctx _ ctx'])
qed

section \<open>What the cache holds\<close>

definition cacheable :: "compiled_node \<Rightarrow> bool" where
  "cacheable n \<longleftrightarrow> cn_is_static n \<and> cn_is_demanded n"

text \<open>A static node reads from static nodes only.\<close>

definition static_closed :: "compiled_node list \<Rightarrow> bool" where
  "static_closed ns \<longleftrightarrow> (\<forall>n \<in> set ns. cacheable n \<longrightarrow> (\<forall>(q, b) \<in> set (cn_input_bindings n).
     \<exists>m \<in> set ns. cacheable m \<and> own_key m (ib_source b)))"

definition static_pure :: "'s runtime_ops \<Rightarrow> scheduler \<Rightarrow> 's world \<Rightarrow> compiled_node list \<Rightarrow> bool" where
  "static_pure ops sc w ns \<longleftrightarrow> (\<forall>n \<in> set ns. cn_is_static n \<longrightarrow> (\<exists>s. runtime_at sc w n = Some s \<and> pure_runtime ops s))"

text \<open>The cache entry of a node is what the node answers to the cached inputs.\<close>

definition entry_exact :: "'s runtime_ops \<Rightarrow> scheduler \<Rightarrow> 's world \<Rightarrow> port_values \<Rightarrow> compiled_node \<Rightarrow> bool" where
  "entry_exact ops sc w c n \<longleftrightarrow> (\<forall>k. own_key n k \<longrightarrow> k |\<in>| fmdom c) \<and>
     (\<forall>(q, b) \<in> set (cn_input_bindings n). ib_source b |\<in>| fmdom c) \<and>
     (\<exists>inputs s. gather_inputs c n = Inr inputs \<and> runtime_at sc w n = Some s \<and>
        (\<forall>ctx k. own_key n k \<longrightarrow>
           fmlookup c k = Some (answer_of (result_outputs n (snd (node_call ops ctx n inputs s))) (pk_port k))))"

lemma entry_exactD:
  assumes "entry_exact ops sc w c n" and "gather_inputs c n = Inr inputs" and "runtime_at sc w n = Some s" and "own_key n k"
  shows "fmlookup c k = Some (answer_of (result_outputs n (snd (node_call ops ctx n inputs s))) (pk_port k))"
proof -
  from assms(1) obtain i t where "gather_inputs c n = Inr i" "runtime_at sc w n = Some t"
    "\<forall>ctx k. own_key n k \<longrightarrow> fmlookup c k = Some (answer_of (result_outputs n (snd (node_call ops ctx n i t))) (pk_port k))"
    unfolding entry_exact_def by blast
  with assms(2-4) show ?thesis by simp
qed

definition cache_exact :: "'s runtime_ops \<Rightarrow> scheduler \<Rightarrow> 's world \<Rightarrow> compiled_node list \<Rightarrow> port_values \<Rightarrow> bool" where
  "cache_exact ops sc w ns c \<longleftrightarrow>
     (\<forall>k. k |\<in>| fmdom c \<longrightarrow> (\<exists>n \<in> set ns. cacheable n \<and> own_key n k)) \<and>
     (\<forall>n \<in> set ns. \<forall>k. own_key n k \<longrightarrow> k |\<in>| fmdom c \<longrightarrow> entry_exact ops sc w c n)"

lemma cache_exact_empty: "cache_exact ops sc w ns fmempty"
  by (simp add: cache_exact_def)

lemma entry_exact_grow:
  assumes "entry_exact ops sc w c n" and "\<And>k. k |\<in>| fmdom c \<Longrightarrow> fmlookup c' k = fmlookup c k"
    and "runtime_at sc w' n = runtime_at sc w n"
  shows "entry_exact ops sc w' c' n"
proof -
  have dom: "k |\<in>| fmdom c' \<and> fmlookup c' k = fmlookup c k" if "k |\<in>| fmdom c" for k
    using assms(2) [OF that] that by (auto simp: fmlookup_dom_iff)
  have "gather_inputs c' n = gather_inputs c n"
  proof (rule gather_cong)
    fix q b assume "(q, b) \<in> set (cn_input_bindings n)"
    then have "ib_source b |\<in>| fmdom c" using assms(1) by (auto simp: entry_exact_def)
    with dom show "read_port c' (ib_source b) = read_port c (ib_source b)" by (simp add: read_port_def)
  qed
  then show ?thesis using assms(1,3) dom unfolding entry_exact_def by fastforce
qed

section \<open>A tick with the cache beside a tick without\<close>

text \<open>
  The relation between the two ticks when \<open>ds\<close> are processed and \<open>ns\<close> are not.
\<close>

definition agree :: "'s runtime_ops \<Rightarrow> scheduler \<Rightarrow> compiled_node list \<Rightarrow> compiled_node list \<Rightarrow> 's tick_state \<Rightarrow> 's tick_state \<Rightarrow> bool" where
  "agree ops sc ds ns a b \<longleftrightarrow> tk_world a = tk_world b \<and>
     (\<forall>k. (\<forall>n \<in> set ns. cacheable n \<longrightarrow> \<not> own_key n k) \<longrightarrow> fmlookup (tk_values a) k = fmlookup (tk_values b) k) \<and>
     (\<forall>n \<in> set ns. cacheable n \<longrightarrow> (\<forall>k. own_key n k \<longrightarrow>
        fmlookup (tk_values a) k = fmlookup (tk_cache a) k \<and> fmlookup (tk_values b) k = None)) \<and>
     (\<forall>n \<in> set ds. cacheable n \<longrightarrow> (\<forall>k. own_key n k \<longrightarrow>
        fmlookup (tk_values a) k = fmlookup (tk_cache a) k \<and> k |\<in>| fmdom (tk_cache a))) \<and>
     cache_exact ops sc (tk_world a) (ds @ ns) (tk_cache a) \<and>
     static_pure ops sc (tk_world a) (ds @ ns)"

definition plan_ordered :: "scheduler \<Rightarrow> 's world \<Rightarrow> compiled_node list \<Rightarrow> bool" where
  "plan_ordered sc w ns \<longleftrightarrow> distinct (map cn_node_id ns) \<and> reads_back ns \<and> static_closed ns \<and>
     (\<forall>n \<in> set ns. runtime_at sc w n \<noteq> None) \<and>
     (\<forall>i j r. dict_get (sc_runtimes sc) i = Some r \<longrightarrow> dict_get (sc_runtimes sc) j = Some r \<longrightarrow> i = j)"

lemma reads_back_append:
  "reads_back (ds @ ns) \<Longrightarrow> reads_back ns"
  by (induction ds) auto

lemma distinct_images: "distinct (map f xs) \<Longrightarrow> x \<in> set xs \<Longrightarrow> y \<in> set xs \<Longrightarrow> x \<noteq> y \<Longrightarrow> f x \<noteq> f y"
  by (auto simp: distinct_map inj_on_def)

lemma agreeD:
  assumes "agree ops sc ds ns a b"
  shows "tk_world a = tk_world b" and "cache_exact ops sc (tk_world a) (ds @ ns) (tk_cache a)"
    and "static_pure ops sc (tk_world a) (ds @ ns)"
    and "(\<And>n. n \<in> set ns \<Longrightarrow> cacheable n \<Longrightarrow> \<not> own_key n k) \<Longrightarrow> fmlookup (tk_values a) k = fmlookup (tk_values b) k"
    and "n \<in> set ns \<Longrightarrow> cacheable n \<Longrightarrow> own_key n k \<Longrightarrow> fmlookup (tk_values a) k = fmlookup (tk_cache a) k"
    and "n \<in> set ns \<Longrightarrow> cacheable n \<Longrightarrow> own_key n k \<Longrightarrow> fmlookup (tk_values b) k = None"
    and "n \<in> set ds \<Longrightarrow> cacheable n \<Longrightarrow> own_key n k \<Longrightarrow>
      fmlookup (tk_values a) k = fmlookup (tk_cache a) k \<and> k |\<in>| fmdom (tk_cache a)"
  using assms unfolding agree_def by blast+

lemma own_unique:
  assumes "distinct (map cn_node_id ns)" and "m \<in> set ns" and "n \<in> set ns" and "own_key m k" and "own_key n k"
  shows "m = n"
  using assms own_key_same_node [OF assms(4,5)] by (auto simp: distinct_map inj_on_def)

text \<open>What \<open>agree\<close> gives for the next node.\<close>

lemma agree_next:
  assumes ag: "agree ops sc ds (n # ns) a b" and ord: "plan_ordered sc (tk_world a) (ds @ n # ns)"
  shows "\<not> cacheable n \<Longrightarrow> own_key n k \<Longrightarrow> fmlookup (tk_values a) k = fmlookup (tk_values b) k"
    and "gather_inputs (tk_values a) n = gather_inputs (tk_values b) n"
    and "cacheable n \<Longrightarrow> gather_inputs (tk_values a) n = gather_inputs (tk_cache a) n"
    and "cacheable n \<Longrightarrow> (q, c) \<in> set (cn_input_bindings n) \<Longrightarrow> ib_source c |\<in>| fmdom (tk_cache a)"
proof -
  have d: "distinct (map cn_node_id (ds @ n # ns))" and rb: "reads_back (n # ns)"
    and closed: "static_closed (ds @ n # ns)"
    using ord reads_back_append unfolding plan_ordered_def by blast+
  have same: "fmlookup (tk_values a) k = fmlookup (tk_values b) k"
    if "\<forall>m \<in> set (n # ns). cacheable m \<longrightarrow> \<not> own_key m k" for k
    using ag that unfolding agree_def by blast
  show "\<not> cacheable n \<Longrightarrow> own_key n k \<Longrightarrow> fmlookup (tk_values a) k = fmlookup (tk_values b) k"
    using same [of k] own_unique [OF d, of _ n k] by auto
  have source: "\<not> own_key m (ib_source c)" if "(q, c) \<in> set (cn_input_bindings n)" "m \<in> set (n # ns)" for q c m
    using rb that by fastforce
  show "gather_inputs (tk_values a) n = gather_inputs (tk_values b) n"
    by (rule gather_cong) (use same source in \<open>simp add: read_port_def\<close>)
  have static: "fmlookup (tk_values a) (ib_source c) = fmlookup (tk_cache a) (ib_source c) \<and> ib_source c |\<in>| fmdom (tk_cache a)"
    if "cacheable n" "(q, c) \<in> set (cn_input_bindings n)" for q c
  proof -
    from closed that obtain m where m: "m \<in> set (ds @ n # ns)" "cacheable m" "own_key m (ib_source c)"
      unfolding static_closed_def by fastforce
    with source [OF that(2), of m] have "m \<in> set ds" by auto
    with ag m show ?thesis unfolding agree_def by blast
  qed
  show "cacheable n \<Longrightarrow> gather_inputs (tk_values a) n = gather_inputs (tk_cache a) n"
    by (rule gather_cong) (use static in \<open>simp add: read_port_def\<close>)
  show "cacheable n \<Longrightarrow> (q, c) \<in> set (cn_input_bindings n) \<Longrightarrow> ib_source c |\<in>| fmdom (tk_cache a)"
    using static by blast
qed

text \<open>A node that is not static acts alike in both ticks and leaves the cache and the other runtimes.\<close>

lemma agree_other:
  assumes ag: "agree ops sc ds (n # ns) a b" and ord: "plan_ordered sc (tk_world a) (ds @ n # ns)"
    and run: "run_node ops sc ctx n a = (a', None)" "run_node ops sc ctx n b = (b', None)" and nc: "\<not> cacheable n"
  shows "agree ops sc (ds @ [n]) ns a' b'"
proof (cases "due (tk_values a) n")
  case False
  moreover have "due (tk_values b) n = due (tk_values a) n" by (rule due_cong) (use agree_next(1) [OF ag ord nc] in simp)
  ultimately have "a' = a" "b' = b" using run_node_skips run by metis+
  moreover have "fmlookup (tk_values a) k = fmlookup (tk_values b) k" if "\<forall>m \<in> set ns. cacheable m \<longrightarrow> \<not> own_key m k" for k
    using agreeD(4) [OF ag, of k] that nc by auto
  moreover have "cache_exact ops sc (tk_world a) ((ds @ [n]) @ ns) (tk_cache a)" "static_pure ops sc (tk_world a) ((ds @ [n]) @ ns)"
    using agreeD(2,3) [OF ag] by simp_all
  moreover have "fmlookup (tk_values a) k = fmlookup (tk_cache a) k \<and> fmlookup (tk_values b) k = None"
    if "m \<in> set ns" "cacheable m" "own_key m k" for m k
    using agreeD(5,6) [OF ag, of m k] that by simp
  ultimately show ?thesis unfolding agree_def
    using agreeD(1) [OF ag] agreeD(7) [OF ag] nc by simp
next
  case True
  have d: "distinct (map cn_node_id (ds @ n # ns))" using ord unfolding plan_ordered_def by blast
  have due_b: "due (tk_values b) n"
    using True due_cong [of n "tk_values a" "tk_values b"] agree_next(1) [OF ag ord nc] by blast
  note w = agreeD(1) [OF ag]
  have ns: "\<not> cn_is_static n" using nc True by (simp add: cacheable_def due_def)
  obtain r s where r: "dict_get (sc_runtimes sc) (cn_node_id n) = Some r" "runtime_at sc (tk_world a) n = Some s"
    using ord unfolding plan_ordered_def by (auto simp: runtime_at_def split: bind_split_asm)
  obtain inputs s' x where ea: "gather_inputs (tk_values a) n = Inr inputs" "node_call ops ctx n inputs s = (s', x)"
    "tk_values a' = publish_outputs n (result_outputs n x) (tk_values a)" "tk_cache a' = tk_cache a"
    "tk_world a' = (tk_world a)\<lparr>cells := fmupd r s' (cells (tk_world a))\<rparr>"
    using run_node_effect [OF run(1) True r(2,1)] unfolding if_not_P [OF ns] by blast
  have rb: "runtime_at sc (tk_world b) n = Some s" using r(2) by (simp only: w)
  from run_node_effect [OF run(2) due_b rb r(1)] obtain inputs2 s2 x2 where
    eb2: "gather_inputs (tk_values b) n = Inr inputs2" "node_call ops ctx n inputs2 s = (s2, x2)"
    "tk_values b' = publish_outputs n (result_outputs n x2) (tk_values b)"
    "tk_world b' = (tk_world b)\<lparr>cells := fmupd r s2 (cells (tk_world b))\<rparr>" by blast
  have "inputs2 = inputs" using eb2(1) ea(1) agree_next(2) [OF ag ord] by simp
  then have "s2 = s'" "x2 = x" using eb2(2) ea(2) by simp_all
  then have eb: "tk_values b' = publish_outputs n (result_outputs n x) (tk_values b)" "tk_world b' = tk_world a'"
    using eb2(3,4) ea(5) w by simp_all
  have rt: "runtime_at sc (tk_world a') m = runtime_at sc (tk_world a) m" if "m \<in> set (ds @ n # ns)" "m \<noteq> n" for m
  proof (rule run_node_world [OF run(1)])
    show "cn_node_id m \<noteq> cn_node_id n" by (rule distinct_images [OF d that(1) _ that(2)]) simp
  qed (use ord r in \<open>auto simp: plan_ordered_def\<close>)
  have own: "\<not> own_key n k" if "m \<in> set (ds @ ns)" "cacheable m" "own_key m k" for m k
    using own_unique [OF d, of m n k] that nc by auto
  have exact: "entry_exact ops sc (tk_world a') (tk_cache a) m"
    if m: "m \<in> set (ds @ n # ns)" "own_key m k" "k |\<in>| fmdom (tk_cache a)" for m k
  proof -
    note ce = agreeD(2) [OF ag]
    then obtain m' where "m' \<in> set (ds @ n # ns)" "cacheable m'" "own_key m' k"
      using m(3) unfolding cache_exact_def by blast
    with own_unique [OF d m(1) this(1) m(2)] nc have "m \<noteq> n" by blast
    moreover have "entry_exact ops sc (tk_world a) (tk_cache a) m" using ce m unfolding cache_exact_def by blast
    ultimately show ?thesis using entry_exact_grow rt [OF m(1)] by blast
  qed
  show ?thesis
    unfolding agree_def
  proof (intro conjI allI impI ballI)
    show "tk_world a' = tk_world b'" by (simp add: eb)
    show "fmlookup (tk_values a') k = fmlookup (tk_values b') k"
      if "\<forall>m \<in> set ns. cacheable m \<longrightarrow> \<not> own_key m k" for k
      using agreeD(4) [OF ag, of k] that nc by (auto simp: ea(3) eb(1) publish_lookup)
    show "fmlookup (tk_values a') k = fmlookup (tk_cache a') k" if "m \<in> set ns" "cacheable m" "own_key m k" for m k
      using agreeD(5) [OF ag, of m k] that own [of m k] by (auto simp: ea(3,4) publish_lookup)
    show "fmlookup (tk_values b') k = None" if "m \<in> set ns" "cacheable m" "own_key m k" for m k
      using agreeD(6) [OF ag, of m k] that own [of m k] by (auto simp: eb(1) publish_lookup)
    show "fmlookup (tk_values a') k = fmlookup (tk_cache a') k" if "m \<in> set (ds @ [n])" "cacheable m" "own_key m k" for m k
      using agreeD(7) [OF ag, of m k] that own [of m k] nc by (auto simp: ea(3,4) publish_lookup)
    show "k |\<in>| fmdom (tk_cache a')" if "m \<in> set (ds @ [n])" "cacheable m" "own_key m k" for m k
      using agreeD(7) [OF ag, of m k] that nc by (auto simp: ea(4))
    from agreeD(2) [OF ag] exact show "cache_exact ops sc (tk_world a') ((ds @ [n]) @ ns) (tk_cache a')"
      unfolding cache_exact_def ea(4) by auto
    have "\<exists>s. runtime_at sc (tk_world a') m = Some s \<and> pure_runtime ops s" if "m \<in> set (ds @ n # ns)" "cn_is_static m" for m
    proof -
      have "m \<noteq> n" using that(2) ns by blast
      with agreeD(3) [OF ag] rt [OF that(1)] that show ?thesis unfolding static_pure_def by simp
    qed
    then show "static_pure ops sc (tk_world a') ((ds @ [n]) @ ns)" unfolding static_pure_def by simp
  qed
qed

text \<open>A static node: the cached tick skips what the other recomputes, or both compute it.\<close>

lemma pure_world:
  assumes "runtime_at sc w n = Some s" and "dict_get (sc_runtimes sc) (cn_node_id n) = Some r"
  shows "w\<lparr>cells := fmupd r s (cells w)\<rparr> = w"
proof -
  have "fmlookup (cells w) r = Some s" using assms by (simp add: runtime_at_def)
  then have "fmupd r s (cells w) = cells w" by (intro fmap_ext) auto
  then show ?thesis by simp
qed

lemma agree_static:
  assumes ag: "agree ops sc ds (n # ns) a b" and ord: "plan_ordered sc (tk_world a) (ds @ n # ns)"
    and run: "run_node ops sc ctx n a = (a', None)" "run_node ops sc ctx n b = (b', None)" and st: "cacheable n"
  shows "agree ops sc (ds @ [n]) ns a' b'"
proof -
  have d: "distinct (map cn_node_id (ds @ n # ns))" using ord unfolding plan_ordered_def by blast
  note w = agreeD(1) [OF ag] and ce = agreeD(2) [OF ag]
  have is_static: "cn_is_static n" and demanded: "cn_is_demanded n" using st by (simp_all add: cacheable_def)
  obtain r s where r: "dict_get (sc_runtimes sc) (cn_node_id n) = Some r" "runtime_at sc (tk_world a) n = Some s"
    using ord unfolding plan_ordered_def by (auto simp: runtime_at_def split: bind_split_asm)
  have pure: "pure_runtime ops s"
    using agreeD(3) [OF ag] is_static r(2) unfolding static_pure_def by auto
  have rb: "runtime_at sc (tk_world b) n = Some s" using r(2) by (simp only: w)
  have none_b: "fmlookup (tk_values b) k = None" if "own_key n k" for k by (rule agreeD(6) [OF ag _ st that]) simp
  have va: "fmlookup (tk_values a) k = fmlookup (tk_cache a) k" if "own_key n k" for k by (rule agreeD(5) [OF ag _ st that]) simp
  have due_b: "due (tk_values b) n"
  proof (rule ccontr)
    assume "\<not> due (tk_values b) n"
    with demanded have cached: "cn_output_types n \<noteq> []" "\<forall>k. own_key n k \<longrightarrow> k |\<in>| fmdom (tk_values b)"
      by (auto simp: due_def outputs_cached_iff)
    then obtain p t where "dict_get (cn_output_types n) p = Some t" by (cases "cn_output_types n") force+
    then have "own_key n (PortKey (cn_node_id n) p)" by (simp add: own_key_def)
    with cached(2) none_b show False by (auto simp: fmlookup_dom_iff)
  qed
  from run_node_effect [OF run(2) due_b rb r(1)] obtain inputs s2 x where
    eb: "gather_inputs (tk_values b) n = Inr inputs" "node_call ops ctx n inputs s = (s2, x)"
    "tk_values b' = publish_outputs n (result_outputs n x) (tk_values b)"
    "tk_world b' = (tk_world b)\<lparr>cells := fmupd r s2 (cells (tk_world b))\<rparr>" by blast
  have "s2 = s" using pure_call(1) [OF pure, of ctx n inputs] eb(2) by simp
  then have wb: "tk_world b' = tk_world a" using eb(4) pure_world [OF rb r(1)] w by simp
  let ?ans = "\<lambda>k. answer_of (result_outputs n x) (pk_port k)"
  have ga: "gather_inputs (tk_cache a) n = Inr inputs"
    using eb(1) agree_next(2,3) [OF ag ord] st by simp
  have wa: "tk_world a' = tk_world a \<and> (\<forall>k. fmlookup (tk_values a') k = (if own_key n k then Some (?ans k) else fmlookup (tk_values a) k)) \<and>
    (\<forall>k. fmlookup (tk_cache a') k = (if own_key n k then Some (?ans k) else fmlookup (tk_cache a) k)) \<and>
    (\<forall>k. k |\<in>| fmdom (tk_cache a) \<longrightarrow> fmlookup (tk_cache a') k = fmlookup (tk_cache a) k)"
  proof (cases "due (tk_values a) n")
    case False
    with demanded have cached: "cn_output_types n \<noteq> []" "\<forall>k. own_key n k \<longrightarrow> k |\<in>| fmdom (tk_values a)"
      by (auto simp: due_def outputs_cached_iff)
    from False have a': "a' = a" using run_node_skips run(1) by metis
    from cached(1) obtain p t where "dict_get (cn_output_types n) p = Some t" by (cases "cn_output_types n") force+
    then have o: "own_key n (PortKey (cn_node_id n) p)" by (simp add: own_key_def)
    with cached(2) va have "PortKey (cn_node_id n) p |\<in>| fmdom (tk_cache a)" by (auto simp: fmlookup_dom_iff)
    with ce o have "entry_exact ops sc (tk_world a) (tk_cache a) n" unfolding cache_exact_def by auto
    then have "fmlookup (tk_cache a) k = Some (?ans k)" if "own_key n k" for k
      using entry_exactD [OF _ ga r(2) that, of ops ctx] eb(2) by simp
    then show ?thesis using va a' by simp
  next
    case True
    from run_node_effect [OF run(1) True r(2,1)] obtain inputs3 s3 x3 where
      ea: "gather_inputs (tk_values a) n = Inr inputs3" "node_call ops ctx n inputs3 s = (s3, x3)"
      "tk_values a' = publish_outputs n (result_outputs n x3) (tk_values a)"
      "tk_cache a' = cache_outputs n (tk_values a') (tk_cache a)"
      "tk_world a' = (tk_world a)\<lparr>cells := fmupd r s3 (cells (tk_world a))\<rparr>" using is_static by auto
    have "inputs3 = inputs" using ea(1) eb(1) agree_next(2) [OF ag ord] by simp
    then have x3: "s3 = s" "x3 = x" using ea(2) eb(2) \<open>s2 = s\<close> by simp_all
    have fresh: "\<not> own_key n k" if "k |\<in>| fmdom (tk_cache a)" for k
    proof
      assume o: "own_key n k"
      with ce that have "entry_exact ops sc (tk_world a) (tk_cache a) n" unfolding cache_exact_def by auto
      then have "\<forall>k. own_key n k \<longrightarrow> k |\<in>| fmdom (tk_values a)" using va by (auto simp: entry_exact_def fmlookup_dom_iff)
      moreover have "cn_output_types n \<noteq> []" using o by (auto simp: own_key_def)
      ultimately show False using True by (simp add: due_def outputs_cached_iff)
    qed
    have "tk_world a' = tk_world a" using ea(5) x3(1) pure_world [OF r(2,1)] by simp
    moreover have "fmlookup (tk_values a') k = (if own_key n k then Some (?ans k) else fmlookup (tk_values a) k)" for k
      unfolding ea(3) x3(2) by (simp add: publish_lookup)
    moreover have "fmlookup (tk_cache a') k = (if own_key n k then Some (?ans k) else fmlookup (tk_cache a) k)" for k
      unfolding ea(4) cache_outputs_lookup by (simp add: read_port_def ea(3) x3(2) publish_lookup)
    ultimately show ?thesis using fresh by simp
  qed
  have keep: "fmlookup (tk_cache a') k = fmlookup (tk_cache a) k" if "k |\<in>| fmdom (tk_cache a)" for k
    using wa that by blast
  have other: "\<not> own_key n k" if "m \<in> set (ds @ ns)" "own_key m k" for m k
  proof
    assume "own_key n k"
    with own_unique [OF d, of m n k] that have "m = n" by auto
    with that(1) d show False by auto
  qed
  have exact: "entry_exact ops sc (tk_world a') (tk_cache a') m"
    if m: "m \<in> set (ds @ n # ns)" "own_key m k" "k |\<in>| fmdom (tk_cache a')" for m k
  proof (cases "m = n")
    case True
    have "gather_inputs (tk_cache a') n = Inr inputs"
    proof -
      have "gather_inputs (tk_cache a') n = gather_inputs (tk_cache a) n"
        by (rule gather_cong) (simp add: read_port_def keep [OF agree_next(4) [OF ag ord st]])
      with ga show ?thesis by simp
    qed
    moreover have "result_outputs n (snd (node_call ops ctx' n inputs s)) = result_outputs n x" for ctx'
      using pure_call(2) [OF pure, of n ctx' inputs ctx] eb(2) by simp
    moreover have "ib_source c |\<in>| fmdom (tk_cache a')" if "(q, c) \<in> set (cn_input_bindings n)" for q c
      using agree_next(4) [OF ag ord st that] wa by (auto simp: fmlookup_dom_iff)
    moreover have "runtime_at sc (tk_world a') n = Some s" using wa r(2) by simp
    moreover have own: "fmlookup (tk_cache a') k = Some (?ans k)" if "own_key n k" for k using wa that by simp
    then have "k |\<in>| fmdom (tk_cache a')" if "own_key n k" for k using that by (simp add: fmlookup_dom_iff)
    ultimately show ?thesis using True own unfolding entry_exact_def by auto
  next
    case False
    with m(1) have "m \<in> set (ds @ ns)" by auto
    with other m(2,3) wa have "k |\<in>| fmdom (tk_cache a)" by (auto simp: fmlookup_dom_iff)
    with ce m(1,2) have "entry_exact ops sc (tk_world a) (tk_cache a) m" unfolding cache_exact_def by blast
    then show ?thesis by (rule entry_exact_grow) (use wa keep in simp_all)
  qed
  show ?thesis
    unfolding agree_def
  proof (intro conjI allI impI ballI)
    show "tk_world a' = tk_world b'" using wa wb by simp
    show "fmlookup (tk_values a') k = fmlookup (tk_values b') k"
      if "\<forall>m \<in> set ns. cacheable m \<longrightarrow> \<not> own_key m k" for k
      using agreeD(4) [OF ag, of k] that wa by (auto simp: eb(3) publish_lookup)
    show "fmlookup (tk_values a') k = fmlookup (tk_cache a') k" if "m \<in> set ns" "cacheable m" "own_key m k" for m k
      using agreeD(5) [OF ag, of m k] that other [of m k] wa by auto
    show "fmlookup (tk_values b') k = None" if "m \<in> set ns" "cacheable m" "own_key m k" for m k
      using agreeD(6) [OF ag, of m k] that other [of m k] by (auto simp: eb(3) publish_lookup)
    show "fmlookup (tk_values a') k = fmlookup (tk_cache a') k" if "m \<in> set (ds @ [n])" "cacheable m" "own_key m k" for m k
      using agreeD(7) [OF ag, of m k] that other [of m k] wa by (cases "m = n") auto
    show "k |\<in>| fmdom (tk_cache a')" if "m \<in> set (ds @ [n])" "cacheable m" "own_key m k" for m k
      using agreeD(7) [OF ag, of m k] that other [of m k] wa by (cases "m = n") (auto simp: fmlookup_dom_iff)
    have "\<exists>m \<in> set (ds @ n # ns). cacheable m \<and> own_key m k" if "k |\<in>| fmdom (tk_cache a')" for k
      using ce wa that st unfolding cache_exact_def by (cases "own_key n k") (auto simp: fmlookup_dom_iff)
    with exact show "cache_exact ops sc (tk_world a') ((ds @ [n]) @ ns) (tk_cache a')"
      unfolding cache_exact_def by auto
    from agreeD(3) [OF ag] wa show "static_pure ops sc (tk_world a') ((ds @ [n]) @ ns)" by simp
  qed
qed

section \<open>Whole ticks\<close>

lemma run_node_present_runtimes:
  assumes "run_node ops sc ctx n t = (u, raised)" and "runtime_at sc (tk_world t) n \<noteq> None"
    and "runtime_at sc (tk_world t) m \<noteq> None"
  shows "runtime_at sc (tk_world u) m \<noteq> None"
proof (cases "due (tk_values t) n \<and> raised = None")
  case True
  obtain r s where r: "dict_get (sc_runtimes sc) (cn_node_id n) = Some r" "runtime_at sc (tk_world t) n = Some s"
    using assms(2) by (auto simp: runtime_at_def split: bind_split_asm)
  from run_node_effect [OF _ conjunct1 [OF True] r(2,1)] assms(1) True obtain s' where
    "tk_world u = (tk_world t)\<lparr>cells := fmupd r s' (cells (tk_world t))\<rparr>" by blast
  with assms(3) show ?thesis by (auto simp: runtime_at_def split: bind_split_asm)
next
  case False
  then have "u = t" using run_node_skips [OF assms(1)] run_node_gathers(2) [OF assms(1)] by blast
  with assms(3) show ?thesis by simp
qed

lemma agree_raises:
  assumes ag: "agree ops sc ds (n # ns) a b" and ord: "plan_ordered sc (tk_world a) (ds @ n # ns)"
    and run: "run_node ops sc ctx n a = (a', ra)" "run_node ops sc ctx n b = (b', rb)"
  shows "ra = rb"
proof (cases "cacheable n")
  case False
  have d: "due (tk_values b) n = due (tk_values a) n" by (rule due_cong) (use agree_next(1) [OF ag ord False] in simp)
  show ?thesis
  proof (cases "due (tk_values a) n")
    case True
    then show ?thesis
      using run_node_gathers(1) [OF run(1) True] run_node_gathers(1) [OF run(2)] d agree_next(2) [OF ag ord] by simp
  next
    case False
    then show ?thesis using run_node_skips [OF run(1)] run_node_skips [OF run(2)] d by simp
  qed
next
  case st: True
  have rb: "rb = (case gather_inputs (tk_values a) n of Inl e \<Rightarrow> Some e | Inr _ \<Rightarrow> None)" if "due (tk_values b) n"
    using run_node_gathers(1) [OF run(2) that] agree_next(2) [OF ag ord] by simp
  have none_b: "fmlookup (tk_values b) k = None" if "own_key n k" for k by (rule agreeD(6) [OF ag _ st that]) simp
  have va: "fmlookup (tk_values a) k = fmlookup (tk_cache a) k" if "own_key n k" for k by (rule agreeD(5) [OF ag _ st that]) simp
  show ?thesis
  proof (cases "due (tk_values a) n")
    case True
    then have "due (tk_values b) n"
      using none_b by (auto simp: due_def outputs_cached_iff fmlookup_dom_iff)
    then show ?thesis using rb run_node_gathers(1) [OF run(1) True] by simp
  next
    case False
    with st have cached: "cn_output_types n \<noteq> []" "\<forall>k. own_key n k \<longrightarrow> k |\<in>| fmdom (tk_values a)"
      by (auto simp: due_def outputs_cached_iff cacheable_def)
    then obtain p t where "dict_get (cn_output_types n) p = Some t" by (cases "cn_output_types n") force+
    then have o: "own_key n (PortKey (cn_node_id n) p)" by (simp add: own_key_def)
    with cached(2) va have "PortKey (cn_node_id n) p |\<in>| fmdom (tk_cache a)" by (auto simp: fmlookup_dom_iff)
    with agreeD(2) [OF ag] o have "entry_exact ops sc (tk_world a) (tk_cache a) n" unfolding cache_exact_def by auto
    then obtain inputs where "gather_inputs (tk_cache a) n = Inr inputs" by (auto simp: entry_exact_def)
    then have "gather_inputs (tk_values a) n = Inr inputs" using agree_next(3) [OF ag ord st] by simp
    then have "rb = None" using rb run_node_skips [OF run(2)] by (cases "due (tk_values b) n") auto
    then show ?thesis using run_node_skips [OF run(1) False] by simp
  qed
qed

lemma agree_nodes:
  assumes "agree ops sc ds ns a b" and "plan_ordered sc (tk_world a) (ds @ ns)"
    and "run_nodes ops sc ctx ns a = (a', ra)" and "run_nodes ops sc ctx ns b = (b', rb)"
  shows "ra = rb \<and> tk_world a' = tk_world b' \<and> cache_exact ops sc (tk_world a') (ds @ ns) (tk_cache a') \<and>
    static_pure ops sc (tk_world a') (ds @ ns) \<and> plan_ordered sc (tk_world a') (ds @ ns) \<and>
    (ra = None \<longrightarrow> tk_values a' = tk_values b')"
  using assms
proof (induction ns arbitrary: ds a b)
  case Nil
  from Nil.prems(3,4) have "a' = a" "b' = b" "ra = None" "rb = None" by simp_all
  then show ?case using agreeD [OF Nil.prems(1)] Nil.prems(2) by (auto intro: fmap_ext)
next
  case (Cons n ns)
  note ag = Cons.prems(1) and ord = Cons.prems(2)
  obtain u x where u: "run_node ops sc ctx n a = (u, x)" by fastforce
  obtain v y where v: "run_node ops sc ctx n b = (v, y)" by fastforce
  have xy: "y = x" using agree_raises [OF ag ord u v] by simp
  show ?case
  proof (cases x)
    case (Some e)
    with u v xy have "u = a" "v = b" using run_node_raises by metis+
    then show ?thesis using Cons.prems(3,4) Some u v xy agreeD [OF ag] ord by auto
  next
    case None
    have rest: "run_nodes ops sc ctx ns u = (a', ra)" "run_nodes ops sc ctx ns v = (b', rb)"
      using Cons.prems(3,4) None u v xy by simp_all
    have ag': "agree ops sc (ds @ [n]) ns u v"
      using agree_other [OF ag ord] agree_static [OF ag ord] u v xy None by (cases "cacheable n") auto
    have "runtime_at sc (tk_world u) m \<noteq> None" if "m \<in> set (ds @ n # ns)" for m
      by (rule run_node_present_runtimes [OF u]) (use ord that in \<open>auto simp: plan_ordered_def\<close>)
    then have ord': "plan_ordered sc (tk_world u) ((ds @ [n]) @ ns)"
      using ord unfolding plan_ordered_def by simp
    from Cons.IH [OF ag' ord' rest] show ?thesis unfolding append.assoc append_Cons append_Nil by blast
  qed
qed

text \<open>A run of ticks that keeps the cache, and one that forgets it before every tick.\<close>

fun run_ticks :: "'s runtime_ops \<Rightarrow> (frame_context \<times> port_values) list \<Rightarrow> scheduler \<Rightarrow> 's world \<Rightarrow>
    port_values res list \<times> scheduler \<times> 's world" where
  "run_ticks ops [] sc w = ([], sc, w)"
| "run_ticks ops ((ctx, v) # ticks) sc w =
     (case execute_tick ops ctx v sc w of (sc, w, r) \<Rightarrow>
      case run_ticks ops ticks sc w of (rs, sc, w) \<Rightarrow> (map_sum id tr_values r # rs, sc, w))"

definition forget_cache :: "scheduler \<Rightarrow> scheduler" where
  "forget_cache sc = sc\<lparr>sc_static_cache := fmempty\<rparr>"

fun run_ticks_uncached :: "'s runtime_ops \<Rightarrow> (frame_context \<times> port_values) list \<Rightarrow> scheduler \<Rightarrow> 's world \<Rightarrow>
    port_values res list \<times> scheduler \<times> 's world" where
  "run_ticks_uncached ops [] sc w = ([], sc, w)"
| "run_ticks_uncached ops ((ctx, v) # ticks) sc w =
     (case execute_tick ops ctx v (forget_cache sc) w of (sc, w, r) \<Rightarrow>
      case run_ticks_uncached ops ticks sc w of (rs, sc, w) \<Rightarrow> (map_sum id tr_values r # rs, sc, w))"

text \<open>The scheduler is passed to the nodes for its runtimes only.\<close>

lemma run_node_scheduler:
  "run_node ops (sc\<lparr>sc_static_cache := c\<rparr>) ctx n t = run_node ops sc ctx n t"
  by (simp add: run_node_def node_outputs_def invoke_node_def cong: if_cong sum.case_cong)

lemma run_nodes_scheduler:
  "run_nodes ops (sc\<lparr>sc_static_cache := c\<rparr>) ctx ns t = run_nodes ops sc ctx ns t"
  by (induction ns arbitrary: t) (simp_all add: run_node_scheduler)

lemma runtime_at_scheduler [simp]: "runtime_at (sc\<lparr>sc_static_cache := c\<rparr>) w n = runtime_at sc w n"
  by (simp add: runtime_at_def)

lemma scheduler_cache_irrelevant [simp]:
  "plan_ordered (sc\<lparr>sc_static_cache := c\<rparr>) w ns = plan_ordered sc w ns"
  "static_pure ops (sc\<lparr>sc_static_cache := c\<rparr>) w ns = static_pure ops sc w ns"
  "cache_exact ops (sc\<lparr>sc_static_cache := c\<rparr>) w ns d = cache_exact ops sc w ns d"
  by (simp_all add: plan_ordered_def static_pure_def cache_exact_def entry_exact_def)

text \<open>The engine supplies values of sources only.\<close>

definition feeds_sources :: "compiled_node list \<Rightarrow> port_values \<Rightarrow> bool" where
  "feeds_sources ns v \<longleftrightarrow> (\<forall>n \<in> set ns. cn_is_static n \<longrightarrow> (\<forall>k. own_key n k \<longrightarrow> k |\<notin>| fmdom v))"

lemma start_agree:
  assumes "plan_ordered sc w ns" and "static_pure ops sc w ns" and "cache_exact ops sc w ns (sc_static_cache sc)"
    and "feeds_sources ns v"
  shows "agree ops sc [] ns (start_tick sc v w) (start_tick (forget_cache sc) v w)"
proof -
  let ?c = "sc_static_cache sc"
  have fed: "fmlookup v k = None" if "n \<in> set ns" "cacheable n" "own_key n k" for n k
    using assms(4) that unfolding feeds_sources_def cacheable_def by (metis fmdom_notD)
  have owner: "fmlookup ?c k = None" if "\<forall>n \<in> set ns. cacheable n \<longrightarrow> \<not> own_key n k" for k
    using assms(3) that unfolding cache_exact_def by (metis fmdom_notD)
  show ?thesis
    unfolding agree_def
  proof (intro conjI allI impI ballI)
    show "fmlookup (tk_values (start_tick sc v w)) k = fmlookup (tk_values (start_tick (forget_cache sc) v w)) k"
      if "\<forall>n \<in> set ns. cacheable n \<longrightarrow> \<not> own_key n k" for k
      using owner [OF that] by (auto simp: start_tick_def forget_cache_def map_add_def split: option.split)
    show "fmlookup (tk_values (start_tick sc v w)) k = fmlookup (tk_cache (start_tick sc v w)) k"
      if "n \<in> set ns" "cacheable n" "own_key n k" for n k
      using fed [OF that] by (auto simp: start_tick_def fmlookup_dom_iff)
    show "fmlookup (tk_values (start_tick (forget_cache sc) v w)) k = None"
      if "n \<in> set ns" "cacheable n" "own_key n k" for n k
      using fed [OF that] by (simp add: start_tick_def forget_cache_def map_add_def)
  qed (use assms in \<open>simp_all add: start_tick_def forget_cache_def\<close>)
qed

lemma ticks_uncached:
  assumes "plan_ordered sc w ns" and "static_pure ops sc w ns" and "cache_exact ops sc w ns (sc_static_cache sc)"
    and "ep_nodes (sc_plan sc) = ns" and "\<forall>(ctx, v) \<in> set ticks. feeds_sources ns v"
  shows "\<exists>rs sa sb w'. run_ticks ops ticks sc w = (rs, sa, w') \<and>
    run_ticks_uncached ops ticks (sc\<lparr>sc_static_cache := d\<rparr>) w = (rs, sb, w')"
  using assms
proof (induction ticks arbitrary: sc w d)
  case (Cons tick ticks)
  obtain ctx v where tick: "tick = (ctx, v)" by (cases tick)
  have fs: "feeds_sources ns v" using Cons.prems(5) by (simp add: tick)
  obtain a ra where a: "run_nodes ops sc ctx ns (start_tick sc v w) = (a, ra)" by fastforce
  obtain b rb where b: "run_nodes ops sc ctx ns (start_tick (forget_cache sc) v w) = (b, rb)" by fastforce
  have "tk_world (start_tick sc v w) = w" by (simp add: start_tick_def)
  with agree_nodes [OF start_agree [OF Cons.prems(1-3) fs] _ a b] Cons.prems(1) have
    res: "ra = rb" "tk_world a = tk_world b" "cache_exact ops sc (tk_world a) ns (tk_cache a)"
      "static_pure ops sc (tk_world a) ns" "plan_ordered sc (tk_world a) ns" "ra = None \<Longrightarrow> tk_values a = tk_values b"
    by auto
  let ?sa = "sc\<lparr>sc_static_cache := tk_cache a\<rparr>"
  obtain rs sa sb w' where ih: "run_ticks ops ticks ?sa (tk_world a) = (rs, sa, w')"
    "run_ticks_uncached ops ticks (?sa\<lparr>sc_static_cache := tk_cache b\<rparr>) (tk_world a) = (rs, sb, w')"
    using Cons.IH [of ?sa "tk_world a" "tk_cache b"] Cons.prems(4,5) res by auto
  have forget: "forget_cache (sc\<lparr>sc_static_cache := d\<rparr>) = forget_cache sc" by (simp add: forget_cache_def)
  have eb: "execute_tick ops ctx v (forget_cache sc) w = (sc\<lparr>sc_static_cache := tk_cache b\<rparr>, tk_world b,
      case rb of Some e \<Rightarrow> Inl e | None \<Rightarrow> Inr \<lparr>tr_values = tk_values b, tr_errors = tk_errors b, tr_invocations = tk_invocations b\<rparr>)"
    using b by (simp add: execute_tick_def forget_cache_def run_nodes_scheduler Cons.prems(4))
  have ea: "execute_tick ops ctx v sc w = (?sa, tk_world a,
      case ra of Some e \<Rightarrow> Inl e | None \<Rightarrow> Inr \<lparr>tr_values = tk_values a, tr_errors = tk_errors a, tr_invocations = tk_invocations a\<rparr>)"
    using a by (simp add: execute_tick_def Cons.prems(4))
  show ?case
    using ih res(1,2,6) by (cases ra) (auto simp: tick ea eb forget)
qed simp

end
