(* ===== verification/EngineStamps.thy ===== *)
theory EngineStamps
  imports EngineFacade
begin

text \<open>
  What runtimes are told of generations: invariants of the states of runtimes over every operation
  of the engine, and runtimes which record the generation of every tick they take part in.
\<close>

section \<open>Invariants of runtime states\<close>

definition each_cell :: "(rt_ref \<Rightarrow> 's \<Rightarrow> bool) \<Rightarrow> 's world \<Rightarrow> bool" where
  "each_cell P w \<longleftrightarrow> (\<forall>r s. fmlookup (cells w) r = Some s \<longrightarrow> P r s)"

text \<open>The methods of a runtime but \<open>process\<close> keep a property of its state; new runtimes have it.\<close>

definition keeps :: "'s runtime_ops \<Rightarrow> (rt_ref \<Rightarrow> 's \<Rightarrow> bool) \<Rightarrow> bool" where
  "keeps ops P \<longleftrightarrow> (\<forall>r s. P r s \<longrightarrow> (\<forall>x. P r (fst (ro_reset ops s x))) \<and> P r (fst (ro_close ops s)) \<and>
     (\<forall>f g. ro_panic ops s = Some f \<longrightarrow> P r (fst (f g))))"

definition makes :: "'s runtime_ops \<Rightarrow> (rt_ref \<Rightarrow> 's \<Rightarrow> bool) \<Rightarrow> bool" where
  "makes ops P \<longleftrightarrow> (\<forall>d i s r. ro_create ops d i = Inr s \<longrightarrow> P r s)"

definition keeps_process :: "'s runtime_ops \<Rightarrow> frame_context \<Rightarrow> (rt_ref \<Rightarrow> 's \<Rightarrow> bool) \<Rightarrow> bool" where
  "keeps_process ops ctx P \<longleftrightarrow> (\<forall>r s inputs params. P r s \<longrightarrow> P r (fst (ro_process ops s inputs params ctx)))"

lemma cell_call:
  "each_cell P w \<Longrightarrow> (\<And>s. P r s \<Longrightarrow> P r (fst (f s))) \<Longrightarrow> each_cell P (fst (world_call f ev r w))"
  by (auto simp: each_cell_def world_call_def split: option.splits prod.splits) (metis fst_conv)

lemma cell_fold:
  "each_cell P w \<Longrightarrow> (\<And>x w. each_cell P w \<Longrightarrow> each_cell P (f x w)) \<Longrightarrow> each_cell P (fold f xs w)"
  by (induction xs arbitrary: w) auto

lemma cell_call_all:
  "each_cell P w \<Longrightarrow> (\<And>r w. each_cell P w \<Longrightarrow> each_cell P (fst (f r w))) \<Longrightarrow> each_cell P (fst (call_all f rs w))"
proof (induction rs arbitrary: w)
  case (Cons r rs)
  obtain w1 m where f: "f r w = (w1, m)" by fastforce
  with Cons.prems(2) [of w r] Cons.prems(1) have "each_cell P w1" by simp
  with Cons f show ?case by (cases m) simp_all
qed simp

lemma cell_close: "keeps ops P \<Longrightarrow> each_cell P w \<Longrightarrow> each_cell P (close_runtime ops r w)"
  unfolding close_runtime_def by (rule cell_call) (simp_all add: keeps_def)

lemma cell_reset: "keeps ops P \<Longrightarrow> each_cell P w \<Longrightarrow> each_cell P (fst (world_call (\<lambda>s. ro_reset ops s x) ev r w))"
  by (rule cell_call) (simp_all add: keeps_def)

lemma cell_close_scheduler: "keeps ops P \<Longrightarrow> each_cell P w \<Longrightarrow> each_cell P (snd (close_scheduler ops reason sc w))"
  unfolding close_scheduler_def snd_conv
  by (erule cell_fold) (auto simp: close_with_def intro!: cell_close cell_reset split: option.split)

lemma cell_cancel: "keeps ops P \<Longrightarrow> each_cell P w \<Longrightarrow> each_cell P (snd (cancel_prepared ops sc w))"
  unfolding cancel_prepared_def snd_conv by (erule cell_fold) (auto intro: cell_close)

lemma cell_panic:
  assumes "keeps ops P" and "each_cell P w"
  shows "each_cell P (fst (panic_scheduler ops g sc w))"
  unfolding panic_scheduler_def
proof (rule cell_call_all [OF assms(2)])
  fix r and w :: "'a world"
  assume w: "each_cell P w"
  show "each_cell P (fst (panic_runtime ops g r w))"
  proof (cases "fmlookup (cells w) r")
    case (Some s)
    show ?thesis
    proof (cases "ro_panic ops s")
      case (Some f)
      have "P r s" using w \<open>fmlookup (cells w) r = Some s\<close> by (simp add: each_cell_def)
      then have "P r (fst (f g))" using assms(1) Some unfolding keeps_def by blast
      then show ?thesis
        using w Some \<open>fmlookup (cells w) r = Some s\<close>
        by (auto simp: panic_runtime_def intro!: cell_call)
    qed (use w \<open>fmlookup (cells w) r = Some s\<close> in \<open>simp add: panic_runtime_def\<close>)
  qed (use w in \<open>simp add: panic_runtime_def\<close>)
qed

lemma cell_reset_source: "keeps ops P \<Longrightarrow> each_cell P w \<Longrightarrow> each_cell P (fst (reset_source ops i reason sc w))"
  unfolding reset_source_def by (erule cell_call_all) (auto intro!: cell_reset split: option.split)

lemma cell_reset_all:
  assumes "keeps ops P" and "each_cell P w"
  shows "each_cell P (fst (snd (reset_all ops reason sc w)))"
proof -
  let ?calls = "call_all (\<lambda>r. world_call (\<lambda>s. ro_reset ops s reason) (Reset r reason) r) (map snd (sc_runtimes sc)) w"
  have "each_cell P (fst ?calls)"
    by (rule cell_call_all [OF assms(2)]) (rule cell_reset [OF assms(1)])
  then show ?thesis by (cases ?calls) (simp add: reset_all_def split: option.split)
qed

lemma cell_adopt:
  "makes ops P \<Longrightarrow> each_cell P w \<Longrightarrow> each_cell P (fst (snd (adopt_runtimes ops reusable ns sc w)))"
proof (induction ns arbitrary: sc w)
  case (Cons n ns)
  show ?case
  proof (cases "dict_get reusable (cn_node_id n)")
    case None
    show ?thesis
    proof (cases "ro_create ops (cn_definition n) (cn_node_id n)")
      case (Inr s)
      then have "P r s" for r using Cons.prems(1) unfolding makes_def by blast
      then have "each_cell P (snd (world_create s w))"
        using Cons.prems(2) by (simp add: each_cell_def world_create_def)
      with Cons None Inr show ?thesis by (simp add: world_create_def)
    qed (use Cons.prems None in simp)
  qed (use Cons in simp)
qed simp

lemma cell_scheduler_init:
  assumes "keeps ops P" and "makes ops P" and "each_cell P w"
  shows "each_cell P (snd (scheduler_init ops plan reusable w))"
proof -
  let ?sc = "\<lparr>sc_plan = plan, sc_runtimes = [], sc_borrowed = {}, sc_static_cache = fmempty\<rparr>"
  obtain sc w1 m where a: "adopt_runtimes ops reusable (ep_nodes plan) ?sc w = (sc, w1, m)"
    using prod_cases3 by blast
  have "each_cell P w1" using cell_adopt [OF assms(2,3), of reusable "ep_nodes plan" ?sc] by (simp add: a)
  then have c: "each_cell P (snd (cancel_prepared ops sc w1))" by (rule cell_cancel [OF assms(1)])
  have "snd (scheduler_init ops plan reusable w) = (case m of None \<Rightarrow> w1 | Some x \<Rightarrow> snd (cancel_prepared ops sc w1))"
    unfolding scheduler_init_def a by (cases m) simp_all
  with c \<open>each_cell P w1\<close> show ?thesis by (cases m) simp_all
qed

subsection \<open>Ticks\<close>

lemma cell_invoke:
  assumes "keeps_process ops ctx P" and "each_cell P (tk_world t)"
  shows "each_cell P (tk_world (fst (invoke_node ops sc ctx n inputs t)))"
proof -
  have run: "P r (fst (invoke_runtime ops ctx n inputs s))" if "P r s" for r s
    using assms(1) that
    by (simp add: invoke_runtime_def keeps_process_def case_prod_beta split: sum.split)
  define found where "found = Option.bind (dict_get (sc_runtimes sc) (cn_node_id n))
    (\<lambda>r. map_option (Pair r) (fmlookup (cells (tk_world t)) r))"
  show ?thesis
  proof (cases found)
    case None
    then show ?thesis using assms(2) by (simp add: invoke_node_def found_def)
  next
    case (Some x)
    obtain r s where x: "x = (r, s)" by (cases x)
    then have "fmlookup (cells (tk_world t)) r = Some s"
      using Some by (auto simp: found_def bind_eq_Some_conv)
    then have "P r (fst (invoke_runtime ops ctx n inputs s))"
      using assms(2) run by (simp add: each_cell_def)
    then show ?thesis
      using assms(2) Some x by (simp add: invoke_node_def found_def case_prod_beta each_cell_def)
  qed
qed

lemma cell_run_node:
  assumes "keeps_process ops ctx P" and "each_cell P (tk_world t)"
  shows "each_cell P (tk_world (fst (run_node ops sc ctx n t)))"
  using assms(2) cell_invoke [OF assms]
  by (auto simp: run_node_def node_outputs_def finish_node_def Let_def split: prod.splits sum.splits) (metis fst_conv)+

lemma cell_run_nodes:
  "keeps_process ops ctx P \<Longrightarrow> each_cell P (tk_world t) \<Longrightarrow> each_cell P (tk_world (fst (run_nodes ops sc ctx ns t)))"
proof (induction ns arbitrary: t)
  case (Cons n ns)
  obtain u e where u: "run_node ops sc ctx n t = (u, e)" by fastforce
  with cell_run_node [OF Cons.prems, of sc n] have "each_cell P (tk_world u)" by simp
  with Cons u show ?case by (cases e) simp_all
qed simp

lemma cell_tick:
  assumes "keeps_process ops ctx P" and "each_cell P w"
  shows "each_cell P (fst (snd (execute_tick ops ctx v sc w)))"
  using cell_run_nodes [OF assms(1), of "start_tick sc v w"] assms(2)
  by (simp add: execute_tick_def start_tick_def split: prod.split) (metis fst_conv)

section \<open>Steps of the engine\<close>

abbreviation stamped :: "frame_context \<Rightarrow> int \<Rightarrow> frame_context" where
  "stamped ctx g \<equiv> ctx\<lparr>publish_generation := g\<rparr>"

lemma cell_facade_tick:
  assumes "\<And>ctx. keeps_process ops (stamped ctx (ef_generation f + 1)) P" and "each_cell P w"
    and "facade_tick ops ctx v f w = (f', w', r)"
  shows "each_cell P w'"
proof (cases "ef_scheduler f")
  case (Some sc)
  with assms(3) have "w' = fst (snd (execute_tick ops (stamped ctx (ef_generation f + 1)) v sc w))"
    by (simp add: facade_tick_def Let_def split: prod.splits)
  with cell_tick [OF assms(1,2)] show ?thesis by simp
qed (use assms in \<open>simp add: facade_tick_def\<close>)

lemma cell_step:
  assumes "engine_step ops registry e e'" and "keeps ops P" and "makes ops P"
    and ticked: "\<And>ctx v f w r. facade_tick ops ctx v (en_facade e) (en_world e) = (f, w, r) \<Longrightarrow>
      e' = e\<lparr>en_facade := f, en_world := w\<rparr> \<Longrightarrow> each_cell P w"
    and w: "each_cell P (en_world e)"
  shows "each_cell P (en_world e')"
proof -
  note init = cell_scheduler_init [OF assms(2,3) w]
  have prep: "each_cell P w'"
    if "facade_prepare ops registry s roots reason (en_facade e) (en_world e) = (x, w')" for s roots reason x w'
  proof -
    have "w' = en_world e \<or> (\<exists>plan reusable. w' = snd (scheduler_init ops plan reusable (en_world e)))"
      using that unfolding facade_prepare_def prepare_replacement_def
      by (auto split: sum.splits option.splits prod.splits) (metis snd_conv)+
    then show ?thesis using init w by auto
  qed
  show ?thesis
    using assms(1)
  proof (cases rule: engine_step.cases)
    case (prepare s roots reason p w')
    with prep show ?thesis by simp
  next
    case (prepare_fails s roots reason x w')
    with prep show ?thesis by simp
  next
    case (commit p reason f p' w')
    have "w' = en_world e \<or> (\<exists>prev. w' = snd (close_scheduler ops (Some reason) prev (en_world e)))"
      using commit(3) unfolding facade_commit_def
      by (auto split: bool.splits sum.splits option.splits prod.splits)
    then show ?thesis using commit(1) cell_close_scheduler [OF assms(2) w] w by auto
  next
    case (discard p p' w')
    then show ?thesis
      using w cell_cancel [OF assms(2) w] by (auto simp: prepared_close_def split: option.splits if_splits)
  next
    case (tick ctx v f w' r)
    with ticked [OF tick(2)] show ?thesis by simp
  next
    case (reset_one i reason w' r)
    then show ?thesis
      using w cell_reset_source [OF assms(2) w, of i reason]
      by (auto simp: facade_reset_source_def split: option.splits) (metis fst_conv)
  next
    case (reset_every reason f w' r)
    then show ?thesis
      using w cell_reset_all [OF assms(2) w, of reason]
      by (auto simp: facade_reset_all_def split: option.splits prod.splits) (metis fst_conv snd_conv)
  next
    case (panic w' r)
    then show ?thesis
      using w cell_panic [OF assms(2) w] by (auto simp: facade_panic_def split: option.splits) (metis fst_conv)
  next
    case (stop reason f w' r)
    then show ?thesis
      using w cell_close_scheduler [OF assms(2) cell_panic [OF assms(2) w]]
      by (auto simp: facade_stop_def split: option.splits prod.splits) (metis fst_conv)
  next
    case (close f w')
    then show ?thesis
      using w cell_close_scheduler [OF assms(2) w] by (auto simp: facade_close_def split: option.splits)
  qed
qed

section \<open>Recording runtimes\<close>

text \<open>
  Runtimes as they are, each with the list of the generations of the ticks it was run in, the
  latest first. A MIDI output stamps the states it publishes with these generations.
\<close>

definition recorded :: "'s runtime_ops \<Rightarrow> ('s \<times> int list) runtime_ops" where
  "recorded ops = \<lparr>ro_create = (\<lambda>d i. map_sum id (\<lambda>s. (s, [])) (ro_create ops d i)),
     ro_process = (\<lambda>(s, l) inputs params ctx.
       map_prod (\<lambda>s. (s, publish_generation ctx # l)) id (ro_process ops s inputs params ctx)),
     ro_reset = (\<lambda>(s, l) x. map_prod (\<lambda>s. (s, l)) id (ro_reset ops s x)),
     ro_close = (\<lambda>(s, l). map_prod (\<lambda>s. (s, l)) id (ro_close ops s)),
     ro_panic = (\<lambda>(s, l). map_option (\<lambda>f g. map_prod (\<lambda>s. (s, l)) id (f g)) (ro_panic ops s))\<rparr>"

lemma recorded_keeps: "(\<And>r s s' l. P r (s, l) \<Longrightarrow> P r (s', l)) \<Longrightarrow> keeps (recorded ops) P"
  by (auto simp: keeps_def recorded_def)

lemma recorded_makes: "(\<And>r s. P r (s, [])) \<Longrightarrow> makes (recorded ops) P"
  by (auto simp: makes_def recorded_def map_sum_def split: sum.splits)

lemma recorded_process:
  "(\<And>r s s' l. P r (s, l) \<Longrightarrow> P r (s', g # l)) \<Longrightarrow> keeps_process (recorded ops) (stamped ctx g) P"
  by (auto simp: keeps_process_def recorded_def)

text \<open>Everything recorded so far is a generation the facade has counted.\<close>

definition recorded_upto :: "int \<Rightarrow> ('s \<times> int list) world \<Rightarrow> bool" where
  "recorded_upto g = each_cell (\<lambda>r (s, l). \<forall>p \<in> set l. 0 < p \<and> p \<le> g)"

lemma recorded_upto_mono: "recorded_upto g w \<Longrightarrow> g \<le> g' \<Longrightarrow> recorded_upto g' w"
  unfolding recorded_upto_def each_cell_def by fastforce

lemma generation_step:
  assumes "engine_step ops registry e e'"
  shows "ef_generation (en_facade e) \<le> ef_generation (en_facade e')"
  using assms
proof (cases rule: engine_step.cases)
  case (commit p reason f p' w)
  then show ?thesis
    by (auto simp: facade_commit_def split: bool.splits sum.splits option.splits prod.splits)
qed (auto simp: facade_tick_def facade_reset_all_def facade_stop_def facade_close_def Let_def
    split: option.splits prod.splits)

lemma generation_steps:
  "(engine_step ops registry)\<^sup>*\<^sup>* e e' \<Longrightarrow> ef_generation (en_facade e) \<le> ef_generation (en_facade e')"
  by (induction rule: rtranclp_induct) (auto dest: generation_step)

lemma generation_nonneg: "engine_reachable ops registry e \<Longrightarrow> 0 \<le> ef_generation (en_facade e)"
  by (induction rule: engine_reachable.induct)
    (auto simp: engine_start_def facade_init_def dest: generation_step)

lemma recorded_tick:
  assumes "facade_tick (recorded ops) ctx v f w = (f', w', r)" and "recorded_upto (ef_generation f) w" and "0 \<le> ef_generation f"
  shows "recorded_upto (ef_generation f') w'"
proof (cases "ef_scheduler f")
  case (Some sc)
  let ?g = "ef_generation f + 1"
  have f': "ef_generation f' = ?g"
    using assms(1) Some by (auto simp: facade_tick_def Let_def split: prod.splits)
  have "recorded_upto ?g w" by (rule recorded_upto_mono [OF assms(2)]) simp
  then have "recorded_upto ?g w'"
    unfolding recorded_upto_def
    by (rule cell_facade_tick [OF recorded_process _ assms(1), rotated]) (use assms(3) in auto)
  with f' show ?thesis by simp
qed (use assms in \<open>simp add: facade_tick_def\<close>)

lemma recorded_step:
  assumes "engine_step (recorded ops) registry e e'" and "recorded_upto (ef_generation (en_facade e)) (en_world e)"
    and "0 \<le> ef_generation (en_facade e)"
  shows "recorded_upto (ef_generation (en_facade e')) (en_world e')"
proof -
  have old: "recorded_upto (ef_generation (en_facade e')) (en_world e)"
    by (rule recorded_upto_mono [OF assms(2) generation_step [OF assms(1)]])
  have ticked: "recorded_upto (ef_generation (en_facade e')) w"
    if "facade_tick (recorded ops) ctx v (en_facade e) (en_world e) = (f, w, r)"
      "e' = e\<lparr>en_facade := f, en_world := w\<rparr>" for ctx v f w r
    using recorded_tick [OF that(1) assms(2,3)] that(2) by simp
  show ?thesis
    unfolding recorded_upto_def
    by (rule cell_step [OF assms(1) recorded_keeps recorded_makes ticked [unfolded recorded_upto_def]
          old [unfolded recorded_upto_def]]) auto
qed

lemma recorded_reachable:
  "engine_reachable (recorded ops) registry e \<Longrightarrow> recorded_upto (ef_generation (en_facade e)) (en_world e)"
proof (induction rule: engine_reachable.induct)
  case start
  show ?case by (simp add: recorded_upto_def each_cell_def engine_start_def empty_world_def)
next
  case (step e e')
  then show ?case using recorded_step generation_nonneg by blast
qed

text \<open>What a tick adds to the record of a runtime is the generation of the tick.\<close>

lemma tick_records:
  assumes "facade_tick (recorded ops) ctx v f w = (f', w', r)" and "fmlookup (cells w') q = Some (s, l)"
  shows "\<exists>s0 l0 new. fmlookup (cells w) q = Some (s0, l0) \<and> l = new @ l0 \<and> set new \<subseteq> {ef_generation f + 1}"
proof -
  let ?P = "\<lambda>q (s, l). \<exists>s0 l0 new. fmlookup (cells w) q = Some (s0, l0) \<and> l = new @ l0 \<and> set new \<subseteq> {ef_generation f + 1}"
  have more: "?P q (s', (ef_generation f + 1) # l)" if h: "?P q (s, l)" for q s s' l
  proof -
    from h obtain s0 l0 new where "fmlookup (cells w) q = Some (s0, l0)" "l = new @ l0" "set new \<subseteq> {ef_generation f + 1}"
      by auto
    then have "fmlookup (cells w) q = Some (s0, l0) \<and> (ef_generation f + 1) # l = ((ef_generation f + 1) # new) @ l0 \<and>
        set ((ef_generation f + 1) # new) \<subseteq> {ef_generation f + 1}" by simp
    then show ?thesis unfolding prod.case by (intro exI)
  qed
  have "each_cell ?P w"
    unfolding each_cell_def by (intro allI impI) (auto intro: exI [of _ "[]"])
  moreover have "keeps_process (recorded ops) (stamped ctx (ef_generation f + 1)) ?P" for ctx
    by (rule recorded_process [where P = ?P]) (rule more)
  ultimately have "each_cell ?P w'" using cell_facade_tick [OF _ _ assms(1)] by blast
  with assms(2) show ?thesis unfolding each_cell_def by fastforce
qed

text \<open>A panic reaches the runtimes with the current generation, and leaves their records.\<close>

lemma panic_events:
  "panic_scheduler ops g sc w = (w', raised) \<Longrightarrow>
   \<exists>evs. events w' = events w @ evs \<and> (\<forall>ev \<in> set evs. \<exists>r. ev = Panicked r g)"
proof -
  have one: "\<exists>evs. events (fst (panic_runtime ops g r w)) = events w @ evs \<and> (\<forall>ev \<in> set evs. \<exists>r. ev = Panicked r g)"
    for r w
    by (auto simp: panic_runtime_def world_call_def split: option.splits prod.splits)
  have "\<exists>evs. events (fst (call_all (panic_runtime ops g) rs w)) = events w @ evs \<and> (\<forall>ev \<in> set evs. \<exists>r. ev = Panicked r g)"
    for rs w
  proof (induction rs arbitrary: w)
    case (Cons r rs)
    obtain w1 m where f: "panic_runtime ops g r w = (w1, m)" by fastforce
    from one [of r w] f obtain a where a: "events w1 = events w @ a" "\<forall>ev \<in> set a. \<exists>r. ev = Panicked r g" by auto
    from Cons.IH [of w1] obtain b where
      b: "events (fst (call_all (panic_runtime ops g) rs w1)) = events w1 @ b" "\<forall>ev \<in> set b. \<exists>r. ev = Panicked r g"
      by blast
    show ?case
    proof (cases m)
      case None
      with f a b show ?thesis by (auto intro!: exI [of _ "a @ b"])
    next
      case (Some x)
      with f a show ?thesis by auto
    qed
  qed simp
  then show "panic_scheduler ops g sc w = (w', raised) \<Longrightarrow>
    \<exists>evs. events w' = events w @ evs \<and> (\<forall>ev \<in> set evs. \<exists>r. ev = Panicked r g)"
    unfolding panic_scheduler_def by (metis fst_conv)
qed

lemma facade_panicked:
  assumes "facade_panic ops f w = (w', raised)" and "Panicked r g \<in> set (drop (length (events w)) (events w'))"
  shows "g = ef_generation f"
proof (cases "ef_scheduler f")
  case (Some sc)
  with assms(1) have "panic_scheduler ops (ef_generation f) sc w = (w', raised)" by (simp add: facade_panic_def)
  from panic_events [OF this] assms(2) show ?thesis by auto
qed (use assms in \<open>simp add: facade_panic_def\<close>)

end
