(* ===== verification/EngineDemo.thy ===== *)
theory EngineDemo
  imports EngineReuse CompilerResults SchedulerCache EngineStamps
begin

text \<open>
  A small running engine, on which the properties of the engine are applied: an integer constant
  read as a float by two gauges, the first of which cannot confirm a panic.
\<close>

definition signal_number :: node_definition where
  "signal_number = plain_definition (plain_contract ''number'' STATELESS [] [\<lparr>op_id = ''n'', op_label = ''N'', op_type = PT INT_T\<rparr>])"

definition signal_gauge :: node_definition where
  "signal_gauge = plain_definition (plain_contract ''gauge'' SINK
     [\<lparr>ip_id = ''x'', ip_label = ''X'', ip_type = PT FLOAT, ip_required = True\<rparr>] [])"

definition signal_registry :: node_registry where
  "signal_registry = fmap_of_list [(''number'', signal_number), (''gauge'', signal_gauge)]"

definition signal_snapshot :: graph_snapshot where
  "signal_snapshot = \<lparr>snap_document_id = 9, snap_revision = 4,
     snap_nodes = [demo_node 3 ''gauge'', demo_node 2 ''gauge'', demo_node 1 ''number''],
     snap_connections = [demo_connection 8 1 ''n'' 2 ''x'', demo_connection 7 1 ''n'' 3 ''x''],
     snap_settings = fmempty, snap_groups = []\<rparr>"

text \<open>The state of a runtime is the type of its node.\<close>

definition signal_ops :: "int \<Rightarrow> string runtime_ops" where
  "signal_ops i = \<lparr>ro_create = (\<lambda>c j. Inr (ec_type_id c)),
     ro_process = (\<lambda>s inputs params ctx. (s, Inr (if s = ''number'' then [(''n'', RInt i)] else []))),
     ro_reset = (\<lambda>s r. (s, None)), ro_close = (\<lambda>s. (s, None)),
     ro_panic = (\<lambda>s. if s = ''gauge'' then Some (\<lambda>g. (s, Some (Msg ''Timed out'' []))) else None)\<rparr>"

definition signal_context :: frame_context where
  "signal_context = \<lparr>clock_id = 1, tick_index = 0, source_frame_index = None, source_time_s = Fin 0,
     received_monotonic_ns = 0, deadline_monotonic_ns = None, is_realtime = False, publish_generation = 0\<rparr>"

definition signal_run :: "'s runtime_ops \<Rightarrow> (scheduler \<Rightarrow> engine_facade \<Rightarrow> 's world \<Rightarrow> bool) \<Rightarrow> bool" where
  "signal_run ops P = (case facade_prepare ops signal_registry signal_snapshot None PLAN_REPLACED facade_init empty_world of
       (Inr p, w) \<Rightarrow> (case facade_commit ops PLAN_REPLACED p facade_init w of
           (Inr (f, p'), w') \<Rightarrow> (case ef_scheduler f of Some sc \<Rightarrow> P sc f w' | None \<Rightarrow> False)
         | _ \<Rightarrow> False)
     | _ \<Rightarrow> False)"

lemma signal_registry_ok: "registry_ok signal_registry"
proof -
  have "contract_ok (nd_execution d) \<and> contract_types_ok (nd_execution d)" if "d \<in> {signal_number, signal_gauge}" for d
    using that
    by (auto simp: signal_number_def signal_gauge_def plain_definition_def contract_ok_def plain_contract_def
        intro!: plain_types_ok [unfolded plain_contract_def])
  then show ?thesis
    unfolding registry_ok_def by (auto simp: signal_registry_def fmlookup_of_list split: if_splits)
qed

lemma signal_nodes: "signal_run (signal_ops 7) (\<lambda>sc f w.
    map cn_node_id (ep_nodes (sc_plan sc)) = [1, 2, 3] \<and>
    list_all (\<lambda>n. ec_cache_policy (cn_definition n) \<noteq> NEVER \<and> cn_is_demanded n) (ep_nodes (sc_plan sc)) \<and>
    sc_runtimes sc = [(1, 0), (2, 1), (3, 2)])"
  by code_simp

lemma signal_ticks: "signal_run (signal_ops 7) (\<lambda>sc f w.
    case execute_tick (signal_ops 7) signal_context fmempty sc w of
      (sc', w', Inr tr) \<Rightarrow> fmlookup (tr_values tr) (PortKey 1 ''n'') = Some (RInt 7) \<and> tr_errors tr = []
    | _ \<Rightarrow> False)"
  by code_simp

lemma signal_raises: "signal_run (signal_ops (2 ^ 1024)) (\<lambda>sc f w.
    case execute_tick (signal_ops (2 ^ 1024)) signal_context fmempty sc w of (sc', w', r) \<Rightarrow> isl r)"
  by code_simp

lemma signal_panics: "signal_run (signal_ops 7) (\<lambda>sc f w.
    case facade_panic (signal_ops 7) f w of (w', raised) \<Rightarrow> raised = Some (Msg ''Timed out'' []) \<and>
      events w' = events w @ [Panicked 1 0] \<and> sc_runtimes sc = [(1, 0), (2, 1), (3, 2)])"
  by code_simp

lemma signal_replaced: "signal_run (signal_ops 7) (\<lambda>sc f w.
    case facade_activate (signal_ops 7) signal_registry signal_snapshot None PLAN_REPLACED f w of
      (Inr (f', result), w') \<Rightarrow> (case cr_plan result of Some plan \<Rightarrow> list_all (keeps_state sc plan) (ep_nodes plan) \<and>
         list_ex (\<lambda>n. cn_node_id n = 1) (ep_nodes plan) | None \<Rightarrow> False)
    | _ \<Rightarrow> False)"
  by code_simp

text \<open>A tick, a panic and a second tick; the second gauge is never reached by the panic.\<close>

lemma signal_stamps: "signal_run (recorded (signal_ops 7)) (\<lambda>sc f w.
    case facade_tick (recorded (signal_ops 7)) signal_context fmempty f w of (f1, w1, r1) \<Rightarrow>
    case facade_panic (recorded (signal_ops 7)) f1 w1 of (w2, m) \<Rightarrow>
    case facade_tick (recorded (signal_ops 7)) signal_context fmempty f1 w2 of (f3, w3, r3) \<Rightarrow>
      fmlookup (cells w1) 1 = Some (''gauge'', [1]) \<and> events w2 = events w1 @ [Panicked 1 1] \<and>
      fmlookup (cells w2) 1 = Some (''gauge'', [1]) \<and> fmlookup (cells w3) 1 = Some (''gauge'', [2, 1]))"
  by code_simp

end
