(* ===== verification/EngineResults.thy ===== *)
theory EngineResults
  imports EngineReuse SchedulerCache EngineDemo
begin

text \<open>
  The engine on compiled plans: what compilation guarantees of a plan is what the scheduler needs,
  and the properties of ticks, of the static cache, of the ownership of runtimes and of panics.
\<close>

section \<open>Compiled plans as the scheduler needs them\<close>

lemma reads_back_nth:
  assumes "\<And>i q b j. \<lbrakk>i < length ns; (q, b) \<in> set (cn_input_bindings (ns ! i)); j < length ns; i \<le> j;
    own_key (ns ! j) (ib_source b)\<rbrakk> \<Longrightarrow> False"
  shows "reads_back ns"
  using assms
proof (induction ns)
  case (Cons n ns)
  have "\<not> own_key m (ib_source b)" if qb: "(q, b) \<in> set (cn_input_bindings n)" and m: "m \<in> set (n # ns)" for q b m
  proof
    assume o: "own_key m (ib_source b)"
    obtain j where j: "j < length (n # ns)" "m = (n # ns) ! j" using m by (metis in_set_conv_nth)
    show False
      using Cons.prems [where i = 0 and j = j and q = q and b = b] qb j o by simp
  qed
  moreover have "reads_back ns"
  proof (rule Cons.IH)
    fix i q b j
    assume h: "i < length ns" "(q, b) \<in> set (cn_input_bindings (ns ! i))" "j < length ns" "i \<le> j"
      "own_key (ns ! j) (ib_source b)"
    then show False using Cons.prems [where i = "Suc i" and j = "Suc j" and q = q and b = b] by simp
  qed
  ultimately show ?case by auto
qed simp

lemma compiled_binding:
  assumes "plan_sound p" and "n \<in> set (ep_nodes p)" and "dict_get (cn_input_bindings n) q = Some b"
  shows "\<exists>m \<in> set (ep_nodes p). binding_fits n q b m \<and> own_key m (ib_source b)"
proof -
  obtain i where "i < length (ep_nodes p)" "n = ep_nodes p ! i" using assms(2) by (auto simp: in_set_conv_nth)
  with assms(1,3) obtain j where "j < i" "binding_fits n q b (ep_nodes p ! j)" unfolding plan_sound_def by blast
  with \<open>i < _\<close> show ?thesis by (intro bexI [of _ "ep_nodes p ! j"]) (auto simp: binding_fits_def own_key_def)
qed

lemma compiled_reads_back:
  assumes "plan_sound p" and "\<forall>n \<in> set (ep_nodes p). dict_ok (cn_input_bindings n)"
  shows "reads_back (ep_nodes p)"
proof (rule reads_back_nth)
  fix i q b j assume i: "i < length (ep_nodes p)" and b: "(q, b) \<in> set (cn_input_bindings (ep_nodes p ! i))"
    and j: "j < length (ep_nodes p)" "i \<le> j" "own_key (ep_nodes p ! j) (ib_source b)"
  have "dict_get (cn_input_bindings (ep_nodes p ! i)) q = Some b"
    using b assms(2) i by (simp add: dict_get_eq_Some)
  with assms(1) i obtain k where k: "k < i" "binding_fits (ep_nodes p ! i) q b (ep_nodes p ! k)"
    unfolding plan_sound_def by blast
  then have "cn_node_id (ep_nodes p ! k) = cn_node_id (ep_nodes p ! j)"
    using j(3) by (simp add: binding_fits_def own_key_def)
  moreover have "distinct (map cn_node_id (ep_nodes p))"
    using assms(1) by (simp add: plan_sound_def topological_node_ids_def)
  ultimately have "k = j" using k(1) i j(1) by (simp add: distinct_conv_nth) (metis less_trans)
  with k(1) j(2) show False by simp
qed

text \<open>Nodes without a clock read from nodes without a clock, and demand is closed upstream.\<close>

lemma compiled_static_closed:
  assumes c: "registry_ok registry" "compile registry s roots = Inr r" "cr_plan r = Some p"
    and policy: "\<forall>n \<in> set (ep_nodes p). cn_clock_id n = None \<longrightarrow> cn_output_types n \<noteq> [] \<longrightarrow>
      ec_cache_policy (cn_definition n) \<noteq> NEVER"
  shows "static_closed (ep_nodes p)"
  unfolding static_closed_def
proof (intro ballI impI, clarify)
  fix n q b assume n: "n \<in> set (ep_nodes p)" "cacheable n" and qb: "(q, b) \<in> set (cn_input_bindings n)"
  note cp = compiled_plan [OF c]
  have b: "dict_get (cn_input_bindings n) q = Some b" using cp n(1) qb by (simp add: dict_get_eq_Some)
  obtain m where m: "m \<in> set (ep_nodes p)" "binding_fits n q b m" "own_key m (ib_source b)"
    using compiled_binding [OF _ n(1) b] cp by blast
  have clock: "cn_clock_id n = None" and demanded: "cn_is_demanded n" using cp n by (simp_all add: cacheable_def)
  have edge: "(cn_node_id m, cn_node_id n) \<in> plan_edges p"
    using n(1) b m(2) unfolding plan_edges_def binding_fits_def by force
  obtain x where "x \<in> ep_demand_roots p" "(cn_node_id n, x) \<in> (plan_edges p)\<^sup>*"
    using planned_demand [OF c n(1)] demanded by blast
  with edge have md: "cn_is_demanded m" using planned_demand [OF c m(1)] converse_rtrancl_into_rtrancl by meson
  have "ec_kind (cn_definition n) \<noteq> SOURCE"
    using planned_clock [OF c n(1), of "cn_node_id n"] clock plan_feeds.itself [OF n(1)] by auto
  then have "cn_clock_id m = None"
    using planned_clock [OF c m(1)] planned_clock [OF c n(1)] clock plan_feeds.along [OF _ edge n(1)]
    by (cases "cn_clock_id m") auto
  moreover have "cn_output_types m \<noteq> []" using m(3) by (auto simp: own_key_def)
  ultimately have "cn_is_static m" using cp policy m(1) by simp
  with m md show "\<exists>m \<in> set (ep_nodes p). cacheable m \<and> own_key m (ib_source b)" by (auto simp: cacheable_def)
qed

section \<open>What a node reads\<close>

lemma compatible_value:
  assumes "types_compatible t t'" and "output_type_check t v" and "\<not> (t = INT_T \<and> t' = FLOAT)"
  shows "fits_input t' v"
proof -
  from assms(1,3) have "t \<in> insert t' (array_item_types t')"
    by (cases t'; cases t) (simp_all add: types_compatible_def array_item_types_def)
  with assms(2) show ?thesis unfolding fits_input_def by blast
qed

lemma read_value_fits:
  assumes "read_binding values b = Inr x" and "binding_fits n q b m" and "values_typed ns values" and "m \<in> set ns"
  shows "\<exists>t. dict_get (cn_input_types n) q = Some t \<and> fits_input t x"
proof -
  obtain t t' where t: "cn_node_id m = pk_node (ib_source b)" "dict_get (cn_output_types m) (pk_port (ib_source b)) = Some t"
    "dict_get (cn_input_types n) q = Some t'" "types_compatible t t'"
    "ib_conversion b = (if t = INT_T \<and> t' = FLOAT then Some INT_TO_FLOAT else None)"
    using assms(2) unfolding binding_fits_def by blast
  have v: "read_port values (ib_source b) = NoData \<or> output_type_check t (read_port values (ib_source b))"
  proof (cases "fmlookup values (ib_source b)")
    case (Some v)
    have "value_settled m (pk_port (ib_source b)) v"
      using assms(3,4) t(1,2) Some unfolding values_typed_def by (metis option.distinct(1) port_key.collapse)
    with Some t(2) show ?thesis by (auto simp: read_port_def value_settled_def)
  qed (simp add: read_port_def)
  have "fits_input t' x"
  proof (cases "t = INT_T \<and> t' = FLOAT")
    case True
    with v t(5) assms(1) show ?thesis
      by (cases "read_port values (ib_source b)") (auto simp: fits_input_def array_item_types_def split: option.splits)
  next
    case False
    then have "ib_conversion b = None" unfolding t(5) by simp
    then have "x = read_port values (ib_source b)" using assms(1) by simp
    with v compatible_value [OF t(4) _ False] show ?thesis by (auto simp: fits_input_def)
  qed
  with t(3) show ?thesis by blast
qed

section \<open>Plans of reachable engines\<close>

definition plan_compiled :: "node_registry \<Rightarrow> execution_plan \<Rightarrow> bool" where
  "plan_compiled registry p \<longleftrightarrow> (\<exists>s roots r. compile registry s roots = Inr r \<and> cr_plan r = Some p)"

definition plans_compiled :: "node_registry \<Rightarrow> 's engine \<Rightarrow> bool" where
  "plans_compiled registry e \<longleftrightarrow> (\<forall>p. ef_plan (en_facade e) = Some p \<longrightarrow> plan_compiled registry p) \<and>
     (\<forall>c p. en_candidate e = Some c \<longrightarrow> cr_plan (pa_result c) = Some p \<longrightarrow> plan_compiled registry p)"

lemma prepared_result:
  assumes "facade_prepare ops registry s roots reason f w = (Inr c, w')"
  shows "compile registry s roots = Inr (pa_result c)"
  using assms unfolding facade_prepare_def by (auto split: sum.splits option.splits prod.splits)

lemma committed_plan:
  assumes "facade_commit ops reason c f w = (Inr (f', c'), w')"
  shows "ef_plan f' = cr_plan (pa_result c) \<and> ef_generation f' = ef_generation f"
  using assms unfolding facade_commit_def by (auto split: bool.splits sum.splits option.splits prod.splits)

lemma ticked_facade:
  assumes "facade_tick ops ctx v f w = (f', w', r)"
  shows "ef_plan f' = ef_plan f \<and> ef_generation f' = ef_generation f + (if ef_scheduler f = None then 0 else 1)"
  using assms unfolding facade_tick_def by (auto simp: Let_def split: option.splits prod.splits)

lemma reset_facade:
  assumes "facade_reset_all ops reason f w = (f', w', r)"
  shows "ef_plan f' = ef_plan f \<and> ef_generation f' = ef_generation f"
  using assms unfolding facade_reset_all_def by (auto split: option.splits prod.splits)

lemma stopped_facade:
  "facade_stop ops reason f w = (f', w', r) \<Longrightarrow> ef_plan f' = None \<and> ef_generation f' = ef_generation f"
  unfolding facade_stop_def by (auto split: option.splits prod.splits)

lemma closed_facade: "facade_close ops f w = (f', w') \<Longrightarrow> ef_plan f' = None \<and> ef_generation f' = ef_generation f"
  unfolding facade_close_def by auto

lemma plans_compiled_step:
  assumes "engine_step ops registry e e'" and "plans_compiled registry e"
  shows "plans_compiled registry e'"
  using assms(1)
proof (cases rule: engine_step.cases)
  case (prepare s roots reason p w)
  with prepared_result [OF prepare(3)] assms(2) show ?thesis
    by (auto simp: plans_compiled_def plan_compiled_def)
next
  case (commit p reason f p' w)
  with committed_plan [OF commit(3)] assms(2) show ?thesis by (auto simp: plans_compiled_def)
next
  case (tick ctx v f w r)
  with ticked_facade [OF tick(2)] assms(2) show ?thesis by (auto simp: plans_compiled_def)
next
  case (reset_every reason f w r)
  with reset_facade [OF reset_every(3)] assms(2) show ?thesis by (auto simp: plans_compiled_def)
next
  case (stop reason f w r)
  with stopped_facade [OF stop(3)] assms(2) show ?thesis by (auto simp: plans_compiled_def)
next
  case (close f w)
  with closed_facade [OF close(3)] assms(2) show ?thesis by (auto simp: plans_compiled_def)
qed (use assms(2) in \<open>auto simp: plans_compiled_def\<close>)

lemma plans_compiled_reachable: "engine_reachable ops registry e \<Longrightarrow> plans_compiled registry e"
proof (induction rule: engine_reachable.induct)
  case start
  then show ?case by (simp add: plans_compiled_def engine_start_def facade_init_def)
next
  case (step e e')
  then show ?case by (blast intro: plans_compiled_step)
qed

lemma active_ok:
  assumes "engine_reachable ops registry e" and "registry_ok registry" and "ef_scheduler (en_facade e) = Some sc"
  shows "plan_compiled registry (sc_plan sc) \<and> scheduler_ok sc (en_world e)"
proof -
  have inv: "engine_inv e" by (rule engine_inv_reachable [OF assms(1,2)])
  then have f: "ef_plan (en_facade e) = Some (sc_plan sc)" "dict_ok (sc_runtimes sc)"
    "fst ` set (sc_runtimes sc) = set (topological_node_ids (sc_plan sc))"
    using assms(3) by (simp_all add: engine_inv_def facade_ok_def)
  have "plan_compiled registry (sc_plan sc)"
    using plans_compiled_reachable [OF assms(1)] f(1) by (simp add: plans_compiled_def)
  moreover have "runtime_at sc (en_world e) n \<noteq> None" if n: "n \<in> set (ep_nodes (sc_plan sc))" for n
  proof -
    have "cn_node_id n \<in> fst ` set (sc_runtimes sc)" using n f(3) by (simp add: topological_node_ids_def)
    then obtain r where r: "dict_get (sc_runtimes sc) (cn_node_id n) = Some r"
      by (metis dict_get_None_iff not_None_eq)
    then have "r \<in> set (active_refs (en_facade e))"
      using assms(3) f(2) by (force simp: active_refs_def refs_def dict_get_eq_Some)
    then have "r < next_runtime (en_world e)" using inv unfolding engine_inv_def by auto
    then have "r |\<in>| fmdom (cells (en_world e))" using inv by (simp add: engine_inv_def world_ok_def)
    then show ?thesis using r by (auto simp: runtime_at_def)
  qed
  moreover have "i = j" if "dict_get (sc_runtimes sc) i = Some r" "dict_get (sc_runtimes sc) j = Some r" for i j r
  proof -
    have "distinct (map snd (sc_runtimes sc))"
      using inv assms(3) by (simp add: engine_inv_def active_refs_def refs_def)
    moreover have "(i, r) \<in> set (sc_runtimes sc)" "(j, r) \<in> set (sc_runtimes sc)"
      using that f(2) by (simp_all add: dict_get_eq_Some)
    ultimately show ?thesis using distinct_images by fastforce
  qed
  ultimately show ?thesis unfolding scheduler_ok_def by blast
qed

text \<open>The small engine is a reachable one.\<close>

lemma signal_started:
  assumes "signal_run ops P"
  shows "\<exists>e sc. engine_reachable ops signal_registry e \<and> en_candidate e = None \<and> ef_scheduler (en_facade e) = Some sc \<and>
    (\<exists>r. compile signal_registry signal_snapshot None = Inr r \<and> cr_plan r = Some (sc_plan sc)) \<and>
    sc_static_cache sc = fmempty \<and> scheduler_ok sc (en_world e) \<and> P sc (en_facade e) (en_world e)"
proof -
  obtain a w where aw: "facade_prepare ops signal_registry signal_snapshot None PLAN_REPLACED facade_init empty_world = (a, w)"
    by fastforce
  then obtain c where c: "a = Inr c" using assms by (cases a) (simp_all add: signal_run_def)
  obtain b w' where bw: "facade_commit ops PLAN_REPLACED c facade_init w = (b, w')" by fastforce
  then obtain y where y: "b = Inr y" using assms aw c by (cases b) (simp_all add: signal_run_def)
  obtain f c' where fc: "y = (f, c')" by (cases y)
  obtain sc where sc: "ef_scheduler f = Some sc" "P sc f w'"
    using assms aw c bw y fc by (cases "ef_scheduler f") (simp_all add: signal_run_def)
  note p = aw [unfolded c] and m = bw [unfolded y fc]
  let ?e = "\<lparr>en_facade = f, en_candidate = None, en_world = w'\<rparr>"
  have "engine_step ops signal_registry engine_start (engine_start\<lparr>en_candidate := Some c, en_world := w\<rparr>)"
    by (rule engine_step.prepare) (use p in \<open>simp_all add: engine_start_def\<close>)
  moreover have "engine_step ops signal_registry (engine_start\<lparr>en_candidate := Some c, en_world := w\<rparr>) ?e"
    by (rule engine_step.commit) (use m in \<open>simp_all add: engine_start_def\<close>)
  ultimately have e: "engine_reachable ops signal_registry ?e"
    by (blast intro: engine_reachable.intros)
  have "engine_inv ?e" by (rule engine_inv_reachable [OF e signal_registry_ok])
  then have "ef_plan f = Some (sc_plan sc)" using sc(1) by (simp add: engine_inv_def facade_ok_def)
  then have plan: "cr_plan (pa_result c) = Some (sc_plan sc)" using committed_plan [OF m] by simp
  obtain reusable where "scheduler_init ops (sc_plan sc) reusable empty_world = (Inr sc, w)"
  proof -
    have "pa_scheduler c = Some sc"
      using m sc(1) by (auto simp: facade_commit_def facade_init_def split: bool.splits option.splits)
    then show ?thesis
      using that p plan unfolding facade_prepare_def prepare_replacement_def
      by (auto simp: facade_init_def split: sum.splits option.splits prod.splits)
  qed
  moreover have "distinct (topological_node_ids (sc_plan sc))"
    using compiled_plan [OF signal_registry_ok prepared_result [OF p] plan] by (simp add: plan_sound_def)
  ultimately have "sc_static_cache sc = fmempty" using scheduler_init_ok empty_world_ok(1) by fastforce
  moreover have "scheduler_ok sc w'" using active_ok [OF e signal_registry_ok] sc(1) by simp
  ultimately show ?thesis
    using e sc prepared_result [OF p] plan by (intro exI [of _ ?e] exI [of _ sc]) auto
qed

lemma tick_result_cases:
  assumes "case t of (sc', w', Inr tr) \<Rightarrow> Q tr | _ \<Rightarrow> False"
  obtains sc' w' tr where "t = (sc', w', Inr tr)" and "Q tr"
  using assms by (auto split: prod.splits sum.splits)

section \<open>Ticks of compiled plans\<close>

lemma typed_add:
  assumes "values_typed ns a" and "values_typed ns b"
  shows "values_typed ns (a ++\<^sub>f b)"
  using assms unfolding values_typed_def by (simp add: fmlookup_dom_iff)

lemma tick_unfold:
  assumes "execute_tick ops ctx v sc w = (sc', w', r)"
  obtains t raised where "run_nodes ops sc ctx (ep_nodes (sc_plan sc)) (start_tick sc v w) = (t, raised)"
    "sc' = sc\<lparr>sc_static_cache := tk_cache t\<rparr>" "w' = tk_world t"
    "r = (case raised of Some e \<Rightarrow> Inl e
       | None \<Rightarrow> Inr \<lparr>tr_values = tk_values t, tr_errors = tk_errors t, tr_invocations = tk_invocations t\<rparr>)"
  using assms unfolding execute_tick_def by (auto split: prod.splits)

lemma plan_dicts:
  assumes "registry_ok registry" and "plan_compiled registry p"
  shows "plan_sound p" and "n \<in> set (ep_nodes p) \<Longrightarrow> dict_ok (cn_input_bindings n)"
    and "distinct (topological_node_ids p)" and "distinct (map cn_node_id (ep_nodes p))" and "reads_back (ep_nodes p)"
proof -
  obtain s roots r where c: "compile registry s roots = Inr r" "cr_plan r = Some p"
    using assms(2) unfolding plan_compiled_def by blast
  note cp = compiled_plan [OF assms(1) c]
  show "plan_sound p" and "n \<in> set (ep_nodes p) \<Longrightarrow> dict_ok (cn_input_bindings n)" using cp by blast+
  show d: "distinct (topological_node_ids p)" using cp by (simp add: plan_sound_def)
  then show "distinct (map cn_node_id (ep_nodes p))" by (simp add: topological_node_ids_def)
  show "reads_back (ep_nodes p)" using compiled_reads_back cp by blast
qed

text \<open>
  C15. When the source values handed to a tick of a compiled plan and the static cache are of the
  types and clocks of their ports (the cache is empty at first, and stays typed), then whatever the
  runtimes return, the tick publishes only values of the settled type and of the clock of their
  port, or \<open>NoData\<close>; it publishes every output of every demanded node; and what a node reads through
  its bindings is of the type of the input. The scheduler does not check the source values itself.
\<close>

theorem tick_values_typed:
  assumes "registry_ok registry" and "compile registry s roots = Inr r" and "cr_plan r = Some (sc_plan sc)"
    and "values_typed (ep_nodes (sc_plan sc)) (sc_static_cache sc)" and "values_typed (ep_nodes (sc_plan sc)) v"
    and "execute_tick ops ctx v sc w = (sc', w', Inr tr)"
  shows "values_typed (ep_nodes (sc_plan sc)) (tr_values tr) \<and> values_typed (ep_nodes (sc_plan sc)) (sc_static_cache sc') \<and>
    (\<forall>n \<in> set (ep_nodes (sc_plan sc)).
       (cn_is_demanded n \<longrightarrow> (\<forall>k. own_key n k \<longrightarrow> k |\<in>| fmdom (tr_values tr))) \<and>
       (\<forall>inputs q x. gather_inputs (tr_values tr) n = Inr inputs \<longrightarrow> dict_get inputs q = Some x \<longrightarrow>
          (\<exists>t. dict_get (cn_input_types n) q = Some t \<and> fits_input t x)))"
proof -
  let ?ns = "ep_nodes (sc_plan sc)"
  have pc: "plan_compiled registry (sc_plan sc)" using assms(2,3) plan_compiled_def by blast
  note pd = plan_dicts [OF assms(1) pc]
  from assms(6) obtain t raised where t: "run_nodes ops sc ctx ?ns (start_tick sc v w) = (t, raised)"
    "sc' = sc\<lparr>sc_static_cache := tk_cache t\<rparr>" "raised = None" "tr_values tr = tk_values t"
    by (rule tick_unfold) (auto split: option.splits)
  have start: "values_typed ?ns (tk_values (start_tick sc v w))" "values_typed ?ns (tk_cache (start_tick sc v w))"
    using typed_add [OF assms(4,5)] assms(4) by (simp_all add: start_tick_def)
  have typed: "values_typed ?ns (tk_values t)" "values_typed ?ns (tk_cache t)"
    using run_nodes_typed [OF t(1) pd(4) subset_refl start] by simp_all
  have fits: "\<exists>ty. dict_get (cn_input_types n) q = Some ty \<and> fits_input ty x"
    if n: "n \<in> set ?ns" and g: "gather_inputs (tk_values t) n = Inr inputs" "dict_get inputs q = Some x" for n inputs q x
  proof -
    have "rel_option (\<lambda>b v. read_binding (tk_values t) b = Inr v) (dict_get (cn_input_bindings n) q) (dict_get inputs q)"
      by (rule gather_get [OF g(1) pd(2) [OF n]])
    then obtain b where b: "dict_get (cn_input_bindings n) q = Some b" "read_binding (tk_values t) b = Inr x"
      using g(2) by (auto simp: option_rel_Some2)
    obtain m where "m \<in> set ?ns" "binding_fits n q b m" using compiled_binding [OF pd(1) n b(1)] by blast
    then show ?thesis using read_value_fits [OF b(2) _ typed(1)] by blast
  qed
  show ?thesis
    using typed t fits run_nodes_present [of ops sc ctx ?ns "start_tick sc v w" t] by simp
qed

theorem tick_values_typed_witness:
  "\<exists>sc w sc' w' tr. execute_tick (signal_ops 7) signal_context fmempty sc w = (sc', w', Inr tr) \<and>
     fmlookup (tr_values tr) (PortKey 1 ''n'') = Some (RInt 7) \<and> values_typed (ep_nodes (sc_plan sc)) (tr_values tr)"
proof -
  obtain sc r and e :: "string engine" where sc: "compile signal_registry signal_snapshot None = Inr r" "cr_plan r = Some (sc_plan sc)"
    "sc_static_cache sc = fmempty" "case execute_tick (signal_ops 7) signal_context fmempty sc (en_world e) of
      (sc', w', Inr tr) \<Rightarrow> fmlookup (tr_values tr) (PortKey 1 ''n'') = Some (RInt 7) \<and> tr_errors tr = [] | _ \<Rightarrow> False"
    using signal_started [OF signal_ticks] by (elim exE conjE) (rule that; assumption)
  obtain sc' w' tr where t: "execute_tick (signal_ops 7) signal_context fmempty sc (en_world e) = (sc', w', Inr tr)"
    "fmlookup (tr_values tr) (PortKey 1 ''n'') = Some (RInt 7)"
    by (rule tick_result_cases [OF sc(4)]) simp
  have "values_typed (ep_nodes (sc_plan sc)) (sc_static_cache sc)" "values_typed (ep_nodes (sc_plan sc)) fmempty"
    by (simp_all add: sc(3) values_typed_def)
  from tick_values_typed [OF signal_registry_ok sc(1,2) this t(1)] t show ?thesis by blast
qed

text \<open>
  C13. In every reachable state of the engine, the values a successful tick publishes and the
  runtime states it leaves solve the equations of the active plan: each node that is due is run
  once, on the final values of its inputs and its own state, and publishes what it answered or
  \<open>NoData\<close>; all others keep their values and state; the errors are those of the nodes, in order.
\<close>

theorem tick_solves_plan:
  assumes "engine_reachable ops registry e" and "registry_ok registry" and "ef_scheduler (en_facade e) = Some sc"
    and "execute_tick ops ctx v sc (en_world e) = (sc', w', Inr tr)"
  shows "\<exists>ess. tr_errors tr = concat ess \<and> list_all2 (\<lambda>es n. node_equation ops sc ctx
    (sc_static_cache sc ++\<^sub>f v) (en_world e) (tr_values tr) w' es n) ess (ep_nodes (sc_plan sc))"
proof -
  let ?ns = "ep_nodes (sc_plan sc)"
  have ok: "plan_compiled registry (sc_plan sc)" "scheduler_ok sc (en_world e)"
    using active_ok [OF assms(1-3)] by simp_all
  note pd = plan_dicts [OF assms(2) ok(1)]
  from assms(4) obtain t where t: "run_nodes ops sc ctx ?ns (start_tick sc v (en_world e)) = (t, None)"
    "w' = tk_world t" "tr_values tr = tk_values t" "tr_errors tr = tk_errors t"
    by (rule tick_unfold) (auto split: option.splits)
  from run_nodes_equations [OF t(1) pd(4,5)] ok(2) t(2-4) show ?thesis
    by (simp add: scheduler_ok_def start_tick_def)
qed

theorem tick_solves_plan_witness:
  "\<exists>e sc sc' w' tr. engine_reachable (signal_ops 7) signal_registry e \<and> ef_scheduler (en_facade e) = Some sc \<and>
     execute_tick (signal_ops 7) signal_context fmempty sc (en_world e) = (sc', w', Inr tr) \<and>
     (\<exists>ess. list_all2 (\<lambda>es n. node_equation (signal_ops 7) sc signal_context (sc_static_cache sc ++\<^sub>f fmempty)
        (en_world e) (tr_values tr) w' es n) ess (ep_nodes (sc_plan sc)))"
proof -
  obtain sc and e :: "string engine" where e: "engine_reachable (signal_ops 7) signal_registry e" "ef_scheduler (en_facade e) = Some sc"
    "case execute_tick (signal_ops 7) signal_context fmempty sc (en_world e) of
      (sc', w', Inr tr) \<Rightarrow> fmlookup (tr_values tr) (PortKey 1 ''n'') = Some (RInt 7) \<and> tr_errors tr = [] | _ \<Rightarrow> False"
    using signal_started [OF signal_ticks] by (elim exE conjE) (rule that; assumption)
  obtain sc' w' tr where t: "execute_tick (signal_ops 7) signal_context fmempty sc (en_world e) = (sc', w', Inr tr)"
    by (rule tick_result_cases [OF e(3)]) simp
  from tick_solves_plan [OF e(1) signal_registry_ok e(2) t] e(1,2) t show ?thesis by blast
qed

text \<open>
  C20. The only exception that leaves a tick of a compiled plan is that of \<open>float(value)\<close> on an
  integer beyond the range of binary64, read by a \<open>FLOAT\<close> input from an \<open>INT\<close> output: an exception
  that bypasses the isolation of node errors.
\<close>

theorem tick_raises_only_oversized:
  assumes "registry_ok registry" and "compile registry s roots = Inr r" and "cr_plan r = Some (sc_plan sc)"
    and "execute_tick ops ctx v sc w = (sc', w', Inl e)"
  shows "e = oversized \<and> (\<exists>n \<in> set (ep_nodes (sc_plan sc)). \<exists>m \<in> set (ep_nodes (sc_plan sc)). \<exists>q b i.
    dict_get (cn_input_bindings n) q = Some b \<and> own_key m (ib_source b) \<and>
    dict_get (cn_output_types m) (pk_port (ib_source b)) = Some INT_T \<and> dict_get (cn_input_types n) q = Some FLOAT \<and>
    read_port (tk_values (fst (run_nodes ops sc ctx (ep_nodes (sc_plan sc)) (start_tick sc v w)))) (ib_source b) = RInt i \<and>
    float_of_int i = None)"
proof -
  let ?ns = "ep_nodes (sc_plan sc)"
  have pc: "plan_compiled registry (sc_plan sc)" using assms(2,3) plan_compiled_def by blast
  note pd = plan_dicts [OF assms(1) pc]
  from assms(4) obtain t where t: "run_nodes ops sc ctx ?ns (start_tick sc v w) = (t, Some e)"
    by (rule tick_unfold) (auto split: option.splits)
  have "raised = Some e \<Longrightarrow> e = oversized \<and> (\<exists>n \<in> set ns. \<exists>q b i. (q, b) \<in> set (cn_input_bindings n) \<and>
     ib_conversion b = Some INT_TO_FLOAT \<and> read_port (tk_values t) (ib_source b) = RInt i \<and> float_of_int i = None)"
    if "run_nodes ops sc ctx ns u = (t, raised)" for ns u raised
    using that
  proof (induction rule: run_nodes_induct)
    case (Raise n ns t u e')
    with run_node_raises [OF Raise(1)] show ?case by force
  next
    case (Step n ns t u t' raised)
    then show ?case by auto
  qed simp
  from this [OF t refl] obtain n q b i where n: "e = oversized" "n \<in> set ?ns" "(q, b) \<in> set (cn_input_bindings n)"
    "ib_conversion b = Some INT_TO_FLOAT" "read_port (tk_values t) (ib_source b) = RInt i" "float_of_int i = None" by blast
  have b: "dict_get (cn_input_bindings n) q = Some b" using n(3) pd(2) [OF n(2)] by (simp add: dict_get_eq_Some)
  obtain m where m: "m \<in> set ?ns" "binding_fits n q b m" "own_key m (ib_source b)"
    using compiled_binding [OF pd(1) n(2) b] by blast
  with n(4) have "dict_get (cn_output_types m) (pk_port (ib_source b)) = Some INT_T \<and> dict_get (cn_input_types n) q = Some FLOAT"
    by (auto simp: binding_fits_def split: if_splits)
  then show ?thesis
    using n m b t by (intro conjI bexI [of _ n] bexI [of _ m] exI [of _ q] exI [of _ b] exI [of _ i]) simp_all
qed

theorem tick_raises_only_oversized_witness:
  "\<exists>sc w sc' w'. execute_tick (signal_ops (2 ^ 1024)) signal_context fmempty sc w = (sc', w', Inl oversized)"
proof -
  obtain sc r and e :: "string engine" where sc: "compile signal_registry signal_snapshot None = Inr r" "cr_plan r = Some (sc_plan sc)"
    "case execute_tick (signal_ops (2 ^ 1024)) signal_context fmempty sc (en_world e) of (sc', w', r) \<Rightarrow> isl r"
    using signal_started [OF signal_raises] by (elim exE conjE) (rule that; assumption)
  obtain sc' w' x where x: "execute_tick (signal_ops (2 ^ 1024)) signal_context fmempty sc (en_world e) = (sc', w', x)"
    using prod_cases3 by blast
  then obtain ex where e: "x = Inl ex" using sc(3) by (cases x) simp_all
  from tick_raises_only_oversized [OF signal_registry_ok sc(1,2) x [unfolded e]] x e show ?thesis by blast
qed

section \<open>The static cache\<close>

text \<open>
  C14. The static cache is invisible in the values: over any sequence of ticks a fresh scheduler of a
  compiled plan publishes the same values or raises the same exception, and leaves the runtimes in
  the same states, as one which forgets the cache before every tick and so recomputes every node,
  provided the runtimes of the static nodes are pure, no clockless node with outputs opts out of
  caching, and the source values given to the ticks are not those of static nodes. The node errors
  reported are not compared: a static node that fails is cached as \<open>NoData\<close>, so its error is
  reported by the first tick only.
\<close>

theorem static_cache_invisible:
  assumes "registry_ok registry" and "compile registry s roots = Inr r" and "cr_plan r = Some (sc_plan sc)"
    and "sc_static_cache sc = fmempty" and "scheduler_ok sc w"
    and "static_pure ops sc w (ep_nodes (sc_plan sc))"
    and "\<forall>n \<in> set (ep_nodes (sc_plan sc)). cn_clock_id n = None \<longrightarrow> cn_output_types n \<noteq> [] \<longrightarrow>
      ec_cache_policy (cn_definition n) \<noteq> NEVER"
    and "\<forall>(ctx, v) \<in> set ticks. feeds_sources (ep_nodes (sc_plan sc)) v"
  shows "\<exists>rs sa sb w'. run_ticks ops ticks sc w = (rs, sa, w') \<and> run_ticks_uncached ops ticks sc w = (rs, sb, w')"
proof -
  let ?ns = "ep_nodes (sc_plan sc)"
  have pc: "plan_compiled registry (sc_plan sc)" using assms(2,3) plan_compiled_def by blast
  note pd = plan_dicts [OF assms(1) pc]
  have o: "plan_ordered sc w ?ns"
    unfolding plan_ordered_def using pd(4,5) compiled_static_closed [OF assms(1-3,7)] assms(5)
    by (simp add: scheduler_ok_def)
  have "cache_exact ops sc w ?ns (sc_static_cache sc)" unfolding assms(4) by (rule cache_exact_empty)
  from ticks_uncached [OF o assms(6) this refl assms(8), of "sc_static_cache sc"] show ?thesis by simp
qed

theorem static_cache_invisible_witness:
  "\<exists>sc w rs sa sb w'. map cn_node_id (ep_nodes (sc_plan sc)) = [1, 2, 3] \<and>
     run_ticks (signal_ops 7) [(signal_context, fmempty), (signal_context, fmempty)] sc w = (rs, sa, w') \<and>
     run_ticks_uncached (signal_ops 7) [(signal_context, fmempty), (signal_context, fmempty)] sc w = (rs, sb, w')"
proof -
  obtain sc r and e :: "string engine" where sc: "compile signal_registry signal_snapshot None = Inr r" "cr_plan r = Some (sc_plan sc)"
    "sc_static_cache sc = fmempty" "scheduler_ok sc (en_world e)" "map cn_node_id (ep_nodes (sc_plan sc)) = [1, 2, 3]"
    "list_all (\<lambda>n. ec_cache_policy (cn_definition n) \<noteq> NEVER \<and> cn_is_demanded n) (ep_nodes (sc_plan sc))"
    using signal_started [OF signal_nodes] by (elim exE conjE) (rule that; assumption)
  have "pure_runtime (signal_ops 7) s" for s by (simp add: pure_runtime_def signal_ops_def)
  then have "static_pure (signal_ops 7) sc (en_world e) (ep_nodes (sc_plan sc))"
    using sc(4) by (auto simp: static_pure_def scheduler_ok_def)
  moreover have "\<forall>n \<in> set (ep_nodes (sc_plan sc)). cn_clock_id n = None \<longrightarrow> cn_output_types n \<noteq> [] \<longrightarrow>
      ec_cache_policy (cn_definition n) \<noteq> NEVER"
    using sc(6) by (simp add: list_all_iff)
  moreover have "\<forall>(ctx, v) \<in> set [(signal_context, fmempty), (signal_context, fmempty)]. feeds_sources (ep_nodes (sc_plan sc)) v"
    by (simp add: feeds_sources_def)
  ultimately obtain rs sa sb w' where
    "run_ticks (signal_ops 7) [(signal_context, fmempty), (signal_context, fmempty)] sc (en_world e) = (rs, sa, w')"
    "run_ticks_uncached (signal_ops 7) [(signal_context, fmempty), (signal_context, fmempty)] sc (en_world e) = (rs, sb, w')"
    using static_cache_invisible [OF signal_registry_ok sc(1-4), of "signal_ops 7"
        "[(signal_context, fmempty), (signal_context, fmempty)]"] by blast
  with sc(5) show ?thesis by (intro exI conjI)
qed

section \<open>Runtimes of the engine\<close>

text \<open>
  C16. Whatever the runtimes do, every runtime the engine ever created is at any moment exactly one
  of: closed, owned by the active plan, or owned by the prepared candidate; none is closed twice.
\<close>

theorem runtimes_owned_once:
  assumes "engine_reachable ops registry e" and "registry_ok registry"
  shows "mset (created_refs (en_world e)) = mset (closed_refs (en_world e)) +
    mset (active_refs (en_facade e)) + mset (candidate_refs (en_candidate e)) \<and> distinct (created_refs (en_world e))"
proof -
  let ?all = "closed_refs (en_world e) @ active_refs (en_facade e) @ candidate_refs (en_candidate e)"
  have inv: "engine_inv e" by (rule engine_inv_reachable [OF assms])
  then have c: "created_refs (en_world e) = [0..<next_runtime (en_world e)]" by (simp add: engine_inv_def world_ok_def)
  have "distinct ?all" "set ?all = set [0..<next_runtime (en_world e)]"
    using inv by (simp_all add: engine_inv_def atLeast0LessThan)
  then have "mset ?all = mset [0..<next_runtime (en_world e)]"
    by (intro set_eq_iff_mset_eq_distinct [THEN iffD1]) simp_all
  then show ?thesis unfolding c by (simp add: union_assoc)
qed

theorem runtimes_owned_once_witness:
  "\<exists>e :: string engine. mset (created_refs (en_world e)) = mset (closed_refs (en_world e)) + mset (active_refs (en_facade e)) \<and>
     active_refs (en_facade e) = [0, 1, 2]"
proof -
  obtain sc and e :: "string engine" where e: "engine_reachable (signal_ops 7) signal_registry e" "en_candidate e = None"
    "ef_scheduler (en_facade e) = Some sc" "sc_runtimes sc = [(1, 0), (2, 1), (3, 2)]"
    using signal_started [OF signal_nodes] by (elim exE conjE) (rule that; assumption)
  have "active_refs (en_facade e) = [0, 1, 2]" using e(3,4) by (simp add: active_refs_def refs_def)
  moreover have "mset (candidate_refs (en_candidate e)) = {#}" using e(2) by simp
  ultimately show ?thesis using runtimes_owned_once [OF e(1) signal_registry_ok] by (metis add.right_neutral)
qed

text \<open>
  C17. Shutting down always succeeds: stopping or closing an engine without a prepared candidate
  leaves it without a plan and with every runtime it ever created closed exactly once, even when
  panics, resets and closes raise.
\<close>

theorem shutdown_closes_everything:
  assumes "engine_reachable ops registry e" and "registry_ok registry" and "en_candidate e = None"
    and "facade_stop ops reason (en_facade e) (en_world e) = (f, w, raised) \<or>
      facade_close ops (en_facade e) (en_world e) = (f, w)"
  shows "ef_plan f = None \<and> ef_scheduler f = None \<and> mset (closed_refs w) = mset (created_refs w) \<and> distinct (created_refs w)"
proof -
  let ?e = "e\<lparr>en_facade := f, en_world := w\<rparr>"
  have "engine_step ops registry e ?e"
    using assms(3,4) by (auto intro: engine_step.stop engine_step.close)
  then have "engine_reachable ops registry ?e" using assms(1) by (rule engine_reachable.step [rotated])
  from runtimes_owned_once [OF this assms(2)]
  have m: "mset (created_refs w) = mset (closed_refs w) + mset (active_refs f)" "distinct (created_refs w)"
    using assms(3) by simp_all
  have f: "ef_plan f = None \<and> ef_scheduler f = None"
    using assms(4) by (auto simp: facade_stop_def facade_close_def split: option.splits prod.splits)
  then have "active_refs f = []" by (simp add: active_refs_def)
  with m f show ?thesis by simp
qed

theorem shutdown_closes_everything_witness:
  "\<exists>(e :: string engine) f w raised. active_refs (en_facade e) = [0, 1, 2] \<and>
     facade_stop (signal_ops 7) PLAN_REPLACED (en_facade e) (en_world e) = (f, w, raised) \<and>
     mset (closed_refs w) = mset (created_refs w)"
proof -
  obtain sc and e :: "string engine" where e: "engine_reachable (signal_ops 7) signal_registry e" "en_candidate e = None"
    "ef_scheduler (en_facade e) = Some sc" "sc_runtimes sc = [(1, 0), (2, 1), (3, 2)]"
    using signal_started [OF signal_nodes] by (elim exE conjE) (rule that; assumption)
  obtain f w raised where s: "facade_stop (signal_ops 7) PLAN_REPLACED (en_facade e) (en_world e) = (f, w, raised)"
    using prod_cases3 by blast
  have "active_refs (en_facade e) = [0, 1, 2]" using e(3,4) by (simp add: active_refs_def refs_def)
  with shutdown_closes_everything [OF e(1) signal_registry_ok e(2) disjI1 [OF s]] s show ?thesis by blast
qed

lemma commit_result:
  "facade_commit ops reason c f w = (Inr (f', c'), w') \<Longrightarrow> pa_result c' = pa_result c"
  unfolding facade_commit_def by (auto split: bool.splits sum.splits option.splits prod.splits)

lemma activate_stages:
  assumes "facade_activate ops registry s roots reason f w = (Inr (f', result), w')" and "cr_plan result = Some plan"
  shows "\<exists>c v c'. facade_prepare ops registry s roots reason f w = (Inr c, v) \<and>
    facade_commit ops reason c f v = (Inr (f', c'), w') \<and> pa_result c = result"
proof -
  obtain a v where p: "facade_prepare ops registry s roots reason f w = (a, v)" by fastforce
  with assms(1) obtain c where c: "a = Inr c" by (cases a) (simp_all add: facade_activate_def)
  obtain b u where b: "facade_commit ops reason c f v = (b, u)" by fastforce
  have plan: "cr_plan (pa_result c) \<noteq> None"
  proof
    assume "cr_plan (pa_result c) = None"
    then show False using assms p c by (simp add: facade_activate_def)
  qed
  with assms(1) p c b obtain y where y: "b = Inr y" by (cases b) (simp_all add: facade_activate_def)
  obtain f1 c1 where f1: "y = (f1, c1)" by (cases y)
  have "f' = f1 \<and> result = pa_result c1 \<and> w' = u"
    using assms(1) p c b y f1 plan by (simp add: facade_activate_def)
  with p c b y f1 commit_result show ?thesis by metis
qed

text \<open>
  C18. An activation that replaces a running plan keeps exactly the state it may keep: a node whose
  retention key is unchanged, and whose clock is not that of a source which changed, goes on with
  the runtime it had; every other node gets a runtime that did not exist before.
\<close>

theorem activation_keeps_state:
  assumes "engine_reachable ops registry e" and "registry_ok registry" and "ef_scheduler (en_facade e) = Some prev"
    and "facade_activate ops registry s roots reason (en_facade e) (en_world e) = (Inr (f, result), w)"
    and "cr_plan result = Some plan"
  shows "ef_plan f = Some plan \<and> (\<exists>sc. ef_scheduler f = Some sc \<and> sc_plan sc = plan \<and> sc_static_cache sc = fmempty \<and>
    (\<forall>n \<in> set (ep_nodes plan). if reason = PLAN_REPLACED \<and> keeps_state prev plan n
       then dict_get (sc_runtimes sc) (cn_node_id n) = dict_get (sc_runtimes prev) (cn_node_id n)
       else \<exists>r \<ge> next_runtime (en_world e). dict_get (sc_runtimes sc) (cn_node_id n) = Some r))"
proof -
  let ?f = "en_facade e" and ?w = "en_world e"
  obtain c v c' where c: "facade_prepare ops registry s roots reason ?f ?w = (Inr c, v)"
    "facade_commit ops reason c ?f v = (Inr (f, c'), w)" "pa_result c = result"
    using activate_stages [OF assms(4,5)] by blast
  have "cr_plan (pa_result c) = Some plan" using c(3) assms(5) by simp
  then obtain sc where sc: "prepare_replacement ops plan (Some prev) (reason = PLAN_REPLACED) ?w = (Inr (Inr sc), v)"
    "c = \<lparr>pa_result = result, pa_scheduler = Some sc, pa_committed = False\<rparr>"
    using c(1,3) assms(3) unfolding facade_prepare_def by (auto split: sum.splits option.splits prod.splits)
  obtain sc' prev' where claim: "claim_borrowed_runtimes sc prev = Inr (sc', prev')" and
    f: "f = ?f\<lparr>ef_plan := Some plan, ef_scheduler := Some sc'\<rparr>"
    using c(2) assms(3,5) unfolding facade_commit_def sc(2) by (auto split: sum.splits)
  have sc': "sc' = sc\<lparr>sc_borrowed := {}\<rparr>" using claim by (auto simp: claim_borrowed_runtimes_def split: if_splits)
  have inv: "engine_inv e" by (rule engine_inv_reachable [OF assms(1,2)])
  then have wok: "world_ok ?w" and fok: "fst ` set (sc_runtimes prev) = set (topological_node_ids (sc_plan prev))"
    using assms(3) by (simp_all add: engine_inv_def facade_ok_def)
  have pc: "plan_compiled registry plan"
    using prepared_result [OF c(1)] c(3) assms(5) unfolding plan_compiled_def by metis
  have d: "distinct (topological_node_ids (sc_plan prev))" "distinct (topological_node_ids plan)"
    using plan_dicts(3) [OF assms(2)] active_ok [OF assms(1-3)] pc by blast+
  obtain reusable where si: "scheduler_init ops plan reusable ?w = (Inr sc, v)"
    using sc(1) unfolding prepare_replacement_def by (auto split: sum.splits prod.splits)
  have init: "sc_plan sc = plan \<and> sc_static_cache sc = fmempty"
    using scheduler_init_ok [OF si wok d(2)] by simp
  from replacement_runtimes [OF sc(1) wok d] fok init show ?thesis
    unfolding f sc' by simp
qed

theorem activation_keeps_state_witness:
  "\<exists>(e :: string engine) prev f result w sc. ef_scheduler (en_facade e) = Some prev \<and>
     facade_activate (signal_ops 7) signal_registry signal_snapshot None PLAN_REPLACED (en_facade e) (en_world e) =
       (Inr (f, result), w) \<and> ef_scheduler f = Some sc \<and> dict_get (sc_runtimes sc) 1 = dict_get (sc_runtimes prev) 1"
proof -
  obtain sc and e :: "string engine" where e: "engine_reachable (signal_ops 7) signal_registry e" "ef_scheduler (en_facade e) = Some sc"
    and c: "case facade_activate (signal_ops 7) signal_registry signal_snapshot None PLAN_REPLACED (en_facade e) (en_world e) of
      (Inr (f', result), w') \<Rightarrow> (case cr_plan result of Some plan \<Rightarrow> list_all (keeps_state sc plan) (ep_nodes plan) \<and>
         list_ex (\<lambda>n. cn_node_id n = 1) (ep_nodes plan) | None \<Rightarrow> False)
    | _ \<Rightarrow> False"
    using signal_started [OF signal_replaced] by (elim exE conjE) (rule that; assumption)
  obtain a w where a: "facade_activate (signal_ops 7) signal_registry signal_snapshot None PLAN_REPLACED (en_facade e) (en_world e) = (a, w)"
    by fastforce
  obtain f result where f: "a = Inr (f, result)" using c a by (cases a) auto
  obtain plan where plan: "cr_plan result = Some plan" "list_all (keeps_state sc plan) (ep_nodes plan)"
    "list_ex (\<lambda>n. cn_node_id n = 1) (ep_nodes plan)"
    using c a f by (cases "cr_plan result") simp_all
  obtain n where n: "n \<in> set (ep_nodes plan)" "cn_node_id n = 1" "keeps_state sc plan n"
    using plan(2,3) by (auto simp: list_ex_iff list_all_iff)
  from activation_keeps_state [OF e(1) signal_registry_ok e(2) a [unfolded f] plan(1)] n
  have "\<exists>sc'. ef_scheduler f = Some sc' \<and> dict_get (sc_runtimes sc') 1 = dict_get (sc_runtimes sc) 1" by force
  with e(2) a f show ?thesis by blast
qed

section \<open>Panics\<close>

text \<open>
  C19. Panics separate ticks, for runtimes of any behaviour which record the generation in the
  context of every tick they are run in: the generation a panic call passes to a runtime, recorded
  in the ordering of that output, makes every generation any runtime was run with before stale, and
  none of those which any later tick, after any further steps of the engine, hands to a runtime.
\<close>

theorem panic_separates_ticks:
  assumes "engine_reachable (recorded ops) registry e"
    and "facade_panic (recorded ops) (en_facade e) (en_world e) = (w, raised)"
    and "Panicked r g \<in> set (drop (length (events (en_world e))) (events w))" and "stale_upto_generation so \<le> g"
    and "(engine_step (recorded ops) registry)\<^sup>*\<^sup>* (e\<lparr>en_world := w\<rparr>) e'"
    and "facade_tick (recorded ops) ctx v (en_facade e') (en_world e') = (f, w', res)"
  shows "\<exists>so'. record_panic so g = Inr so' \<and>
    (\<forall>q s l. fmlookup (cells (en_world e)) q = Some (s, l) \<longrightarrow> (\<forall>p \<in> set l. is_stale so' p)) \<and>
    (\<forall>q s l. fmlookup (cells w') q = Some (s, l) \<longrightarrow>
       (\<exists>s0 l0 new. fmlookup (cells (en_world e')) q = Some (s0, l0) \<and> l = new @ l0 \<and> (\<forall>p \<in> set new. \<not> is_stale so' p)))"
proof -
  have g: "g = ef_generation (en_facade e)" by (rule facade_panicked [OF assms(2,3)])
  let ?so = "so\<lparr>stale_upto_generation := max (stale_upto_generation so) g\<rparr>"
  have rec: "record_panic so g = Inr ?so" using generation_nonneg [OF assms(1)] g by (simp add: record_panic_def)
  have old: "is_stale ?so p" if "fmlookup (cells (en_world e)) q = Some (s, l)" "p \<in> set l" for q s l p
    using recorded_reachable [OF assms(1)] that by (fastforce simp: recorded_upto_def each_cell_def is_stale_def g)
  have later: "g \<le> ef_generation (en_facade e')" using generation_steps [OF assms(5)] g by simp
  have new: "\<exists>s0 l0 new. fmlookup (cells (en_world e')) q = Some (s0, l0) \<and> l = new @ l0 \<and> (\<forall>p \<in> set new. \<not> is_stale ?so p)"
    if q: "fmlookup (cells w') q = Some (s, l)" for q s l
  proof -
    from tick_records [OF assms(6) q] obtain s0 l0 new where
      n: "fmlookup (cells (en_world e')) q = Some (s0, l0)" "l = new @ l0" "set new \<subseteq> {ef_generation (en_facade e') + 1}"
      by blast
    have "\<forall>p \<in> set new. \<not> is_stale ?so p" using n(3) later assms(4) by (auto simp: is_stale_def)
    with n(1,2) show ?thesis by blast
  qed
  from rec old new show ?thesis by blast
qed

theorem panic_separates_ticks_witness:
  "\<exists>e w m f w' res so'. engine_reachable (recorded (signal_ops 7)) signal_registry e \<and>
     facade_panic (recorded (signal_ops 7)) (en_facade e) (en_world e) = (w, m) \<and>
     facade_tick (recorded (signal_ops 7)) signal_context fmempty (en_facade e) w = (f, w', res) \<and>
     fmlookup (cells (en_world e)) 1 = Some (''gauge'', [1]) \<and> fmlookup (cells w') 1 = Some (''gauge'', [2, 1]) \<and>
     record_panic state_ordering_init 1 = Inr so' \<and> is_stale so' 1 \<and> \<not> is_stale so' 2"
proof -
  let ?ops = "recorded (signal_ops 7)"
  obtain sc and e :: "(string \<times> int list) engine" where e: "engine_reachable ?ops signal_registry e" "en_candidate e = None"
    and run: "case facade_tick ?ops signal_context fmempty (en_facade e) (en_world e) of (f1, w1, r1) \<Rightarrow>
      case facade_panic ?ops f1 w1 of (w2, m) \<Rightarrow>
      case facade_tick ?ops signal_context fmempty f1 w2 of (f3, w3, r3) \<Rightarrow>
        fmlookup (cells w1) 1 = Some (''gauge'', [1]) \<and> events w2 = events w1 @ [Panicked 1 1] \<and>
        fmlookup (cells w2) 1 = Some (''gauge'', [1]) \<and> fmlookup (cells w3) 1 = Some (''gauge'', [2, 1])"
    using signal_started [OF signal_stamps] by (elim exE conjE) (rule that; assumption)
  obtain f1 w1 r1 where t1: "facade_tick ?ops signal_context fmempty (en_facade e) (en_world e) = (f1, w1, r1)"
    using prod_cases3 by blast
  obtain w2 m where p: "facade_panic ?ops f1 w1 = (w2, m)" by fastforce
  obtain f3 w3 r3 where t3: "facade_tick ?ops signal_context fmempty f1 w2 = (f3, w3, r3)" using prod_cases3 by blast
  have c: "fmlookup (cells w1) 1 = Some (''gauge'', [1])" "events w2 = events w1 @ [Panicked 1 1]"
    "fmlookup (cells w2) 1 = Some (''gauge'', [1])" "fmlookup (cells w3) 1 = Some (''gauge'', [2, 1])"
    using run unfolding t1 prod.case p t3 by blast+
  let ?e = "e\<lparr>en_facade := f1, en_world := w1\<rparr>"
  have r: "engine_reachable ?ops signal_registry ?e"
    by (rule engine_reachable.step [OF e(1) engine_step.tick [OF t1]])
  have p': "facade_panic ?ops (en_facade ?e) (en_world ?e) = (w2, m)" using p by simp
  have ev: "Panicked 1 1 \<in> set (drop (length (events (en_world ?e))) (events w2))" using c(2) by simp
  have t3': "facade_tick ?ops signal_context fmempty (en_facade (?e\<lparr>en_world := w2\<rparr>)) (en_world (?e\<lparr>en_world := w2\<rparr>)) = (f3, w3, r3)"
    using t3 by simp
  have "stale_upto_generation state_ordering_init \<le> 1" by (simp add: state_ordering_init_def)
  from panic_separates_ticks [OF r p' ev this rtranclp.rtrancl_refl t3'] obtain so' where
    so: "record_panic state_ordering_init 1 = Inr so'"
      "\<forall>q s l. fmlookup (cells (en_world ?e)) q = Some (s, l) \<longrightarrow> (\<forall>p \<in> set l. is_stale so' p)"
      "\<forall>q s l. fmlookup (cells w3) q = Some (s, l) \<longrightarrow> (\<exists>s0 l0 new. fmlookup (cells (en_world (?e\<lparr>en_world := w2\<rparr>))) q = Some (s0, l0) \<and>
         l = new @ l0 \<and> (\<forall>p \<in> set new. \<not> is_stale so' p))"
    by blast
  have "is_stale so' 1" using so(2) c(1) by fastforce
  moreover have "\<not> is_stale so' 2"
  proof -
    from so(3) c(4) obtain s0 l0 new where n: "fmlookup (cells (en_world (?e\<lparr>en_world := w2\<rparr>))) 1 = Some (s0, l0)"
      "[2, 1] = new @ l0" "\<forall>p \<in> set new. \<not> is_stale so' p" by blast
    then have "l0 = [1]" using c(3) by simp
    then show ?thesis using n(2,3) by (cases new) auto
  qed
  moreover have "facade_tick ?ops signal_context fmempty (en_facade ?e) w2 = (f3, w3, r3)" using t3 by simp
  moreover have "fmlookup (cells (en_world ?e)) 1 = Some (''gauge'', [1])" using c(1) by simp
  ultimately show ?thesis using r p' c(4) so(1) by blast
qed

definition panic_capable :: "'s runtime_ops \<Rightarrow> 's world \<Rightarrow> rt_ref \<Rightarrow> bool" where
  "panic_capable ops w r \<longleftrightarrow> (\<exists>s. fmlookup (cells w) r = Some s \<and> ro_panic ops s \<noteq> None)"

lemma panic_runtime_effect:
  assumes "panic_runtime ops g r w = (w', raised)"
  shows "events w' = events w @ (if panic_capable ops w r then [Panicked r g] else []) \<and>
    (\<forall>r'. r' \<noteq> r \<longrightarrow> fmlookup (cells w') r' = fmlookup (cells w) r') \<and> (raised \<noteq> None \<longrightarrow> panic_capable ops w r)"
proof (cases "fmlookup (cells w) r")
  case None
  with assms show ?thesis by (simp add: panic_runtime_def panic_capable_def)
next
  case (Some s)
  show ?thesis
  proof (cases "ro_panic ops s")
    case None
    with assms Some show ?thesis by (simp add: panic_runtime_def panic_capable_def)
  next
    case (Some f)
    obtain s' x where "f g = (s', x)" by fastforce
    with assms Some \<open>fmlookup (cells w) r = Some s\<close> show ?thesis
      by (auto simp: panic_runtime_def panic_capable_def world_call_def)
  qed
qed

lemma panic_all_effect:
  assumes "call_all (panic_runtime ops g) rs w = (w', raised)" and "distinct rs"
  shows "case raised of
      None \<Rightarrow> events w' = events w @ map (\<lambda>r. Panicked r g) (filter (panic_capable ops w) rs)
    | Some m \<Rightarrow> \<exists>pre r post. rs = pre @ r # post \<and>
        events w' = events w @ map (\<lambda>r. Panicked r g) (filter (panic_capable ops w) pre @ [r])"
  using assms
proof (induction rs arbitrary: w)
  case (Cons r rs)
  obtain u x where u: "panic_runtime ops g r w = (u, x)" by fastforce
  note eff = panic_runtime_effect [OF u]
  have cap: "panic_capable ops u q = panic_capable ops w q" if "q \<in> set rs" for q
    using eff that Cons.prems(2) by (auto simp: panic_capable_def)
  show ?case
  proof (cases x)
    case (Some m)
    have wr: "w' = u" "raised = Some m" using Cons.prems(1) u Some by simp_all
    have "events u = events w @ map (\<lambda>r. Panicked r g) (filter (panic_capable ops w) [] @ [r])"
      using eff Some by simp
    then show ?thesis unfolding wr option.case by (intro exI [of _ "[]"] exI [of _ r] exI [of _ rs]) simp
  next
    case None
    have sub: "filter (panic_capable ops u) ys = filter (panic_capable ops w) ys" if "set ys \<subseteq> set rs" for ys
      by (rule filter_cong [OF refl]) (use cap that in blast)
    have "call_all (panic_runtime ops g) rs u = (w', raised)" using Cons.prems(1) u None by simp
    note ih = Cons.IH [OF this]
    show ?thesis
    proof (cases raised)
      case None
      with ih Cons.prems(2) eff sub [OF subset_refl] show ?thesis by simp
    next
      case (Some m)
      with ih Cons.prems(2) obtain pre q post where p: "rs = pre @ q # post"
        "events w' = events u @ map (\<lambda>r. Panicked r g) (filter (panic_capable ops u) pre @ [q])" by auto
      have sp: "filter (panic_capable ops u) pre = filter (panic_capable ops w) pre"
        by (rule sub) (use p(1) in auto)
      have "r # rs = (r # pre) @ q # post \<and>
          events w' = events w @ map (\<lambda>r. Panicked r g) (filter (panic_capable ops w) (r # pre) @ [q])"
        using eff p sp by simp
      then show ?thesis unfolding Some option.case by blast
    qed
  qed
qed simp

text \<open>
  C21. A panic of the engine reaches the panic-capable runtimes of the active plan in order, up to
  the first one that raises; when one raises, none after it is panicked.
\<close>

theorem panic_stops_at_failure:
  assumes "engine_reachable ops registry e" and "registry_ok registry" and "ef_scheduler (en_facade e) = Some sc"
    and "facade_panic ops (en_facade e) (en_world e) = (w', raised)"
  shows "case raised of
      None \<Rightarrow> events w' = events (en_world e) @ map (\<lambda>r. Panicked r (ef_generation (en_facade e)))
        (filter (panic_capable ops (en_world e)) (active_refs (en_facade e)))
    | Some m \<Rightarrow> \<exists>pre r post. active_refs (en_facade e) = pre @ r # post \<and>
        events w' = events (en_world e) @ map (\<lambda>r. Panicked r (ef_generation (en_facade e)))
          (filter (panic_capable ops (en_world e)) pre @ [r])"
proof -
  have d: "distinct (active_refs (en_facade e))"
    using engine_inv_reachable [OF assms(1,2)] by (simp add: engine_inv_def)
  have a: "active_refs (en_facade e) = map snd (sc_runtimes sc)" using assms(3) by (simp add: active_refs_def refs_def)
  have "call_all (panic_runtime ops (ef_generation (en_facade e))) (map snd (sc_runtimes sc)) (en_world e) = (w', raised)"
    using assms(3,4) by (simp add: facade_panic_def panic_scheduler_def)
  from panic_all_effect [OF this d [unfolded a]] show ?thesis unfolding a .
qed

theorem panic_stops_at_failure_witness:
  "\<exists>(e :: string engine) w' m pre r post. facade_panic (signal_ops 7) (en_facade e) (en_world e) = (w', Some m) \<and>
     active_refs (en_facade e) = pre @ r # post \<and> post \<noteq> [] \<and>
     events w' = events (en_world e) @ map (\<lambda>r. Panicked r (ef_generation (en_facade e)))
       (filter (panic_capable (signal_ops 7) (en_world e)) pre @ [r])"
proof -
  obtain sc and e :: "string engine" where e: "engine_reachable (signal_ops 7) signal_registry e" "ef_scheduler (en_facade e) = Some sc"
    and c: "case facade_panic (signal_ops 7) (en_facade e) (en_world e) of (w', raised) \<Rightarrow>
      raised = Some (Msg ''Timed out'' []) \<and> events w' = events (en_world e) @ [Panicked 1 0] \<and>
      sc_runtimes sc = [(1, 0), (2, 1), (3, 2)]"
    using signal_started [OF signal_panics] by (elim exE conjE) (rule that; assumption)
  obtain w' m where p: "facade_panic (signal_ops 7) (en_facade e) (en_world e) = (w', Some m)"
    "events w' = events (en_world e) @ [Panicked 1 0]"
    using c by (cases "facade_panic (signal_ops 7) (en_facade e) (en_world e)") simp
  have refs: "active_refs (en_facade e) = [0, 1, 2]" using c e(2) by (simp add: active_refs_def refs_def split: prod.splits)
  from panic_stops_at_failure [OF e(1) signal_registry_ok e(2) p(1)] obtain pre r post where
    q: "active_refs (en_facade e) = pre @ r # post"
    "events w' = events (en_world e) @ map (\<lambda>r. Panicked r (ef_generation (en_facade e)))
          (filter (panic_capable (signal_ops 7) (en_world e)) pre @ [r])" by auto
  have "r = 1" using q(2) p(2) by simp
  then have "post \<noteq> []" using q(1) refs by (auto simp: Cons_eq_append_conv)
  with p(1) q show ?thesis by blast
qed

end
