(* ===== verification/Commands.thy ===== *)
theory Commands
  imports Compiler
begin

text \<open>
  The editing commands of \<^verbatim>\<open>ui/commands/graph_commands.py\<close>, which are the only way the user
  interface changes the graph document, with the clipboard fragments of
  \<^verbatim>\<open>persistence/clipboard.py\<close> they paste. A command is created on a document and remembers what
  it needs to undo itself; \<open>redo\<close> and \<open>undo\<close> are sequences of document operations, and one that
  raises in the middle leaves the operations before it in effect. The callback \<open>on_changed\<close> and the
  texts shown to the user are left out.
\<close>

section \<open>Edits\<close>

text \<open>
  The statements of \<open>redo\<close> and \<open>undo\<close>: an operation of the document, a removal that is skipped
  when the value is not there, and the move of a group.
\<close>

datatype edit =
    Do doc_op
  | DropNode uuid
  | DropConnection uuid
  | DropGroup uuid
  | PlaceGroup uuid point

text \<open>\<open>replace(group, position=...)\<close> runs the checks of the constructor.\<close>

definition moved_group :: "point \<Rightarrow> group_model \<Rightarrow> group_model res" where
  "moved_group pos g = group_model_init (group_id g) (group_kind_of g) (group_title g) (group_text g) pos
     (group_size g) (group_color g)"

definition place_group :: "uuid \<Rightarrow> point \<Rightarrow> graph_document \<Rightarrow> graph_document res" where
  "place_group i pos d =
     (case fmlookup (g_groups d) i of
        None \<Rightarrow> Inl (KeyError (Msg ''Unknown group: {}'' [ArgId i]))
      | Some g \<Rightarrow> bind_res (moved_group pos g) (\<lambda>g. restore_group g True d))"

fun run_edit :: "edit \<Rightarrow> graph_document \<Rightarrow> graph_document res" where
  "run_edit (Do op) d = apply_op op d"
| "run_edit (DropNode i) d = (if i |\<in>| fmdom (g_nodes d) then remove_node i d else Inr d)"
| "run_edit (DropConnection i) d = (if i |\<in>| fmdom (g_connections d) then remove_connection i d else Inr d)"
| "run_edit (DropGroup i) d = (if i |\<in>| fmdom (g_groups d) then remove_group i d else Inr d)"
| "run_edit (PlaceGroup i pos) d = place_group i pos d"

text \<open>A raise ends the sequence and keeps what was done.\<close>

fun run_edits :: "edit list \<Rightarrow> graph_document \<Rightarrow> graph_document \<times> py_error option" where
  "run_edits [] d = (d, None)"
| "run_edits (e # es) d = (case run_edit e d of Inl x \<Rightarrow> (d, Some x) | Inr d' \<Rightarrow> run_edits es d')"

section \<open>Commands\<close>

datatype command =
    AddNodeCommand node_model "node_model list" "connection_model list"
  | AddGroupCommand group_model
  | DeleteGroupsCommand "group_model list"
  | MoveGroupsCommand "(uuid, point) fmap" "(uuid, point) fmap"
  | EditGroupCommand group_model group_model
  | DeleteNodesCommand "node_model list" "connection_model list"
  | MoveNodesCommand "(uuid, point) fmap" "(uuid, point) fmap"
  | SetParameterCommand uuid string node_model node_model
  | SetConnectionPreviewCommand uuid "literal option" literal
  | RandomizeParametersCommand "node_model list" "node_model list"
  | RandomizeNodesCommand "node_model list" "connection_model list" "node_model list" "connection_model list"
  | RelinkMediaCommand node_model node_model
  | AddConnectionCommand connection_model
  | ReplaceConnectionCommand connection_model "connection_model option"
  | RemoveConnectionCommand connection_model
  | PasteCommand "node_model list" "connection_model list"

definition preview_visible_key :: string where
  "preview_visible_key = ''preview_visible''"

abbreviation restore_nodes :: "node_model list \<Rightarrow> edit list" where
  "restore_nodes ns \<equiv> map (\<lambda>n. Do (RestoreNode n False)) ns"

abbreviation replace_nodes :: "node_model list \<Rightarrow> edit list" where
  "replace_nodes ns \<equiv> map (\<lambda>n. Do (RestoreNode n True)) ns"

abbreviation restore_connections :: "connection_model list \<Rightarrow> edit list" where
  "restore_connections cs \<equiv> map (\<lambda>c. Do (RestoreConnection c False)) cs"

abbreviation restore_groups :: "group_model list \<Rightarrow> edit list" where
  "restore_groups gs \<equiv> map (\<lambda>g. Do (RestoreGroup g False)) gs"

abbreviation drop_nodes :: "node_model list \<Rightarrow> edit list" where
  "drop_nodes ns \<equiv> map (\<lambda>n. DropNode (node_id n)) ns"

definition move_groups :: "(uuid, point) fmap \<Rightarrow> edit list" where
  "move_groups ps = map (\<lambda>(i, pos). PlaceGroup i pos) (sorted_list_of_fmap ps)"

definition move_nodes :: "(uuid, point) fmap \<Rightarrow> edit list" where
  "move_nodes ps = map (\<lambda>(i, pos). Do (SetPosition i pos)) (sorted_list_of_fmap ps)"

definition set_preview :: "uuid \<Rightarrow> literal option \<Rightarrow> edit list" where
  "set_preview i raw = [Do (case raw of
       None \<Rightarrow> RemoveConnectionUiStateKey i preview_visible_key
     | Some v \<Rightarrow> SetConnectionUiState i preview_visible_key v)]"

definition swap_subgraph :: "node_model list \<Rightarrow> connection_model list \<Rightarrow> node_model list \<Rightarrow> connection_model list \<Rightarrow>
    edit list" where
  "swap_subgraph removed_nodes removed_connections added_nodes added_connections =
     map (\<lambda>c. DropConnection (conn_id c)) removed_connections @ drop_nodes removed_nodes @
     restore_nodes added_nodes @ restore_connections added_connections"

definition add_node_redo :: "node_model \<Rightarrow> node_model list \<Rightarrow> connection_model list \<Rightarrow> edit list" where [simp]:
  "add_node_redo n replaced cs = drop_nodes replaced @ [Do (RestoreNode n False)]"

definition add_node_undo :: "node_model \<Rightarrow> node_model list \<Rightarrow> connection_model list \<Rightarrow> edit list" where [simp]:
  "add_node_undo n replaced cs = Do (RemoveNode (node_id n)) # restore_nodes replaced @ restore_connections cs"

definition add_group_redo :: "group_model \<Rightarrow> edit list" where [simp]:
  "add_group_redo g = [Do (RestoreGroup g False)]"

definition add_group_undo :: "group_model \<Rightarrow> edit list" where [simp]:
  "add_group_undo g = [Do (RemoveGroup (group_id g))]"

definition delete_groups_redo :: "group_model list \<Rightarrow> edit list" where [simp]:
  "delete_groups_redo gs = map (\<lambda>g. DropGroup (group_id g)) gs"

definition delete_groups_undo :: "group_model list \<Rightarrow> edit list" where [simp]:
  "delete_groups_undo gs = restore_groups gs"

definition edit_group_redo :: "group_model \<Rightarrow> group_model \<Rightarrow> edit list" where [simp]:
  "edit_group_redo old new = [Do (RestoreGroup new True)]"

definition edit_group_undo :: "group_model \<Rightarrow> group_model \<Rightarrow> edit list" where [simp]:
  "edit_group_undo old new = [Do (RestoreGroup old True)]"

definition delete_nodes_redo :: "node_model list \<Rightarrow> connection_model list \<Rightarrow> edit list" where [simp]:
  "delete_nodes_redo ns cs = drop_nodes ns"

definition delete_nodes_undo :: "node_model list \<Rightarrow> connection_model list \<Rightarrow> edit list" where [simp]:
  "delete_nodes_undo ns cs = restore_nodes ns @ restore_connections cs"

definition set_parameter_redo :: "node_model \<Rightarrow> node_model \<Rightarrow> edit list" where [simp]:
  "set_parameter_redo old new = [Do (RestoreNode new True)]"

definition set_parameter_undo :: "node_model \<Rightarrow> node_model \<Rightarrow> edit list" where [simp]:
  "set_parameter_undo old new = [Do (RestoreNode old True)]"

definition relink_media_redo :: "node_model \<Rightarrow> node_model \<Rightarrow> edit list" where [simp]:
  "relink_media_redo old new = [Do (RestoreNode new True)]"

definition relink_media_undo :: "node_model \<Rightarrow> node_model \<Rightarrow> edit list" where [simp]:
  "relink_media_undo old new = [Do (RestoreNode old True)]"

definition add_connection_redo :: "connection_model \<Rightarrow> edit list" where [simp]:
  "add_connection_redo c = [Do (RestoreConnection c False)]"

definition add_connection_undo :: "connection_model \<Rightarrow> edit list" where [simp]:
  "add_connection_undo c = [Do (RemoveConnection (conn_id c))]"

definition replace_connection_redo :: "connection_model \<Rightarrow> connection_model option \<Rightarrow> edit list" where [simp]:
  "replace_connection_redo c replaced = [Do (RestoreConnection c True)]"

definition replace_connection_undo :: "connection_model \<Rightarrow> connection_model option \<Rightarrow> edit list" where [simp]:
  "replace_connection_undo c replaced = Do (RemoveConnection (conn_id c)) # restore_connections (case replaced of None \<Rightarrow> [] | Some r \<Rightarrow> [r])"

definition remove_connection_redo :: "connection_model \<Rightarrow> edit list" where [simp]:
  "remove_connection_redo c = [Do (RemoveConnection (conn_id c))]"

definition remove_connection_undo :: "connection_model \<Rightarrow> edit list" where [simp]:
  "remove_connection_undo c = [Do (RestoreConnection c False)]"

definition paste_redo :: "node_model list \<Rightarrow> connection_model list \<Rightarrow> edit list" where [simp]:
  "paste_redo ns cs = restore_nodes ns @ restore_connections cs"

definition paste_undo :: "node_model list \<Rightarrow> connection_model list \<Rightarrow> edit list" where [simp]:
  "paste_undo ns cs = drop_nodes ns"

fun redo_edits :: "command \<Rightarrow> edit list" where
  "redo_edits (AddNodeCommand n replaced cs) = add_node_redo n replaced cs"
| "redo_edits (AddGroupCommand g) = add_group_redo g"
| "redo_edits (DeleteGroupsCommand gs) = delete_groups_redo gs"
| "redo_edits (MoveGroupsCommand old new) = move_groups new"
| "redo_edits (EditGroupCommand old new) = edit_group_redo old new"
| "redo_edits (DeleteNodesCommand ns cs) = delete_nodes_redo ns cs"
| "redo_edits (MoveNodesCommand old new) = move_nodes new"
| "redo_edits (SetParameterCommand i p old new) = set_parameter_redo old new"
| "redo_edits (SetConnectionPreviewCommand i old new) = set_preview i (Some new)"
| "redo_edits (RandomizeParametersCommand new old) = replace_nodes new"
| "redo_edits (RandomizeNodesCommand ons ocs nns ncs) = swap_subgraph ons ocs nns ncs"
| "redo_edits (RelinkMediaCommand old new) = relink_media_redo old new"
| "redo_edits (AddConnectionCommand c) = add_connection_redo c"
| "redo_edits (ReplaceConnectionCommand c replaced) = replace_connection_redo c replaced"
| "redo_edits (RemoveConnectionCommand c) = remove_connection_redo c"
| "redo_edits (PasteCommand ns cs) = paste_redo ns cs"

fun undo_edits :: "command \<Rightarrow> edit list" where
  "undo_edits (AddNodeCommand n replaced cs) =
     add_node_undo n replaced cs"
| "undo_edits (AddGroupCommand g) = add_group_undo g"
| "undo_edits (DeleteGroupsCommand gs) = delete_groups_undo gs"
| "undo_edits (MoveGroupsCommand old new) = move_groups old"
| "undo_edits (EditGroupCommand old new) = edit_group_undo old new"
| "undo_edits (DeleteNodesCommand ns cs) = delete_nodes_undo ns cs"
| "undo_edits (MoveNodesCommand old new) = move_nodes old"
| "undo_edits (SetParameterCommand i p old new) = set_parameter_undo old new"
| "undo_edits (SetConnectionPreviewCommand i old new) = set_preview i old"
| "undo_edits (RandomizeParametersCommand new old) = replace_nodes old"
| "undo_edits (RandomizeNodesCommand ons ocs nns ncs) = swap_subgraph nns ncs ons ocs"
| "undo_edits (RelinkMediaCommand old new) = relink_media_undo old new"
| "undo_edits (AddConnectionCommand c) = add_connection_undo c"
| "undo_edits (ReplaceConnectionCommand c replaced) =
     replace_connection_undo c replaced"
| "undo_edits (RemoveConnectionCommand c) = remove_connection_undo c"
| "undo_edits (PasteCommand ns cs) = paste_undo ns cs"

definition redo :: "command \<Rightarrow> graph_document \<Rightarrow> graph_document \<times> py_error option" where
  "redo c = run_edits (redo_edits c)"

definition undo :: "command \<Rightarrow> graph_document \<Rightarrow> graph_document \<times> py_error option" where
  "undo c = run_edits (undo_edits c)"

text \<open>\<open>mergeWith\<close>: the command on the stack takes the other in, or refuses.\<close>

fun merge_with :: "command \<Rightarrow> command \<Rightarrow> command option" where
  "merge_with (MoveGroupsCommand old new) (MoveGroupsCommand old' new') =
     (if fmdom new' \<noteq> fmdom new then None else Some (MoveGroupsCommand old new'))"
| "merge_with (MoveNodesCommand old new) (MoveNodesCommand old' new') =
     (if fmdom new' \<noteq> fmdom new then None else Some (MoveNodesCommand old new'))"
| "merge_with (SetParameterCommand i p old new) (SetParameterCommand i' p' old' new') =
     (if i' \<noteq> i \<or> p' \<noteq> p then None else Some (SetParameterCommand i p old new'))"
| "merge_with _ _ = None"

section \<open>Constructors\<close>

definition unknown_node :: "uuid \<Rightarrow> py_error" where
  "unknown_node i = KeyError (Msg ''Unknown node: {}'' [ArgId i])"

definition selected_nodes :: "graph_document \<Rightarrow> uuid set \<Rightarrow> node_model list" where
  "selected_nodes d selected = filter (\<lambda>n. node_id n \<in> selected) (doc_nodes d)"

definition add_node_command :: "graph_document \<Rightarrow> node_model \<Rightarrow> uuid set \<Rightarrow> command res" where
  "add_node_command d n selected =
     (if length (selected_nodes d selected) \<noteq> card selected
      then Inl (KeyError (Msg ''Visualizer replacement contains an unknown node'' []))
      else Inr (AddNodeCommand n (selected_nodes d selected) (incident_connections d selected)))"

definition delete_groups_command :: "graph_document \<Rightarrow> uuid set \<Rightarrow> command" where
  "delete_groups_command d selected =
     DeleteGroupsCommand (filter (\<lambda>g. group_id g \<in> selected) (doc_groups d))"

definition move_groups_command :: "(uuid, point) fmap \<Rightarrow> (uuid, point) fmap \<Rightarrow> command res" where
  "move_groups_command old new =
     (if fmdom old \<noteq> fmdom new
      then Inl (ValueError (Msg ''Group move position maps must contain the same IDs'' []))
      else Inr (MoveGroupsCommand old new))"

definition edit_group_command :: "graph_document \<Rightarrow> group_model \<Rightarrow> command res" where
  "edit_group_command d g =
     (case fmlookup (g_groups d) (group_id g) of
        None \<Rightarrow> Inl (KeyError (Msg ''Unknown group: {}'' [ArgId (group_id g)]))
      | Some old \<Rightarrow> Inr (EditGroupCommand old g))"

definition delete_nodes_command :: "graph_document \<Rightarrow> uuid set \<Rightarrow> command" where
  "delete_nodes_command d selected =
     (let ns = selected_nodes d selected in
      DeleteNodesCommand ns (incident_connections d (node_id ` set ns)))"

definition move_nodes_command :: "(uuid, point) fmap \<Rightarrow> (uuid, point) fmap \<Rightarrow> command res" where
  "move_nodes_command old new =
     (if fmdom old \<noteq> fmdom new
      then Inl (ValueError (Msg ''Move command position maps must contain the same node IDs'' []))
      else Inr (MoveNodesCommand old new))"

definition set_parameter_command :: "graph_document \<Rightarrow> uuid \<Rightarrow> string \<Rightarrow> literal \<Rightarrow> command res" where
  "set_parameter_command d i p v =
     (case fmlookup (g_nodes d) i of
        None \<Rightarrow> Inl (unknown_node i)
      | Some n \<Rightarrow> Inr (SetParameterCommand i p n (n\<lparr>parameters := fmupd p v (parameters n)\<rparr>)))"

text \<open>A stored \<open>None\<close> reads as an absent key.\<close>

definition raw_preview :: "connection_model \<Rightarrow> literal option" where
  "raw_preview c = (case fmlookup (conn_ui_state c) preview_visible_key of Some LNone \<Rightarrow> None | v \<Rightarrow> v)"

definition set_connection_preview_command :: "graph_document \<Rightarrow> uuid \<Rightarrow> bool \<Rightarrow> command res" where
  "set_connection_preview_command d i visible =
     (case fmlookup (g_connections d) i of
        None \<Rightarrow> Inl (KeyError (Msg ''Unknown connection: {}'' [ArgId i]))
      | Some c \<Rightarrow> Inr (SetConnectionPreviewCommand i (raw_preview c) (LBool visible)))"

definition randomize_parameters_command :: "graph_document \<Rightarrow> (uuid, node_model) fmap \<Rightarrow> command res" where
  "randomize_parameters_command d nodes =
     bind_res (mapM (\<lambda>n. case fmlookup (g_nodes d) (node_id n) of
         None \<Rightarrow> Inl (unknown_node (node_id n)) | Some old \<Rightarrow> Inr old) (sorted_values nodes)) (\<lambda>old.
       Inr (RandomizeParametersCommand (sorted_values nodes) old))"

definition randomize_nodes_command :: "graph_document \<Rightarrow> uuid set \<Rightarrow> (uuid, node_model) fmap \<Rightarrow>
    connection_model list \<Rightarrow> command res" where
  "randomize_nodes_command d selected nodes connections =
     (if length (selected_nodes d selected) \<noteq> card selected
      then Inl (KeyError (Msg ''Randomize Nodes selection contains an unknown node'' []))
      else Inr (RandomizeNodesCommand (selected_nodes d selected) (incident_connections d selected)
        (sorted_values nodes) connections))"

text \<open>
  \<open>relinked_media_node\<close> of \<^verbatim>\<open>persistence/media_relink.py\<close>: \<open>media\<close> is what the file system says of
  the candidate (resolved path, fingerprint and size, or the exception), \<open>parameter_id\<close> the
  parameter the node type declares.
\<close>

definition relinked_media_node :: "string option \<Rightarrow> (string \<times> string \<times> int) res \<Rightarrow> node_model \<Rightarrow> node_model res" where
  "relinked_media_node parameter_id media n =
     (case parameter_id of
        None \<Rightarrow> Inl (ValueError (Msg ''{} declares no relinkable media reference'' [ArgStr (node_type_id n)]))
      | Some p \<Rightarrow> bind_res media (\<lambda>(path, fingerprint, size).
          Inr (n\<lparr>parameters := fmupd p (LStr path) (parameters n),
            node_ui_state := fmupd ''media_size_bytes'' (LInt size)
              (fmupd ''media_fingerprint'' (LStr fingerprint)
                (fmupd ''media_absolute_fallback'' (LStr path) (node_ui_state n)))\<rparr>)))"

definition relink_media_command :: "string option \<Rightarrow> (string \<times> string \<times> int) res \<Rightarrow> graph_document \<Rightarrow> uuid \<Rightarrow>
    command res" where
  "relink_media_command parameter_id media d i =
     (case fmlookup (g_nodes d) i of
        None \<Rightarrow> Inl (unknown_node i)
      | Some n \<Rightarrow> bind_res (relinked_media_node parameter_id media n) (\<lambda>n'. Inr (RelinkMediaCommand n n')))"

text \<open>The compiler's verdict on a prospective connection; a rejection raises.\<close>

definition check_compatible :: "(uuid \<Rightarrow> message \<Rightarrow> uuid) \<Rightarrow> node_registry \<Rightarrow> graph_document \<Rightarrow> connection_model \<Rightarrow>
    unit res" where
  "check_compatible uuid5 registry d c =
     bind_res (doc_snapshot d) (\<lambda>s.
     bind_res (connection_compatibility uuid5 registry s
         (source_node c, source_port c, destination_node c, destination_port c)) (\<lambda>r.
       if cc_accepted r then Inr ()
       else Inl (ValueError (if cc_issues r = [] then Msg ''Connection is incompatible'' []
         else join_messages (map vi_message (cc_issues r))))))"

definition add_connection_command :: "(uuid \<Rightarrow> message \<Rightarrow> uuid) \<Rightarrow> node_registry \<Rightarrow> graph_document \<Rightarrow>
    connection_model \<Rightarrow> command res" where
  "add_connection_command uuid5 registry d c =
     (if incoming_connection d (destination_node c) (destination_port c) \<noteq> None
      then Inl (ValueError (Msg ''Destination input is occupied; use ReplaceConnectionCommand'' []))
      else bind_res (check_compatible uuid5 registry d c) (\<lambda>_. Inr (AddConnectionCommand c)))"

definition replace_connection_command :: "(uuid \<Rightarrow> message \<Rightarrow> uuid) \<Rightarrow> node_registry \<Rightarrow> graph_document \<Rightarrow>
    connection_model \<Rightarrow> command res" where
  "replace_connection_command uuid5 registry d c =
     bind_res (check_compatible uuid5 registry d c) (\<lambda>_.
       Inr (ReplaceConnectionCommand c (incoming_connection d (destination_node c) (destination_port c))))"

definition remove_connection_command :: "graph_document \<Rightarrow> uuid \<Rightarrow> command res" where
  "remove_connection_command d i =
     (case fmlookup (g_connections d) i of
        None \<Rightarrow> Inl (KeyError (Msg ''Unknown connection: {}'' [ArgId i]))
      | Some c \<Rightarrow> Inr (RemoveConnectionCommand c))"

section \<open>Clipboard fragments\<close>

record clipboard_fragment =
  fr_nodes :: "node_model list"
  fr_connections :: "connection_model list"
  fr_version :: int

definition fragment_init :: "node_model list \<Rightarrow> connection_model list \<Rightarrow> int \<Rightarrow> clipboard_fragment res" where
  "fragment_init ns cs version =
     (if version \<noteq> 2 then Inl (ValueError (Msg ''Unsupported clipboard fragment version: {}'' [ArgInt version]))
      else if card (node_id ` set ns) \<noteq> length ns
        then Inl (ValueError (Msg ''Clipboard fragment contains duplicate node IDs'' []))
      else if card (conn_id ` set cs) \<noteq> length cs
        then Inl (ValueError (Msg ''Clipboard fragment contains duplicate connection IDs'' []))
      else if list_ex (\<lambda>c. source_node c \<notin> node_id ` set ns \<or> destination_node c \<notin> node_id ` set ns) cs
        then Inl (ValueError (Msg ''Clipboard fragment connections must be internal'' []))
      else Inr \<lparr>fr_nodes = ns, fr_connections = cs, fr_version = version\<rparr>)"

definition copy_fragment :: "graph_snapshot \<Rightarrow> uuid set \<Rightarrow> clipboard_fragment res" where
  "copy_fragment s selected =
     (let ns = filter (\<lambda>n. node_id n \<in> selected) (snap_nodes s);
          present = node_id ` set ns
      in fragment_init ns (filter (\<lambda>c. source_node c \<in> present \<and> destination_node c \<in> present) (snap_connections s)) 2)"

text \<open>
  \<open>remap_fragment\<close>: \<open>fresh\<close> is the sequence of identifiers of \<open>id_factory\<close>. The addition of floats
  rounds, and overflows to an infinity.
\<close>

fun float_plus :: "pyfloat \<Rightarrow> pyfloat \<Rightarrow> pyfloat" where
  "float_plus (Fin a) (Fin b) = (let s = fl_add a b in
     if \<bar>s\<bar> < 2 ^ 1024 then Fin s else if 0 < s then PosInf else NegInf)"
| "float_plus NaN _ = NaN"
| "float_plus _ NaN = NaN"
| "float_plus PosInf NegInf = NaN"
| "float_plus NegInf PosInf = NaN"
| "float_plus PosInf _ = PosInf"
| "float_plus NegInf _ = NegInf"
| "float_plus _ PosInf = PosInf"
| "float_plus _ NegInf = NegInf"

definition remap_node :: "point \<Rightarrow> uuid \<Rightarrow> node_model \<Rightarrow> node_model res" where
  "remap_node offset i n = node_model_init i (node_type_id n) (implementation_version n) (parameters n)
     (float_plus (fst (position n)) (fst offset), float_plus (snd (position n)) (snd offset)) (node_size n) (user_label n) (collapsed n) (node_ui_state n)"

definition remap_connection :: "(uuid, uuid) dict \<Rightarrow> uuid \<Rightarrow> connection_model \<Rightarrow> connection_model res" where
  "remap_connection node_ids i c =
     (case (dict_get node_ids (source_node c), dict_get node_ids (destination_node c)) of
        (Some s, Some t) \<Rightarrow> Inr \<lparr>conn_id = i, source_node = s, source_port = source_port c, destination_node = t,
          destination_port = destination_port c, conn_ui_state = conn_ui_state c\<rparr>
      | (None, _) \<Rightarrow> Inl (KeyError (Msg ''{}'' [ArgId (source_node c)]))
      | (_, None) \<Rightarrow> Inl (KeyError (Msg ''{}'' [ArgId (destination_node c)])))"

definition remap_fragment :: "clipboard_fragment \<Rightarrow> point \<Rightarrow> (nat \<Rightarrow> uuid) \<Rightarrow> clipboard_fragment res" where
  "remap_fragment f offset fresh =
     (let ns = sort_key node_id (fr_nodes f);
          cs = sort_key conn_id (fr_connections f);
          ids = dict_of_pairs (zip (map node_id ns) (map fresh [0..<length ns]))
      in bind_res (mapM (\<lambda>n. case dict_get ids (node_id n) of
             None \<Rightarrow> Inl (KeyError (Msg ''{}'' [ArgId (node_id n)]))
           | Some i \<Rightarrow> remap_node offset i n) ns) (\<lambda>ns'.
         bind_res (mapM (\<lambda>(i, c). remap_connection ids i c)
             (zip (map fresh [length ns..<length ns + length cs]) cs)) (\<lambda>cs'.
           fragment_init ns' cs' 2)))"

definition paste_command :: "clipboard_fragment \<Rightarrow> command" where
  "paste_command f = PasteCommand (fr_nodes f) (fr_connections f)"

section \<open>The undo stack\<close>

text \<open>
  A step of the undo stack is one command or the commands pushed within a macro, which are undone
  in the opposite order.
\<close>

definition redo_step :: "command list \<Rightarrow> graph_document \<Rightarrow> graph_document \<times> py_error option" where
  "redo_step cs = run_edits (concat (map redo_edits cs))"

definition undo_step :: "command list \<Rightarrow> graph_document \<Rightarrow> graph_document \<times> py_error option" where
  "undo_step cs = run_edits (concat (map undo_edits (rev cs)))"

text \<open>
  A command created on a document by its constructor, as the callers (\<^verbatim>\<open>ui/session.py\<close>) do: the
  old positions of a move are those of the document, groups have passed their constructor, a
  mapping of nodes is keyed by their identifiers, replacement connections are new or replace
  removed ones, and pasted values form a fragment.
\<close>

definition group_constructed :: "group_model \<Rightarrow> bool" where
  "group_constructed g \<longleftrightarrow> moved_group (group_position g) g = Inr g"

inductive created :: "graph_document \<Rightarrow> command \<Rightarrow> bool" where
  add_node: "add_node_command d n selected = Inr c \<Longrightarrow> finite selected \<Longrightarrow> created d c"
| add_group: "group_constructed g \<Longrightarrow> created d (AddGroupCommand g)"
| delete_groups: "created d (delete_groups_command d selected)"
| move_groups: "move_groups_command old new = Inr c \<Longrightarrow>
    (\<forall>i p. fmlookup old i = Some p \<longrightarrow> (\<exists>g. fmlookup (g_groups d) i = Some g \<and> group_position g = p)) \<Longrightarrow> created d c"
| edit_group: "edit_group_command d g = Inr c \<Longrightarrow> group_constructed g \<Longrightarrow> created d c"
| delete_nodes: "created d (delete_nodes_command d selected)"
| move_nodes: "move_nodes_command old new = Inr c \<Longrightarrow>
    (\<forall>i p. fmlookup old i = Some p \<longrightarrow> (\<exists>n. fmlookup (g_nodes d) i = Some n \<and> position n = p)) \<Longrightarrow> created d c"
| set_parameter: "set_parameter_command d i p v = Inr c \<Longrightarrow> created d c"
| set_preview: "set_connection_preview_command d i visible = Inr c \<Longrightarrow> created d c"
| randomize_parameters: "randomize_parameters_command d nodes = Inr c \<Longrightarrow>
    (\<forall>i n. fmlookup nodes i = Some n \<longrightarrow> node_id n = i) \<Longrightarrow> created d c"
| randomize_nodes: "randomize_nodes_command d selected nodes connections = Inr c \<Longrightarrow> finite selected \<Longrightarrow>
    (\<forall>x \<in> set connections. \<forall>y. fmlookup (g_connections d) (conn_id x) = Some y \<longrightarrow>
      source_node y \<in> selected \<or> destination_node y \<in> selected) \<Longrightarrow> created d c"
| relink_media: "relink_media_command parameter_id media d i = Inr c \<Longrightarrow> created d c"
| add_connection: "add_connection_command uuid5 registry d x = Inr c \<Longrightarrow> created d c"
| replace_connection: "replace_connection_command uuid5 registry d x = Inr c \<Longrightarrow> created d c"
| remove_connection: "remove_connection_command d i = Inr c \<Longrightarrow> created d c"
| paste: "fragment_init ns cs version = Inr f \<Longrightarrow> created d (paste_command f)"

text \<open>
  Two kinds of command do not remember everything they change: the visibility of a preview stored
  as \<open>None\<close> is remembered as absent, and of several connections into the replaced input only the
  first is remembered.
\<close>

fun restorable :: "graph_document \<Rightarrow> command \<Rightarrow> bool" where
  "restorable d (SetConnectionPreviewCommand i old new) =
     (\<forall>x. fmlookup (g_connections d) i = Some x \<longrightarrow> fmlookup (conn_ui_state x) preview_visible_key \<noteq> Some LNone)"
| "restorable d (ReplaceConnectionCommand c replaced) =
     (\<forall>k l x y. fmlookup (g_connections d) k = Some x \<longrightarrow> fmlookup (g_connections d) l = Some y \<longrightarrow>
        enters (destination_node c) (destination_port c) x \<longrightarrow> enters (destination_node c) (destination_port c) y \<longrightarrow> k = l)"
| "restorable d _ = True"

text \<open>
  Restorable commands created and performed one after the other within one step; a command may be
  merged into the one before it.
\<close>

inductive performed :: "graph_document \<Rightarrow> command list \<Rightarrow> graph_document \<Rightarrow> bool" where
  none: "performed d [] d"
| another: "performed d cs d' \<Longrightarrow> created d' c \<Longrightarrow> restorable d' c \<Longrightarrow> redo c d' = (d'', None) \<Longrightarrow>
    performed d (cs @ [c]) d''"
| merged: "performed d (cs @ [c]) d' \<Longrightarrow> created d' c' \<Longrightarrow> restorable d' c' \<Longrightarrow> redo c' d' = (d'', None) \<Longrightarrow>
    merge_with c c' = Some m \<Longrightarrow> performed d (cs @ [m]) d''"

end
