(* ===== verification/CommandFacts.thy ===== *)
theory CommandFacts
  imports Commands
begin

text \<open>
  What a document is to its reader: maps of nodes, connections and groups, with literals up to
  Python's equality (\<open>1 == 1.0 == True\<close>), because operations that would store an equal value leave
  the old one. The operations of the document refine plain updates of these maps.
\<close>

section \<open>Values up to equality\<close>

definition norm_lit :: "literal \<Rightarrow> literal" where
  "norm_lit v = (case lit_num v of Some x \<Rightarrow> LFloat x | None \<Rightarrow> v)"

definition norm_literals :: "literals \<Rightarrow> literals" where
  "norm_literals m = fmmap norm_lit m"

definition norm_node :: "node_model \<Rightarrow> node_model" where
  "norm_node n = n\<lparr>parameters := norm_literals (parameters n), node_ui_state := norm_literals (node_ui_state n)\<rparr>"

definition norm_conn :: "connection_model \<Rightarrow> connection_model" where
  "norm_conn c = c\<lparr>conn_ui_state := norm_literals (conn_ui_state c)\<rparr>"

lemma norm_node_simps [simp]:
  "node_id (norm_node n) = node_id n" "position (norm_node n) = position n"
  "parameters (norm_node n) = norm_literals (parameters n)"
  by (simp_all add: norm_node_def)

lemma norm_conn_simps [simp]:
  "conn_id (norm_conn c) = conn_id c" "source_node (norm_conn c) = source_node c"
  "source_port (norm_conn c) = source_port c" "destination_node (norm_conn c) = destination_node c"
  "destination_port (norm_conn c) = destination_port c"
  "conn_ui_state (norm_conn c) = norm_literals (conn_ui_state c)"
  "enters n p (norm_conn c) = enters n p c" "touches i (norm_conn c) = touches i c"
  by (simp_all add: norm_conn_def enters_def touches_def)

lemma norm_literals_simps [simp]:
  "norm_literals (fmupd k v m) = fmupd k (norm_lit v) (norm_literals m)"
  "norm_literals (fmdrop k m) = fmdrop k (norm_literals m)"
  "fmlookup (norm_literals m) k = map_option norm_lit (fmlookup m k)"
  "norm_literals fmempty = fmempty" "fmdom (norm_literals m) = fmdom m"
  by (simp_all add: norm_literals_def fmap_ext)

lemma rows_eq: "list_all2 (list_all2 pf_eq) a b \<Longrightarrow> a = b"
proof -
  have "list_all2 pf_eq x y \<Longrightarrow> x = y" for x y
    by (induction rule: list_all2_induct) (auto simp: pf_eq_iff)
  then show "list_all2 (list_all2 pf_eq) a b \<Longrightarrow> a = b"
    by (metis (mono_tags, lifting) list.rel_eq list.rel_mono_strong)
qed

lemma norm_lit_idem [simp]: "norm_lit (norm_lit v) = norm_lit v"
  by (cases v) (simp_all add: norm_lit_def)

lemma norm_literals_idem [simp]: "norm_literals (norm_literals m) = norm_literals m"
  by (rule fmap_ext) (simp add: option.map_comp comp_def)

lemma norm_conn_idem [simp]: "norm_conn (norm_conn c) = norm_conn c"
  by (simp add: norm_conn_def)

lemma norm_conn_fixed: "norm_conn c = c \<longleftrightarrow> norm_literals (conn_ui_state c) = conn_ui_state c"
  by (cases c) (simp add: norm_conn_def)

lemma norm_conn_edited:
  assumes "norm_conn c = c"
  shows "norm_conn (c\<lparr>conn_ui_state := fmupd k (norm_lit v) (conn_ui_state c)\<rparr>) =
      c\<lparr>conn_ui_state := fmupd k (norm_lit v) (conn_ui_state c)\<rparr>"
    and "norm_conn (c\<lparr>conn_ui_state := fmdrop k (conn_ui_state c)\<rparr>) = c\<lparr>conn_ui_state := fmdrop k (conn_ui_state c)\<rparr>"
  using assms unfolding norm_conn_fixed by simp_all

lemma lit_eq_norm: "lit_eq a b \<Longrightarrow> norm_lit a = norm_lit b"
  by (cases a; cases b)
    (auto simp: norm_lit_def color_eq_def pf_eq_iff rows_eq intro: color_value.equality split: if_splits)

lemma lit_eq_norm_iff [simp]: "lit_eq (norm_lit a) (norm_lit b) = lit_eq a b"
  by (cases a; cases b) (simp_all add: norm_lit_def)

lemma lit_eq_norm_right [simp]: "lit_eq (norm_lit a) b = lit_eq a b" "lit_eq a (norm_lit b) = lit_eq a b"
  by (cases a; cases b; simp add: norm_lit_def)+

lemma literals_eq_norm: "literals_eq a b \<Longrightarrow> norm_literals a = norm_literals b"
proof (rule fmap_ext)
  fix k assume e: "literals_eq a b"
  show "fmlookup (norm_literals a) k = fmlookup (norm_literals b) k"
  proof (cases "k |\<in>| fmdom a")
    case True
    then have "k |\<in>| fmdom b" "lit_eq (the (fmlookup a k)) (the (fmlookup b k))"
      using e by (auto simp: literals_eq_def)
    with True show ?thesis by (auto simp: fmlookup_dom_iff dest: lit_eq_norm)
  next
    case False
    then have "k |\<notin>| fmdom b" using e by (simp add: literals_eq_def)
    with False show ?thesis by (simp add: fmdom_notD)
  qed
qed

lemma literals_eq_norm_iff [simp]: "literals_eq (norm_literals a) (norm_literals b) = literals_eq a b"
proof -
  have "lit_eq (the (fmlookup (norm_literals a) k)) (the (fmlookup (norm_literals b) k)) =
      lit_eq (the (fmlookup a k)) (the (fmlookup b k))" if "k |\<in>| fmdom a" "fmdom a = fmdom b" for k
  proof -
    have "k |\<in>| fmdom b" using that by simp
    then show ?thesis using that(1) by (auto simp: fmlookup_dom_iff)
  qed
  then show ?thesis unfolding literals_eq_def by auto
qed

lemma point_eq_same: "point_eq a b \<Longrightarrow> a = b"
  by (auto simp: point_eq_def pf_eq_iff prod_eq_iff)

lemma node_eq_norm: "node_eq a b \<Longrightarrow> norm_node a = norm_node b"
proof -
  assume e: "node_eq a b"
  then have "node_size a = node_size b"
    by (cases "node_size a"; cases "node_size b") (auto simp: node_eq_def dest: point_eq_same)
  with e show ?thesis
    by (auto simp: node_eq_def norm_node_def dest: point_eq_same literals_eq_norm intro!: node_model.equality)
qed

lemma connection_eq_norm: "connection_eq a b \<Longrightarrow> norm_conn a = norm_conn b"
  by (auto simp: connection_eq_def norm_conn_def dest: literals_eq_norm intro!: connection_model.equality)

lemma connection_eq_norm_iff [simp]: "connection_eq (norm_conn a) (norm_conn b) = connection_eq a b"
  by (simp add: connection_eq_def)

lemma group_eq_same: "group_eq a b \<Longrightarrow> a = b"
  by (auto simp: group_eq_def dest: point_eq_same intro!: group_model.equality)

section \<open>Documents as maps\<close>

record document_map =
  dm_id :: uuid
  dm_nodes :: "uuid \<rightharpoonup> node_model"
  dm_connections :: "uuid \<rightharpoonup> connection_model"
  dm_groups :: "uuid \<rightharpoonup> group_model"
  dm_settings :: literals

definition document_map_of :: "graph_document \<Rightarrow> document_map" where
  "document_map_of d = \<lparr>dm_id = document_id d, dm_nodes = (\<lambda>i. map_option norm_node (fmlookup (g_nodes d) i)),
     dm_connections = (\<lambda>i. map_option norm_conn (fmlookup (g_connections d) i)),
     dm_groups = fmlookup (g_groups d), dm_settings = norm_literals (g_settings d)\<rparr>"

definition detach :: "uuid \<Rightarrow> (uuid \<rightharpoonup> connection_model) \<Rightarrow> uuid \<rightharpoonup> connection_model" where
  "detach i m = (\<lambda>k. case m k of Some c \<Rightarrow> if touches i c then None else Some c | None \<Rightarrow> None)"

definition vacate :: "uuid \<Rightarrow> string \<Rightarrow> (uuid \<rightharpoonup> connection_model) \<Rightarrow> uuid \<rightharpoonup> connection_model" where
  "vacate n p m = (\<lambda>k. case m k of Some c \<Rightarrow> if enters n p c then None else Some c | None \<Rightarrow> None)"

definition restored_connection :: "connection_model \<Rightarrow> bool \<Rightarrow> document_map \<Rightarrow> document_map option" where
  "restored_connection c r a =
     (let n = destination_node c; p = destination_port c;
          insert = (\<lambda>m. Some (a\<lparr>dm_connections := m(conn_id c \<mapsto> norm_conn c)\<rparr>)) in
      if dm_nodes a (source_node c) = None \<or> dm_nodes a n = None then None
      else case dm_connections a (conn_id c) of
          Some e \<Rightarrow>
            if connection_eq e (norm_conn c) then Some a
            else if r \<and> enters n p e then insert (vacate n p (dm_connections a)) else None
        | None \<Rightarrow> insert (if r then vacate n p (dm_connections a) else dm_connections a))"

text \<open>What each operation does to the maps; \<open>None\<close> where it raises.\<close>

fun map_op :: "doc_op \<Rightarrow> document_map \<Rightarrow> document_map option" where
  "map_op (AddGroup k t x p s c i) a = (case group_model_init i k t x p s c of
     Inl e \<Rightarrow> None
   | Inr g \<Rightarrow> if dm_groups a i = None then Some (a\<lparr>dm_groups := (dm_groups a)(i \<mapsto> g)\<rparr>) else None)"
| "map_op (RestoreGroup g r) a = (if r \<or> dm_groups a (group_id g) = None
     then Some (a\<lparr>dm_groups := (dm_groups a)(group_id g \<mapsto> g)\<rparr>) else None)"
| "map_op (RemoveGroup i) a = (if dm_groups a i = None then None
     else Some (a\<lparr>dm_groups := (dm_groups a)(i := None)\<rparr>))"
| "map_op (AddNode t v ps pos i) a = (if dm_nodes a i \<noteq> None \<or> v < 1 then None
     else Some (a\<lparr>dm_nodes := (dm_nodes a)(i \<mapsto> norm_node \<lparr>node_id = i, node_type_id = t, implementation_version = v,
       parameters = ps, position = pos, node_size = None, user_label = None, collapsed = False,
       node_ui_state = fmempty\<rparr>)\<rparr>))"
| "map_op (RestoreNode n r) a = (if r \<or> dm_nodes a (node_id n) = None
     then Some (a\<lparr>dm_nodes := (dm_nodes a)(node_id n \<mapsto> norm_node n)\<rparr>) else None)"
| "map_op (RemoveNode i) a = (if dm_nodes a i = None then None
     else Some (a\<lparr>dm_nodes := (dm_nodes a)(i := None), dm_connections := detach i (dm_connections a)\<rparr>))"
| "map_op (SetParameter i p v) a = (case dm_nodes a i of None \<Rightarrow> None
   | Some n \<Rightarrow> Some (a\<lparr>dm_nodes := (dm_nodes a)(i \<mapsto> n\<lparr>parameters := fmupd p (norm_lit v) (parameters n)\<rparr>)\<rparr>))"
| "map_op (ClearParameter i p) a = (case dm_nodes a i of None \<Rightarrow> None
   | Some n \<Rightarrow> Some (a\<lparr>dm_nodes := (dm_nodes a)(i \<mapsto> n\<lparr>parameters := fmdrop p (parameters n)\<rparr>)\<rparr>))"
| "map_op (SetPosition i pos) a = (case dm_nodes a i of None \<Rightarrow> None
   | Some n \<Rightarrow> Some (a\<lparr>dm_nodes := (dm_nodes a)(i \<mapsto> n\<lparr>position := pos\<rparr>)\<rparr>))"
| "map_op (AddConnection sn sp dn dp i r) a =
     (if dm_nodes a sn = None \<or> dm_nodes a dn = None \<or>
         (\<exists>c. dm_connections a i = Some c \<and> \<not> (r \<and> enters dn dp c)) then None
      else Some (a\<lparr>dm_connections := (if r then vacate dn dp (dm_connections a) else dm_connections a)
        (i \<mapsto> \<lparr>conn_id = i, source_node = sn, source_port = sp, destination_node = dn, destination_port = dp,
           conn_ui_state = fmempty\<rparr>)\<rparr>))"
| "map_op (RestoreConnection c r) a = restored_connection c r a"
| "map_op (RemoveConnection i) a = (if dm_connections a i = None then None
     else Some (a\<lparr>dm_connections := (dm_connections a)(i := None)\<rparr>))"
| "map_op (SetConnectionUiState i k v) a = (case dm_connections a i of None \<Rightarrow> None
   | Some c \<Rightarrow> Some (a\<lparr>dm_connections := (dm_connections a)(i \<mapsto> c\<lparr>conn_ui_state := fmupd k (norm_lit v) (conn_ui_state c)\<rparr>)\<rparr>))"
| "map_op (RemoveConnectionUiStateKey i k) a = (case dm_connections a i of None \<Rightarrow> None
   | Some c \<Rightarrow> Some (a\<lparr>dm_connections := (dm_connections a)(i \<mapsto> c\<lparr>conn_ui_state := fmdrop k (conn_ui_state c)\<rparr>)\<rparr>))"
| "map_op (SetDocumentSetting k v) a = Some (a\<lparr>dm_settings := fmupd k (norm_lit v) (dm_settings a)\<rparr>)"

subsection \<open>The operations refine the updates\<close>

definition refines :: "graph_document res \<Rightarrow> document_map option \<Rightarrow> bool" where
  "refines r a \<longleftrightarrow> (case r of Inl e \<Rightarrow> a = None | Inr d \<Rightarrow> a = Some (document_map_of d))"

lemma refines_simps [simp]:
  "refines (Inl e) a \<longleftrightarrow> a = None"
  "refines (Inr d) a \<longleftrightarrow> a = Some (document_map_of d)"
  by (simp_all add: refines_def)

named_theorems dm_simps

lemma document_map_simps [simp]:
  "dm_id (document_map_of d) = document_id d"
  "dm_nodes (document_map_of d) i = map_option norm_node (fmlookup (g_nodes d) i)"
  "dm_connections (document_map_of d) i = map_option norm_conn (fmlookup (g_connections d) i)"
  "dm_groups (document_map_of d) = fmlookup (g_groups d)"
  "dm_settings (document_map_of d) = norm_literals (g_settings d)"
  by (simp_all add: document_map_of_def)

lemma map_of_upd [dm_simps]:
  "document_map_of (touch (d\<lparr>g_nodes := fmupd i n (g_nodes d)\<rparr>)) =
     (document_map_of d)\<lparr>dm_nodes := (dm_nodes (document_map_of d))(i \<mapsto> norm_node n)\<rparr>"
  "document_map_of (touch (d\<lparr>g_connections := fmupd i c (g_connections d)\<rparr>)) =
     (document_map_of d)\<lparr>dm_connections := (dm_connections (document_map_of d))(i \<mapsto> norm_conn c)\<rparr>"
  "document_map_of (touch (d\<lparr>g_connections := fmupd i c (drop_entering j p (g_connections d))\<rparr>)) =
     (document_map_of d)\<lparr>dm_connections := (vacate j p (dm_connections (document_map_of d)))(i \<mapsto> norm_conn c)\<rparr>"
  "document_map_of (touch (d\<lparr>g_groups := fmupd i g (g_groups d)\<rparr>)) =
     (document_map_of d)\<lparr>dm_groups := (dm_groups (document_map_of d))(i \<mapsto> g)\<rparr>"
  "document_map_of (touch (d\<lparr>g_settings := fmupd k v (g_settings d)\<rparr>)) =
     (document_map_of d)\<lparr>dm_settings := fmupd k (norm_lit v) (dm_settings (document_map_of d))\<rparr>"
  by (auto simp: document_map_of_def vacate_def intro!: document_map.equality ext split: option.split)

lemma map_of_drop [dm_simps]:
  "document_map_of (touch (d\<lparr>g_connections := fmdrop i (g_connections d)\<rparr>)) =
     (document_map_of d)\<lparr>dm_connections := (dm_connections (document_map_of d))(i := None)\<rparr>"
  "document_map_of (touch (d\<lparr>g_groups := fmdrop i (g_groups d)\<rparr>)) =
     (document_map_of d)\<lparr>dm_groups := (dm_groups (document_map_of d))(i := None)\<rparr>"
  by (auto simp: document_map_of_def intro!: document_map.equality ext)

lemma map_of_detach [dm_simps]:
  "document_map_of (touch (d\<lparr>g_nodes := fmdrop i (g_nodes d),
     g_connections := fmfilter (\<lambda>k. \<not> touches i (the (fmlookup (g_connections d) k))) (g_connections d)\<rparr>)) =
   (document_map_of d)\<lparr>dm_nodes := (dm_nodes (document_map_of d))(i := None),
     dm_connections := detach i (dm_connections (document_map_of d))\<rparr>"
  by (auto simp: document_map_of_def detach_def intro!: document_map.equality ext split: option.split)

lemma same_node:
  assumes "fmlookup (g_nodes d) i = Some old" and "norm_node old = n"
  shows "(document_map_of d)\<lparr>dm_nodes := (dm_nodes (document_map_of d))(i \<mapsto> n)\<rparr> = document_map_of d"
  using assms by (auto intro!: document_map.equality ext)

lemma same_connection:
  assumes "fmlookup (g_connections d) i = Some old" and "norm_conn old = c"
  shows "(document_map_of d)\<lparr>dm_connections := (dm_connections (document_map_of d))(i \<mapsto> c)\<rparr> = document_map_of d"
  using assms by (auto intro!: document_map.equality ext)

lemma same_literal_upd:
  assumes "same_literal m k v"
  shows "fmupd k (norm_lit v) (norm_literals m) = norm_literals m"
proof -
  obtain old where "fmlookup m k = Some old" "lit_eq old v"
    using assms by (auto simp: same_literal_def split: option.splits)
  then show ?thesis by (intro fmap_ext) (auto dest: lit_eq_norm)
qed

lemma absent_drop: "k |\<notin>| fmdom m \<Longrightarrow> fmdrop k (norm_literals m) = norm_literals m"
  by (rule fmap_ext) (auto simp: fmdom_notD)

lemma restore_node_refines: "refines (restore_node n r d) (map_op (RestoreNode n r) (document_map_of d))"
proof (cases "fmlookup (g_nodes d) (node_id n)")
  case (Some old)
  show ?thesis
  proof (cases "r \<and> node_eq old n")
    case True
    then have "norm_node old = norm_node n" by (simp add: node_eq_norm)
    with True Some show ?thesis by (simp add: restore_node_def same_node [OF Some])
  next
    case False
    with Some show ?thesis by (auto simp: restore_node_def dm_simps)
  qed
qed (simp add: restore_node_def dm_simps)

lemma restore_group_refines: "refines (restore_group g r d) (map_op (RestoreGroup g r) (document_map_of d))"
proof (cases "fmlookup (g_groups d) (group_id g)")
  case (Some old)
  show ?thesis
  proof (cases "r \<and> group_eq old g")
    case True
    then have "old = g" by (simp add: group_eq_same)
    with True Some show ?thesis by (auto simp: restore_group_def intro!: document_map.equality)
  next
    case False
    with Some show ?thesis by (auto simp: restore_group_def dm_simps)
  qed
qed (simp add: restore_group_def dm_simps)

lemma restore_connection_refines:
  "refines (restore_connection c r d) (restored_connection c r (document_map_of d))"
proof (cases "fmlookup (g_nodes d) (source_node c) = None \<or> fmlookup (g_nodes d) (destination_node c) = None")
  case True
  then show ?thesis
    by (cases "fmlookup (g_nodes d) (source_node c)")
      (auto simp: restore_connection_def restored_connection_def require_node_def)
next
  case False
  then obtain sn dn where n: "fmlookup (g_nodes d) (source_node c) = Some sn" "fmlookup (g_nodes d) (destination_node c) = Some dn"
    by auto
  show ?thesis
  proof (cases "fmlookup (g_connections d) (conn_id c)")
    case None
    then show ?thesis
      by (simp add: restore_connection_def restored_connection_def require_node_def n dm_simps Let_def)
  next
    case (Some e)
    then show ?thesis
      by (cases "connection_eq e c")
        (auto simp: restore_connection_def restored_connection_def require_node_def n dm_simps Let_def)
  qed
qed

lemma node_edit_refines:
  assumes "fmlookup (g_nodes d) i = Some n"
  shows "refines (set_parameter i p v d) (map_op (SetParameter i p v) (document_map_of d))"
    and "refines (clear_parameter i p d) (map_op (ClearParameter i p) (document_map_of d))"
    and "refines (set_position i pos d) (map_op (SetPosition i pos) (document_map_of d))"
proof -
  have req: "require_node d i = Inr n" using assms by simp
  show "refines (set_parameter i p v d) (map_op (SetParameter i p v) (document_map_of d))"
  proof (cases "same_literal (parameters n) p v")
    case True
    then have "(norm_node n)\<lparr>parameters := fmupd p (norm_lit v) (norm_literals (parameters n))\<rparr> = norm_node n"
      by (simp add: same_literal_upd norm_node_def)
    with True assms same_node [OF assms] show ?thesis by (simp add: set_parameter_def req)
  next
    case False
    have "norm_node (n\<lparr>parameters := fmupd p v (parameters n)\<rparr>) =
        (norm_node n)\<lparr>parameters := fmupd p (norm_lit v) (norm_literals (parameters n))\<rparr>" by (simp add: norm_node_def)
    with False assms show ?thesis by (simp add: set_parameter_def req dm_simps)
  qed
  show "refines (clear_parameter i p d) (map_op (ClearParameter i p) (document_map_of d))"
  proof (cases "p |\<in>| fmdom (parameters n)")
    case False
    then have "(norm_node n)\<lparr>parameters := fmdrop p (norm_literals (parameters n))\<rparr> = norm_node n"
      by (simp add: absent_drop norm_node_def)
    with False assms same_node [OF assms] show ?thesis by (simp add: clear_parameter_def req)
  next
    case True
    have "norm_node (n\<lparr>parameters := fmdrop p (parameters n)\<rparr>) =
        (norm_node n)\<lparr>parameters := fmdrop p (norm_literals (parameters n))\<rparr>" by (simp add: norm_node_def)
    with True assms show ?thesis by (simp add: clear_parameter_def req dm_simps)
  qed
  show "refines (set_position i pos d) (map_op (SetPosition i pos) (document_map_of d))"
  proof (cases "point_eq (position n) pos")
    case True
    then have "position n = pos" by (rule point_eq_same)
    then have "(norm_node n)\<lparr>position := pos\<rparr> = norm_node n" by (auto simp: norm_node_def)
    with True assms same_node [OF assms] show ?thesis by (simp add: set_position_def req)
  next
    case False
    have "norm_node (n\<lparr>position := pos\<rparr>) = (norm_node n)\<lparr>position := pos\<rparr>" by (simp add: norm_node_def)
    with False assms show ?thesis by (simp add: set_position_def req dm_simps)
  qed
qed

lemma connection_edit_refines:
  assumes "fmlookup (g_connections d) i = Some c"
  shows "refines (set_connection_ui_state i k v d) (map_op (SetConnectionUiState i k v) (document_map_of d))"
    and "refines (remove_connection_ui_state_key i k d) (map_op (RemoveConnectionUiStateKey i k) (document_map_of d))"
proof -
  have req: "require_connection d i = Inr c" using assms by simp
  show "refines (set_connection_ui_state i k v d) (map_op (SetConnectionUiState i k v) (document_map_of d))"
  proof (cases "same_literal (conn_ui_state c) k v")
    case True
    then have "(norm_conn c)\<lparr>conn_ui_state := fmupd k (norm_lit v) (norm_literals (conn_ui_state c))\<rparr> = norm_conn c"
      by (simp add: same_literal_upd norm_conn_def)
    with True assms same_connection [OF assms] show ?thesis by (simp add: set_connection_ui_state_def req)
  next
    case False
    have nc: "norm_conn (c\<lparr>conn_ui_state := fmupd k v (conn_ui_state c)\<rparr>) =
        (norm_conn c)\<lparr>conn_ui_state := fmupd k (norm_lit v) (norm_literals (conn_ui_state c))\<rparr>" by (simp add: norm_conn_def)
    from False assms show ?thesis by (simp add: set_connection_ui_state_def req dm_simps nc)
  qed
  show "refines (remove_connection_ui_state_key i k d) (map_op (RemoveConnectionUiStateKey i k) (document_map_of d))"
  proof (cases "k |\<in>| fmdom (conn_ui_state c)")
    case False
    then have "(norm_conn c)\<lparr>conn_ui_state := fmdrop k (norm_literals (conn_ui_state c))\<rparr> = norm_conn c"
      by (simp add: absent_drop norm_conn_def)
    with False assms same_connection [OF assms] show ?thesis by (simp add: remove_connection_ui_state_key_def req)
  next
    case True
    have nc: "norm_conn (c\<lparr>conn_ui_state := fmdrop k (conn_ui_state c)\<rparr>) =
        (norm_conn c)\<lparr>conn_ui_state := fmdrop k (norm_literals (conn_ui_state c))\<rparr>" by (simp add: norm_conn_def)
    from True assms show ?thesis by (simp add: remove_connection_ui_state_key_def req dm_simps nc)
  qed
qed

lemma add_connection_refines:
  "refines (add_connection sn sp dn dp i r d) (map_op (AddConnection sn sp dn dp i r) (document_map_of d))"
proof (cases "fmlookup (g_nodes d) sn = None \<or> fmlookup (g_nodes d) dn = None")
  case True
  then show ?thesis
    by (cases "fmlookup (g_nodes d) sn") (auto simp: add_connection_def require_node_def)
next
  case False
  then obtain a b where n: "fmlookup (g_nodes d) sn = Some a" "fmlookup (g_nodes d) dn = Some b" by auto
  let ?c = "\<lparr>conn_id = i, source_node = sn, source_port = sp, destination_node = dn, destination_port = dp,
    conn_ui_state = fmempty\<rparr>"
  have c: "norm_conn ?c = ?c" by (simp add: norm_conn_def)
  show ?thesis
    by (cases "fmlookup (g_connections d) i")
      (auto simp: add_connection_def require_node_def n dm_simps c Let_def)
qed

lemma map_op_refines: "refines (apply_op op d) (map_op op (document_map_of d))"
proof (cases op)
  case (AddGroup k t x p s c i)
  show ?thesis
  proof (cases "group_model_init i k t x p s c")
    case (Inr g)
    then have "group_id g = i" by (auto simp: group_model_init_def split: if_splits)
    with Inr restore_group_refines [of g False d] AddGroup show ?thesis by (auto simp: add_group_def split: if_splits)
  qed (simp add: AddGroup add_group_def)
next
  case (SetParameter i p v)
  then show ?thesis
    using node_edit_refines(1) [of d i] by (cases "fmlookup (g_nodes d) i") (simp_all add: set_parameter_def require_node_def)
next
  case (ClearParameter i p)
  then show ?thesis
    using node_edit_refines(2) [of d i] by (cases "fmlookup (g_nodes d) i") (simp_all add: clear_parameter_def require_node_def)
next
  case (SetPosition i pos)
  then show ?thesis
    using node_edit_refines(3) [of d i] by (cases "fmlookup (g_nodes d) i") (simp_all add: set_position_def require_node_def)
next
  case (SetConnectionUiState i k v)
  then show ?thesis
    using connection_edit_refines(1) [of d i]
    by (cases "fmlookup (g_connections d) i") (simp_all add: set_connection_ui_state_def require_connection_def)
next
  case (RemoveConnectionUiStateKey i k)
  then show ?thesis
    using connection_edit_refines(2) [of d i]
    by (cases "fmlookup (g_connections d) i") (simp_all add: remove_connection_ui_state_key_def require_connection_def)
next
  case (SetDocumentSetting k v)
  have "(document_map_of d)\<lparr>dm_settings := norm_literals (g_settings d)\<rparr> = document_map_of d"
    by (rule document_map.equality) simp_all
  then show ?thesis
    using SetDocumentSetting by (auto simp: set_document_setting_def dm_simps same_literal_upd)
next
  case (AddNode t v ps pos i)
  then show ?thesis
    by (cases "fmlookup (g_nodes d) i") (auto simp: add_node_def node_model_init_def dm_simps fmlookup_dom_iff)
next
  case (RemoveNode i)
  then show ?thesis
    by (cases "fmlookup (g_nodes d) i") (auto simp: remove_node_def dm_simps fmlookup_dom_iff)
next
  case (RemoveConnection i)
  then show ?thesis
    by (cases "fmlookup (g_connections d) i") (auto simp: remove_connection_def dm_simps fmlookup_dom_iff)
next
  case (RemoveGroup i)
  then show ?thesis
    by (cases "fmlookup (g_groups d) i") (auto simp: remove_group_def dm_simps fmlookup_dom_iff)
next
  case (RestoreGroup g r)
  then show ?thesis using restore_group_refines by simp
next
  case (RestoreNode n r)
  then show ?thesis using restore_node_refines by simp
next
  case (AddConnection sn sp dn dp i r)
  then show ?thesis using add_connection_refines by simp
next
  case (RestoreConnection c r)
  then show ?thesis using restore_connection_refines by simp
qed

end
