(* ===== verification/CommandInverse.thy ===== *)
theory CommandInverse
  imports CommandFacts
begin

text \<open>
  Sequences of edits as updates of the maps, and what undoing does: from wherever redoing a fitting
  command leads, undoing it leads back.
\<close>

section \<open>Edits on maps\<close>

fun map_edit :: "edit \<Rightarrow> document_map \<Rightarrow> document_map option" where
  "map_edit (Do op) a = map_op op a"
| "map_edit (DropNode i) a = (if dm_nodes a i = None then Some a else map_op (RemoveNode i) a)"
| "map_edit (DropConnection i) a = Some (a\<lparr>dm_connections := (dm_connections a)(i := None)\<rparr>)"
| "map_edit (DropGroup i) a = Some (a\<lparr>dm_groups := (dm_groups a)(i := None)\<rparr>)"
| "map_edit (PlaceGroup i pos) a = (case dm_groups a i of
     None \<Rightarrow> None
   | Some g \<Rightarrow> (case moved_group pos g of Inl e \<Rightarrow> None
       | Inr g \<Rightarrow> Some (a\<lparr>dm_groups := (dm_groups a)(group_id g \<mapsto> g)\<rparr>)))"

fun map_edits :: "edit list \<Rightarrow> document_map \<Rightarrow> document_map option" where
  "map_edits [] a = Some a"
| "map_edits (e # es) a = Option.bind (map_edit e a) (map_edits es)"

lemma map_edits_append [simp]: "map_edits (xs @ ys) a = Option.bind (map_edits xs a) (map_edits ys)"
proof (induction xs arbitrary: a)
  case (Cons x xs)
  then show ?case by (cases "map_edit x a") simp_all
qed simp

lemma absent_connection: "fmlookup (g_connections d) i = None \<Longrightarrow>
    (document_map_of d)\<lparr>dm_connections := (dm_connections (document_map_of d))(i := None)\<rparr> = document_map_of d"
  by (auto intro!: document_map.equality ext)

lemma absent_group: "fmlookup (g_groups d) i = None \<Longrightarrow>
    (document_map_of d)\<lparr>dm_groups := (fmlookup (g_groups d))(i := None)\<rparr> = document_map_of d"
  by (auto intro!: document_map.equality ext)

lemma map_edit_refines: "refines (run_edit e d) (map_edit e (document_map_of d))"
proof (cases e)
  case (Do op)
  then show ?thesis by (simp add: map_op_refines)
next
  case (DropNode i)
  then show ?thesis
    using map_op_refines [of "RemoveNode i" d] by (cases "fmlookup (g_nodes d) i") (auto simp: fmlookup_dom_iff)
next
  case (DropConnection i)
  then show ?thesis
    using map_op_refines [of "RemoveConnection i" d]
    by (cases "fmlookup (g_connections d) i") (auto simp: fmlookup_dom_iff absent_connection)
next
  case (DropGroup i)
  then show ?thesis
    using map_op_refines [of "RemoveGroup i" d]
    by (cases "fmlookup (g_groups d) i") (auto simp: fmlookup_dom_iff absent_group)
next
  case (PlaceGroup i pos)
  show ?thesis
  proof (cases "fmlookup (g_groups d) i")
    case None
    with PlaceGroup show ?thesis by (simp add: place_group_def)
  next
    case (Some g)
    show ?thesis
    proof (cases "moved_group pos g")
      case (Inr g')
      with Some PlaceGroup restore_group_refines [of g' True d] show ?thesis by (simp add: place_group_def)
    qed (use Some PlaceGroup in \<open>simp add: place_group_def\<close>)
  qed
qed

lemma run_edits_refines:
  "case run_edits es d of (d', None) \<Rightarrow> map_edits es (document_map_of d) = Some (document_map_of d')
    | (d', Some x) \<Rightarrow> map_edits es (document_map_of d) = None"
proof (induction es arbitrary: d)
  case (Cons e es)
  show ?case
  proof (cases "run_edit e d")
    case (Inl x)
    with map_edit_refines [of e d] show ?thesis by simp
  next
    case (Inr d')
    obtain u x where u: "run_edits es d' = (u, x)" by fastforce
    from Inr map_edit_refines [of e d] have "map_edit e (document_map_of d) = Some (document_map_of d')" by simp
    with Inr u Cons.IH [of d'] show ?thesis by (cases x) simp_all
  qed
qed simp

lemma run_edits_done: "run_edits es d = (d', None) \<Longrightarrow> map_edits es (document_map_of d) = Some (document_map_of d')"
  using run_edits_refines [of es d] by simp

lemma run_edits_total:
  assumes "map_edits es (document_map_of d) = Some a"
  shows "\<exists>d'. run_edits es d = (d', None) \<and> document_map_of d' = a"
proof -
  obtain d' x where r: "run_edits es d = (d', x)" by fastforce
  with run_edits_refines [of es d] assms show ?thesis by (cases x) auto
qed

section \<open>Well-formed maps\<close>

definition map_ok :: "document_map \<Rightarrow> bool" where
  "map_ok a \<longleftrightarrow> (\<forall>i n. dm_nodes a i = Some n \<longrightarrow> node_id n = i) \<and>
     (\<forall>i c. dm_connections a i = Some c \<longrightarrow>
        conn_id c = i \<and> norm_conn c = c \<and> dm_nodes a (source_node c) \<noteq> None \<and> dm_nodes a (destination_node c) \<noteq> None) \<and>
     (\<forall>i g. dm_groups a i = Some g \<longrightarrow> group_id g = i \<and> group_constructed g)"

fun edit_ok :: "edit \<Rightarrow> bool" where
  "edit_ok (Do (RestoreGroup g r)) = group_constructed g"
| "edit_ok _ = True"

lemma moved_constructed: "moved_group pos g = Inr g' \<Longrightarrow> group_id g' = group_id g \<and> group_constructed g'"
  by (auto simp: moved_group_def group_constructed_def group_model_init_def split: if_splits)

lemma init_constructed: "group_model_init i k t x p s c = Inr g \<Longrightarrow> group_id g = i \<and> group_constructed g"
  by (auto simp: moved_group_def group_constructed_def group_model_init_def split: if_splits)

lemma map_okD:
  assumes "map_ok a"
  shows "dm_nodes a i = Some n \<Longrightarrow> node_id n = i"
    and "dm_connections a k = Some c \<Longrightarrow> conn_id c = k \<and> norm_conn c = c"
    and "dm_connections a k = Some c \<Longrightarrow> dm_nodes a (source_node c) \<noteq> None"
    and "dm_connections a k = Some c \<Longrightarrow> dm_nodes a (destination_node c) \<noteq> None"
    and "dm_groups a j = Some g \<Longrightarrow> group_id g = j \<and> group_constructed g"
  using assms unfolding map_ok_def by blast+

lemma map_ok_nodes:
  "map_ok a \<Longrightarrow> node_id n = i \<Longrightarrow> map_ok (a\<lparr>dm_nodes := (dm_nodes a)(i \<mapsto> n)\<rparr>)"
  unfolding map_ok_def by auto

lemma map_ok_fewer:
  assumes "map_ok a" and "\<And>k c. m k = Some c \<Longrightarrow> dm_connections a k = Some c"
  shows "map_ok (a\<lparr>dm_connections := m\<rparr>)"
proof -
  have "conn_id c = k \<and> norm_conn c = c \<and> dm_nodes a (source_node c) \<noteq> None \<and> dm_nodes a (destination_node c) \<noteq> None"
    if "m k = Some c" for k c
    using assms(2) [OF that] assms(1) unfolding map_ok_def by blast
  with assms(1) show ?thesis unfolding map_ok_def by simp
qed

lemma map_ok_connection:
  assumes "map_ok a" and "conn_id c = i" and "norm_conn c = c" and "dm_nodes a (source_node c) \<noteq> None" and "dm_nodes a (destination_node c) \<noteq> None"
  shows "map_ok (a\<lparr>dm_connections := (dm_connections a)(i \<mapsto> c)\<rparr>)"
  using assms unfolding map_ok_def by auto

lemma map_ok_connections:
  assumes "map_ok a" and "\<And>k c. m k = Some c \<Longrightarrow> dm_connections a k = Some c"
    and "conn_id c = i" and "norm_conn c = c" and "dm_nodes a (source_node c) \<noteq> None" and "dm_nodes a (destination_node c) \<noteq> None"
  shows "map_ok (a\<lparr>dm_connections := m(i \<mapsto> c)\<rparr>)"
  using map_ok_connection [OF map_ok_fewer [OF assms(1), of m], of c i] assms by simp

lemma map_ok_groups:
  "map_ok a \<Longrightarrow> group_id g = i \<Longrightarrow> group_constructed g \<Longrightarrow> map_ok (a\<lparr>dm_groups := (dm_groups a)(i \<mapsto> g)\<rparr>)"
  unfolding map_ok_def by auto

lemma vacate_fewer: "vacate n p m k = Some c \<Longrightarrow> m k = Some c"
  by (auto simp: vacate_def split: option.splits if_splits)

lemma restored_connection_ok:
  assumes "restored_connection c r a = Some b" and "map_ok a"
  shows "map_ok b"
proof -
  have n: "dm_nodes a (source_node c) \<noteq> None" "dm_nodes a (destination_node c) \<noteq> None"
    using assms(1) by (auto simp: restored_connection_def Let_def split: if_splits)
  have "b = a \<or> (\<exists>m. b = a\<lparr>dm_connections := m(conn_id c \<mapsto> norm_conn c)\<rparr> \<and>
      (\<forall>k x. m k = Some x \<longrightarrow> dm_connections a k = Some x))"
    using assms(1) by (auto simp: restored_connection_def Let_def split: if_splits option.splits dest: vacate_fewer)
  then show ?thesis
    using assms(2) n by (auto intro!: map_ok_connections)
qed

lemma remove_node_ok:
  assumes "map_ok a"
  shows "map_ok (a\<lparr>dm_nodes := (dm_nodes a)(i := None), dm_connections := detach i (dm_connections a)\<rparr>)"
  using assms unfolding map_ok_def detach_def touches_def by (auto split: option.splits if_splits)

lemma map_op_ok:
  assumes "map_op op a = Some b" and "map_ok a" and "edit_ok (Do op)"
  shows "map_ok b"
proof (cases op)
  case (RestoreConnection c r)
  with assms show ?thesis using restored_connection_ok by simp
next
  case (RemoveNode i)
  with assms(1) have "b = a\<lparr>dm_nodes := (dm_nodes a)(i := None), dm_connections := detach i (dm_connections a)\<rparr>"
    by (simp split: if_splits)
  with assms(2) show ?thesis by (simp only: remove_node_ok)
next
  case (AddConnection sn sp dn dp i r)
  with assms show ?thesis
    by (auto split: if_splits intro!: map_ok_connections dest: vacate_fewer)
next
  case (AddGroup k t x p s c i)
  with assms show ?thesis by (auto split: sum.splits if_splits intro!: map_ok_groups dest: init_constructed)
next
  case (RemoveConnection i)
  with assms show ?thesis by (auto split: if_splits intro!: map_ok_fewer)
next
  case (RemoveGroup i)
  with assms show ?thesis unfolding map_ok_def by (auto split: if_splits)
next
  case (SetConnectionUiState i k v)
  with assms show ?thesis
    by (auto split: option.splits intro!: map_ok_connections norm_conn_edited dest: map_okD [OF assms(2)])
next
  case (RemoveConnectionUiStateKey i k)
  with assms show ?thesis
    by (auto split: option.splits intro!: map_ok_connections norm_conn_edited dest: map_okD [OF assms(2)])
next
  case (SetDocumentSetting k v)
  with assms show ?thesis unfolding map_ok_def by auto
qed (use assms in \<open>auto split: option.splits if_splits intro!: map_ok_nodes map_ok_groups dest: map_okD(1)\<close>)

lemma map_edit_ok:
  assumes "map_edit e a = Some b" and "map_ok a" and "edit_ok e"
  shows "map_ok b"
proof (cases e)
  case (DropNode i)
  show ?thesis
  proof (cases "dm_nodes a i")
    case (Some n)
    then show ?thesis using assms DropNode remove_node_ok [OF assms(2), of i] by simp
  qed (use assms DropNode in simp)
next
  case (DropConnection i)
  with assms show ?thesis by (auto intro!: map_ok_fewer split: if_splits)
next
  case (DropGroup i)
  with assms show ?thesis unfolding map_ok_def by (auto split: if_splits)
next
  case (PlaceGroup i pos)
  with assms show ?thesis
    by (auto split: option.splits sum.splits intro!: map_ok_groups dest: moved_constructed)
qed (use assms map_op_ok in auto)

lemma map_edits_ok: "map_edits es a = Some b \<Longrightarrow> map_ok a \<Longrightarrow> \<forall>e \<in> set es. edit_ok e \<Longrightarrow> map_ok b"
proof (induction es arbitrary: a)
  case (Cons e es)
  from Cons.prems(1) obtain m where m: "map_edit e a = Some m" "map_edits es m = Some b"
    by (cases "map_edit e a") auto
  with Cons map_edit_ok [OF m(1)] show ?case by simp
qed simp

section \<open>Loops of edits\<close>

text \<open>Removing nodes, and putting values back.\<close>

definition cut_nodes :: "uuid set \<Rightarrow> document_map \<Rightarrow> document_map" where
  "cut_nodes I a = a\<lparr>dm_nodes := (\<lambda>i. if i \<in> I then None else dm_nodes a i),
     dm_connections := (\<lambda>k. case dm_connections a k of
         Some c \<Rightarrow> if source_node c \<in> I \<or> destination_node c \<in> I then None else Some c
       | None \<Rightarrow> None)\<rparr>"

definition node_map :: "node_model list \<Rightarrow> uuid \<rightharpoonup> node_model" where
  "node_map ns = map_of (map (\<lambda>n. (node_id n, norm_node n)) ns)"

definition conn_map :: "connection_model list \<Rightarrow> uuid \<rightharpoonup> connection_model" where
  "conn_map cs = map_of (map (\<lambda>c. (conn_id c, norm_conn c)) cs)"

lemma node_map_simps [simp]:
  "node_map [] = Map.empty" "node_map (n # ns) = (node_map ns)(node_id n \<mapsto> norm_node n)"
  by (simp_all add: node_map_def)

lemma conn_map_simps [simp]:
  "conn_map [] = Map.empty" "conn_map (c # cs) = (conn_map cs)(conn_id c \<mapsto> norm_conn c)"
  by (simp_all add: conn_map_def)

lemma node_map_None: "node_map ns i = None \<longleftrightarrow> i \<notin> node_id ` set ns"
  by (induction ns) auto

lemma node_map_get: "distinct (map node_id ns) \<Longrightarrow> n \<in> set ns \<Longrightarrow> node_map ns (node_id n) = Some (norm_node n)"
proof (induction ns)
  case (Cons m ns)
  then show ?case by (cases "n = m") (auto simp: rev_image_eqI)
qed simp

lemma conn_map_None: "conn_map cs i = None \<longleftrightarrow> i \<notin> conn_id ` set cs"
  by (induction cs) auto

lemma conn_map_get: "distinct (map conn_id cs) \<Longrightarrow> c \<in> set cs \<Longrightarrow> conn_map cs (conn_id c) = Some (norm_conn c)"
proof (induction cs)
  case (Cons m cs)
  then show ?case by (cases "c = m") (auto simp: rev_image_eqI)
qed simp

lemma cut_simps [simp]:
  "dm_nodes (cut_nodes I a) i = (if i \<in> I then None else dm_nodes a i)"
  "dm_connections (cut_nodes I a) k = (case dm_connections a k of
     Some c \<Rightarrow> if source_node c \<in> I \<or> destination_node c \<in> I then None else Some c | None \<Rightarrow> None)"
  "dm_groups (cut_nodes I a) = dm_groups a" "dm_id (cut_nodes I a) = dm_id a" "dm_settings (cut_nodes I a) = dm_settings a"
  by (simp_all add: cut_nodes_def)

lemma dm_eqI:
  fixes a b :: document_map
  assumes "\<And>i. dm_nodes a i = dm_nodes b i" and "\<And>i. dm_connections a i = dm_connections b i"
    and "\<And>i. dm_groups a i = dm_groups b i" and "dm_id a = dm_id b" and "dm_settings a = dm_settings b"
  shows "a = b"
  using assms by (intro document_map.equality) (auto intro: ext)

lemma cut_cut: "cut_nodes J (cut_nodes I a) = cut_nodes (I \<union> J) a"
  by (rule dm_eqI) (auto split: option.split)

lemma cut_untouched:
  assumes "map_ok a" and "\<forall>i \<in> I. dm_nodes a i = None"
  shows "cut_nodes I a = a"
proof (rule dm_eqI)
  fix k show "dm_connections (cut_nodes I a) k = dm_connections a k"
    using assms(2) map_okD(3,4) [OF assms(1), of k] by (auto split: option.split)
qed (use assms(2) in auto)

lemma cut_ok:
  assumes "map_ok a"
  shows "map_ok (cut_nodes I a)"
  using assms unfolding map_ok_def by (auto split: option.splits if_splits)

lemma drop_node: "map_ok a \<Longrightarrow> map_edit (DropNode i) a = Some (cut_nodes {i} a)"
proof (cases "dm_nodes a i")
  case None
  assume "map_ok a"
  with None show ?thesis by (simp add: cut_untouched)
next
  case (Some n)
  then show ?thesis by (auto intro!: dm_eqI simp: detach_def touches_def split: option.split)
qed

lemma drop_all: "map_ok a \<Longrightarrow> map_edits (drop_nodes ns) a = Some (cut_nodes (node_id ` set ns) a)"
proof (induction ns arbitrary: a)
  case Nil
  then show ?case by (simp add: cut_untouched)
next
  case (Cons n ns)
  then show ?case by (simp add: drop_node cut_ok cut_cut del: map_edit.simps)
qed

lemma drop_all_connections:
  "map_edits (map (\<lambda>c. DropConnection (conn_id c)) cs) a =
     Some (a\<lparr>dm_connections := (\<lambda>k. if k \<in> conn_id ` set cs then None else dm_connections a k)\<rparr>)"
proof (induction cs arbitrary: a)
  case (Cons c cs)
  show ?case by (auto simp: Cons.IH intro!: dm_eqI)
qed (auto intro!: dm_eqI)

lemma drop_all_groups:
  "map_edits (map (\<lambda>g. DropGroup (group_id g)) gs) a =
     Some (a\<lparr>dm_groups := (\<lambda>k. if k \<in> group_id ` set gs then None else dm_groups a k)\<rparr>)"
proof (induction gs arbitrary: a)
  case (Cons g gs)
  show ?case by (auto simp: Cons.IH intro!: dm_eqI)
qed (auto intro!: dm_eqI)

lemma restore_nodes_fresh:
  assumes "distinct (map node_id ns)" and "\<forall>n \<in> set ns. dm_nodes a (node_id n) = None"
  shows "map_edits (restore_nodes ns) a = Some (a\<lparr>dm_nodes := dm_nodes a ++ node_map ns\<rparr>)"
  using assms
proof (induction ns arbitrary: a)
  case (Cons n ns)
  let ?a = "a\<lparr>dm_nodes := (dm_nodes a)(node_id n \<mapsto> norm_node n)\<rparr>"
  have "map_edits (restore_nodes ns) ?a = Some (?a\<lparr>dm_nodes := dm_nodes ?a ++ node_map ns\<rparr>)"
    by (rule Cons.IH) (use Cons.prems in \<open>auto simp: rev_image_eqI\<close>)
  moreover have "node_map ns (node_id n) = None" using Cons.prems(1) by (simp add: node_map_None)
  ultimately show ?case
    using Cons.prems(2) by (auto simp: map_add_def intro!: dm_eqI split: option.split)
qed (auto intro!: dm_eqI)

lemma restore_nodes_done:
  assumes "map_edits (restore_nodes ns) a = Some b"
  shows "distinct (map node_id ns) \<and> (\<forall>n \<in> set ns. dm_nodes a (node_id n) = None)"
  using assms
proof (induction ns arbitrary: a)
  case (Cons n ns)
  then have "dm_nodes a (node_id n) = None"
    and "map_edits (restore_nodes ns) (a\<lparr>dm_nodes := (dm_nodes a)(node_id n \<mapsto> norm_node n)\<rparr>) = Some b"
    by (simp_all split: if_splits)
  with Cons.IH [OF this(2)] show ?case by (auto split: if_splits)
qed simp

lemma replace_nodes_all:
  assumes "distinct (map node_id ns)"
  shows "map_edits (replace_nodes ns) a = Some (a\<lparr>dm_nodes := dm_nodes a ++ node_map ns\<rparr>)"
  using assms
proof (induction ns arbitrary: a)
  case (Cons n ns)
  let ?a = "a\<lparr>dm_nodes := (dm_nodes a)(node_id n \<mapsto> norm_node n)\<rparr>"
  have "map_edits (replace_nodes ns) ?a = Some (?a\<lparr>dm_nodes := dm_nodes ?a ++ node_map ns\<rparr>)"
    by (rule Cons.IH) (use Cons.prems in simp)
  moreover have "node_map ns (node_id n) = None" using Cons.prems by (simp add: node_map_None)
  ultimately show ?case by (auto simp: map_add_def intro!: dm_eqI split: option.split)
qed (auto intro!: dm_eqI)

lemma restore_connections_fresh:
  assumes "distinct (map conn_id cs)" and "\<forall>c \<in> set cs. dm_connections a (conn_id c) = None"
    and "\<forall>c \<in> set cs. dm_nodes a (source_node c) \<noteq> None \<and> dm_nodes a (destination_node c) \<noteq> None"
  shows "map_edits (restore_connections cs) a = Some (a\<lparr>dm_connections := dm_connections a ++ conn_map cs\<rparr>)"
  using assms
proof (induction cs arbitrary: a)
  case (Cons c cs)
  let ?a = "a\<lparr>dm_connections := (dm_connections a)(conn_id c \<mapsto> norm_conn c)\<rparr>"
  have "map_edits (restore_connections cs) ?a = Some (?a\<lparr>dm_connections := dm_connections ?a ++ conn_map cs\<rparr>)"
    by (rule Cons.IH) (use Cons.prems in \<open>auto simp: rev_image_eqI\<close>)
  moreover have "conn_map cs (conn_id c) = None" using Cons.prems(1) by (simp add: conn_map_None)
  moreover have "map_edit (Do (RestoreConnection c False)) a = Some ?a"
    using Cons.prems(2,3) by (auto simp: restored_connection_def Let_def)
  ultimately show ?case by (auto simp: map_add_def intro!: dm_eqI split: option.split)
qed (auto intro!: dm_eqI)

lemma restored_effect:
  assumes "restored_connection c False a = Some b" and "map_ok a"
  shows "dm_nodes b = dm_nodes a \<and> dm_groups b = dm_groups a \<and> dm_id b = dm_id a \<and> dm_settings b = dm_settings a \<and> dm_connections b (conn_id c) = Some (norm_conn c) \<and>
    (\<forall>k. k \<noteq> conn_id c \<longrightarrow> dm_connections b k = dm_connections a k) \<and>
    (\<forall>k x. dm_connections a k = Some x \<longrightarrow> dm_connections b k = Some x) \<and>
    dm_nodes a (source_node c) \<noteq> None \<and> dm_nodes a (destination_node c) \<noteq> None"
proof -
  have n: "dm_nodes a (source_node c) \<noteq> None" "dm_nodes a (destination_node c) \<noteq> None"
    using assms(1) by (auto simp: restored_connection_def Let_def split: if_splits)
  show ?thesis
  proof (cases "dm_connections a (conn_id c)")
    case None
    then have "b = a\<lparr>dm_connections := (dm_connections a)(conn_id c \<mapsto> norm_conn c)\<rparr>"
      using assms(1) n by (simp add: restored_connection_def Let_def)
    with None n show ?thesis by auto
  next
    case (Some e)
    then have "connection_eq e (norm_conn c)" "b = a"
      using assms(1) n by (simp_all add: restored_connection_def Let_def split: if_splits)
    moreover from this(1) have "norm_conn e = norm_conn (norm_conn c)" by (rule connection_eq_norm)
    moreover have "norm_conn e = e" using map_okD(2) [OF assms(2) Some] by simp
    ultimately show ?thesis using Some n by simp
  qed
qed

lemma restore_connections_effect:
  assumes "map_edits (restore_connections cs) a = Some b" and "map_ok a"
  shows "dm_nodes b = dm_nodes a \<and> dm_groups b = dm_groups a \<and> dm_id b = dm_id a \<and> dm_settings b = dm_settings a \<and>
    (\<forall>c \<in> set cs. dm_connections b (conn_id c) = Some (norm_conn c)) \<and>
    (\<forall>k. k \<notin> conn_id ` set cs \<longrightarrow> dm_connections b k = dm_connections a k) \<and>
    (\<forall>k x. dm_connections a k = Some x \<longrightarrow> dm_connections b k = Some x)"
  using assms
proof (induction cs arbitrary: a)
  case (Cons c cs)
  from Cons.prems(1) obtain m where m: "restored_connection c False a = Some m"
    "map_edits (restore_connections cs) m = Some b"
    by (cases "restored_connection c False a") auto
  note r = restored_effect [OF m(1) Cons.prems(2)]
  note ih = Cons.IH [OF m(2) restored_connection_ok [OF m(1) Cons.prems(2)]]
  from ih r show ?case by auto
qed simp

end
