(* ===== verification/CommandUndo.thy ===== *)
theory CommandUndo
  imports CommandInverse
begin

text \<open>
  Every fitting command is undone exactly: the heart of the undo stack, one lemma per kind of
  command.
\<close>

section \<open>Fitting commands\<close>

text \<open>The recorded nodes with exactly the connections that touch them.\<close>

definition recorded :: "node_model list \<Rightarrow> connection_model list \<Rightarrow> document_map \<Rightarrow> bool" where
  "recorded ns cs a \<longleftrightarrow> distinct (map node_id ns) \<and> distinct (map conn_id cs) \<and>
     (\<forall>n \<in> set ns. dm_nodes a (node_id n) = Some (norm_node n)) \<and>
     (\<forall>c \<in> set cs. dm_connections a (conn_id c) = Some (norm_conn c) \<and>
        (source_node c \<in> node_id ` set ns \<or> destination_node c \<in> node_id ` set ns)) \<and>
     (\<forall>k c. dm_connections a k = Some c \<longrightarrow>
        source_node c \<in> node_id ` set ns \<or> destination_node c \<in> node_id ` set ns \<longrightarrow> k \<in> conn_id ` set cs)"

text \<open>What a command remembers is what the document holds.\<close>

fun fits :: "command \<Rightarrow> document_map \<Rightarrow> bool" where
  "fits (AddNodeCommand n replaced cs) a = recorded replaced cs a"
| "fits (AddGroupCommand g) a = group_constructed g"
| "fits (DeleteGroupsCommand gs) a = (distinct (map group_id gs) \<and> (\<forall>g \<in> set gs. dm_groups a (group_id g) = Some g))"
| "fits (MoveGroupsCommand old new) a = (fmdom old = fmdom new \<and>
     (\<forall>i p. fmlookup old i = Some p \<longrightarrow> (\<exists>g. dm_groups a i = Some g \<and> group_position g = p)))"
| "fits (EditGroupCommand old new) a = (group_id old = group_id new \<and> dm_groups a (group_id new) = Some old \<and>
     group_constructed new)"
| "fits (DeleteNodesCommand ns cs) a = recorded ns cs a"
| "fits (MoveNodesCommand old new) a = (fmdom old = fmdom new \<and>
     (\<forall>i p. fmlookup old i = Some p \<longrightarrow> (\<exists>n. dm_nodes a i = Some n \<and> position n = p)))"
| "fits (SetParameterCommand i p old new) a = (node_id old = i \<and> node_id new = i \<and> dm_nodes a i = Some (norm_node old))"
| "fits (SetConnectionPreviewCommand i old new) a = (\<exists>c. dm_connections a i = Some c \<and>
     fmlookup (conn_ui_state c) preview_visible_key = map_option norm_lit old)"
| "fits (RandomizeParametersCommand new old) a = (map node_id new = map node_id old \<and> distinct (map node_id old) \<and>
     (\<forall>n \<in> set old. dm_nodes a (node_id n) = Some (norm_node n)))"
| "fits (RandomizeNodesCommand ons ocs nns ncs) a = (recorded ons ocs a \<and>
     (\<forall>c \<in> set ncs. \<forall>e. dm_connections a (conn_id c) = Some e \<longrightarrow>
        source_node e \<in> node_id ` set ons \<or> destination_node e \<in> node_id ` set ons))"
| "fits (RelinkMediaCommand old new) a = (node_id new = node_id old \<and> dm_nodes a (node_id old) = Some (norm_node old))"
| "fits (AddConnectionCommand c) a = (\<forall>k e. dm_connections a k = Some e \<longrightarrow>
     \<not> enters (destination_node c) (destination_port c) e)"
| "fits (ReplaceConnectionCommand c replaced) a =
     ((\<forall>k e. dm_connections a k = Some e \<longrightarrow> enters (destination_node c) (destination_port c) e \<longrightarrow>
        (\<exists>r. replaced = Some r \<and> conn_id r = k)) \<and>
      (\<forall>r. replaced = Some r \<longrightarrow> dm_connections a (conn_id r) = Some (norm_conn r) \<and>
        enters (destination_node c) (destination_port c) r))"
| "fits (RemoveConnectionCommand c) a = (dm_connections a (conn_id c) = Some (norm_conn c))"
| "fits (PasteCommand ns cs) a = (\<forall>c \<in> set cs. source_node c \<in> node_id ` set ns)"

lemma redo_edits_ok: "fits c a \<Longrightarrow> e \<in> set (redo_edits c) \<Longrightarrow> edit_ok e"
  by (cases c) (auto simp: move_groups_def move_nodes_def set_preview_def swap_subgraph_def)

section \<open>Putting back\<close>

lemma restore_recorded:
  assumes "map_ok a" and "recorded ns cs a"
  shows "map_edits (restore_nodes ns @ restore_connections cs) (cut_nodes (node_id ` set ns) a) = Some a"
proof -
  let ?I = "node_id ` set ns" and ?b = "cut_nodes (node_id ` set ns) a"
  have r: "distinct (map node_id ns)" "distinct (map conn_id cs)"
    "\<And>n. n \<in> set ns \<Longrightarrow> dm_nodes a (node_id n) = Some (norm_node n)"
    "\<And>c. c \<in> set cs \<Longrightarrow> dm_connections a (conn_id c) = Some (norm_conn c)"
    "\<And>c. c \<in> set cs \<Longrightarrow> source_node c \<in> ?I \<or> destination_node c \<in> ?I"
    "\<And>k c. dm_connections a k = Some c \<Longrightarrow> source_node c \<in> ?I \<or> destination_node c \<in> ?I \<Longrightarrow> k \<in> conn_id ` set cs"
    using assms(2) unfolding recorded_def by blast+
  let ?c = "?b\<lparr>dm_nodes := dm_nodes ?b ++ node_map ns\<rparr>"
  have nodes: "dm_nodes ?c = dm_nodes a"
  proof
    fix i show "dm_nodes ?c i = dm_nodes a i"
    proof (cases "i \<in> ?I")
      case True
      then obtain n where "n \<in> set ns" "i = node_id n" by blast
      then show ?thesis using node_map_get [OF r(1)] r(3) by (simp add: map_add_def)
    next
      case False
      then have "node_map ns i = None" by (simp add: node_map_None)
      with False show ?thesis by (simp add: map_add_def)
    qed
  qed
  have "map_edits (restore_nodes ns) ?b = Some ?c"
    by (rule restore_nodes_fresh [OF r(1)]) simp
  moreover have "map_edits (restore_connections cs) ?c = Some (?c\<lparr>dm_connections := dm_connections ?c ++ conn_map cs\<rparr>)"
  proof (rule restore_connections_fresh [OF r(2)])
    show "\<forall>c \<in> set cs. dm_connections ?c (conn_id c) = None" using r(4,5) by auto
    show "\<forall>c \<in> set cs. dm_nodes ?c (source_node c) \<noteq> None \<and> dm_nodes ?c (destination_node c) \<noteq> None"
      unfolding nodes using map_okD(3,4) [OF assms(1)] r(4) by fastforce
  qed
  moreover have "?c\<lparr>dm_connections := dm_connections ?c ++ conn_map cs\<rparr> = a"
  proof (rule dm_eqI)
    fix k
    show "dm_connections (?c\<lparr>dm_connections := dm_connections ?c ++ conn_map cs\<rparr>) k = dm_connections a k"
    proof (cases "k \<in> conn_id ` set cs")
      case True
      then obtain c where "c \<in> set cs" "k = conn_id c" by blast
      then show ?thesis using conn_map_get [OF r(2)] r(4) by (simp add: map_add_def)
    next
      case False
      then have "conn_map cs k = None" by (simp add: conn_map_None)
      with False r(6) [of k] show ?thesis by (auto simp: map_add_def split: option.splits)
    qed
  qed (use nodes in auto)
  ultimately show ?thesis by simp
qed

lemma undo_delete_nodes:
  assumes "map_ok a" and "recorded ns cs a" and "map_edits (redo_edits (DeleteNodesCommand ns cs)) a = Some b"
  shows "map_edits (undo_edits (DeleteNodesCommand ns cs)) b = Some a"
  using assms(3) restore_recorded [OF assms(1,2)] by (simp add: drop_all [OF assms(1)])

text \<open>New nodes have no connections yet: cutting them leads back.\<close>

lemma uncut_new:
  assumes "map_ok a" and "\<forall>i \<in> I. dm_nodes a i = None"
    and "\<And>i. i \<notin> I \<Longrightarrow> dm_nodes b i = dm_nodes a i" and "dm_connections b = dm_connections a"
    and "dm_groups b = dm_groups a" "dm_id b = dm_id a" "dm_settings b = dm_settings a"
  shows "cut_nodes I b = a"
proof (rule dm_eqI)
  fix i show "dm_nodes (cut_nodes I b) i = dm_nodes a i" using assms(2,3) by auto
next
  fix k
  show "dm_connections (cut_nodes I b) k = dm_connections a k"
    using assms(2,4) map_okD(3,4) [OF assms(1), of k] by (auto split: option.split)
qed (use assms in auto)

lemma undo_add_node:
  assumes "map_ok a" and "recorded rs cs a" and "map_edits (redo_edits (AddNodeCommand n rs cs)) a = Some b"
  shows "map_edits (undo_edits (AddNodeCommand n rs cs)) b = Some a"
proof -
  let ?m = "cut_nodes (node_id ` set rs) a"
  have b: "dm_nodes ?m (node_id n) = None" "b = ?m\<lparr>dm_nodes := (dm_nodes ?m)(node_id n \<mapsto> norm_node n)\<rparr>"
    using assms(3) by (auto simp: drop_all [OF assms(1)] split: if_splits)
  have "map_edit (DropNode (node_id n)) b = Some (cut_nodes {node_id n} b)"
    by (rule drop_node) (simp add: b(2) map_ok_nodes cut_ok assms(1))
  then have "map_edit (Do (RemoveNode (node_id n))) b = Some (cut_nodes {node_id n} b)" by (simp add: b(2))
  moreover have "cut_nodes {node_id n} b = ?m"
    by (rule uncut_new [OF cut_ok [OF assms(1)]]) (use b in auto)
  ultimately show ?thesis using restore_recorded [OF assms(1,2)] by simp
qed

lemma undo_paste:
  assumes "map_ok a" and "\<forall>c \<in> set cs. source_node c \<in> node_id ` set ns"
    and "map_edits (redo_edits (PasteCommand ns cs)) a = Some b"
  shows "map_edits (undo_edits (PasteCommand ns cs)) b = Some a"
proof -
  let ?I = "node_id ` set ns"
  obtain m where m: "map_edits (restore_nodes ns) a = Some m" "map_edits (restore_connections cs) m = Some b"
    using assms(3) by (cases "map_edits (restore_nodes ns) a") auto
  have fresh: "distinct (map node_id ns)" "\<forall>n \<in> set ns. dm_nodes a (node_id n) = None"
    using restore_nodes_done [OF m(1)] by simp_all
  have md: "m = a\<lparr>dm_nodes := dm_nodes a ++ node_map ns\<rparr>" using restore_nodes_fresh [OF fresh] m(1) by simp
  have mok: "map_ok m" by (rule map_edits_ok [OF m(1) assms(1)]) auto
  have bok: "map_ok b" by (rule map_edits_ok [OF m(2) mok]) auto
  note eff = restore_connections_effect [OF m(2) mok]
  have "cut_nodes ?I b = a"
  proof (rule dm_eqI)
    fix i
    have "node_map ns i = None" if "i \<notin> ?I" using that by (simp add: node_map_None)
    then show "dm_nodes (cut_nodes ?I b) i = dm_nodes a i"
      using eff fresh(2) by (auto simp: md map_add_def)
  next
    fix k
    have old: "source_node c \<notin> ?I \<and> destination_node c \<notin> ?I" if "dm_connections a k = Some c" for c
      using map_okD(3,4) [OF assms(1) that] fresh(2) by fastforce
    have mk: "dm_connections m k = dm_connections a k" by (simp add: md)
    show "dm_connections (cut_nodes ?I b) k = dm_connections a k"
    proof (cases "k \<in> conn_id ` set cs")
      case True
      then obtain c where c: "c \<in> set cs" "k = conn_id c" by blast
      then have bk: "dm_connections b k = Some (norm_conn c)" using eff by blast
      have "dm_connections a k = None"
      proof (rule ccontr)
        assume "dm_connections a k \<noteq> None"
        then obtain e where e: "dm_connections a k = Some e" by blast
        then have "e = norm_conn c" using eff mk bk by (metis option.inject)
        with old [OF e] assms(2) c(1) show False by simp
      qed
      with bk assms(2) c(1) show ?thesis by simp
    next
      case False
      with eff mk have "dm_connections b k = dm_connections a k" by simp
      with old show ?thesis by (auto split: option.split)
    qed
  qed (use eff md in auto)
  then show ?thesis using drop_all [OF bok, of ns] by simp
qed

lemma undo_randomize_nodes:
  assumes "map_ok a" and r: "recorded ons ocs a"
    and f: "\<forall>c \<in> set ncs. \<forall>e. dm_connections a (conn_id c) = Some e \<longrightarrow>
      source_node e \<in> node_id ` set ons \<or> destination_node e \<in> node_id ` set ons"
    and "map_edits (swap_subgraph ons ocs nns ncs) a = Some b"
  shows "map_edits (swap_subgraph nns ncs ons ocs) b = Some a"
proof -
  let ?O = "node_id ` set ons" and ?N = "node_id ` set nns" and ?a = "cut_nodes (node_id ` set ons) a"
  let ?d = "a\<lparr>dm_connections := (\<lambda>k. if k \<in> conn_id ` set ocs then None else dm_connections a k)\<rparr>"
  have dok: "map_ok ?d" by (rule map_ok_fewer [OF assms(1)]) (simp split: if_splits)
  have touch: "source_node c \<in> ?O \<or> destination_node c \<in> ?O" if h: "k \<in> conn_id ` set ocs" "dm_connections a k = Some c" for k c
  proof -
    obtain x where "x \<in> set ocs" "k = conn_id x" using h(1) by blast
    then have "dm_connections a k = Some (norm_conn x)" "source_node x \<in> ?O \<or> destination_node x \<in> ?O"
      using r unfolding recorded_def by blast+
    with h(2) show ?thesis by auto
  qed
  have "cut_nodes ?O ?d = ?a"
    by (rule dm_eqI) (use touch in \<open>auto split: option.split\<close>)
  then have cutd: "map_edits (map (\<lambda>c. DropConnection (conn_id c)) ocs @ drop_nodes ons) a = Some ?a"
    by (simp add: drop_all_connections drop_all [OF dok])
  have aok: "map_ok ?a" by (rule cut_ok [OF assms(1)])
  obtain m where m: "map_edits (restore_nodes nns) ?a = Some m" "map_edits (restore_connections ncs) m = Some b"
    using assms(4) cutd by (cases "map_edits (restore_nodes nns) ?a") (auto simp: swap_subgraph_def bind_eq_Some_conv)
  have fresh: "distinct (map node_id nns)" "\<forall>n \<in> set nns. dm_nodes ?a (node_id n) = None"
    using restore_nodes_done [OF m(1)] by simp_all
  have md: "m = ?a\<lparr>dm_nodes := dm_nodes ?a ++ node_map nns\<rparr>" using restore_nodes_fresh [OF fresh] m(1) by simp
  have mok: "map_ok m" by (rule map_edits_ok [OF m(1) aok]) auto
  note eff = restore_connections_effect [OF m(2) mok]
  let ?e = "b\<lparr>dm_connections := (\<lambda>k. if k \<in> conn_id ` set ncs then None else dm_connections b k)\<rparr>"
  have conns: "dm_connections ?e = dm_connections ?a"
  proof
    fix k
    show "dm_connections ?e k = dm_connections ?a k"
    proof (cases "k \<in> conn_id ` set ncs")
      case True
      then have "dm_connections ?a k = None" using f by (auto split: option.split)
      with True show ?thesis by simp
    next
      case False
      with eff show ?thesis by (simp add: md)
    qed
  qed
  have "cut_nodes ?N ?e = ?a"
  proof (rule uncut_new [OF aok])
    show "\<forall>i \<in> ?N. dm_nodes ?a i = None" using fresh(2) by auto
    fix i assume "i \<notin> ?N"
    then have "node_map nns i = None" by (simp add: node_map_None)
    then show "dm_nodes ?e i = dm_nodes ?a i" using eff by (simp add: md map_add_def)
  qed (use conns eff md in simp_all)
  moreover have "map_ok ?e"
    by (rule map_ok_fewer [OF map_edits_ok [OF m(2) mok]]) (auto split: if_splits)
  ultimately have "map_edits (map (\<lambda>c. DropConnection (conn_id c)) ncs @ drop_nodes nns) b = Some ?a"
    by (simp add: drop_all_connections drop_all)
  moreover have "swap_subgraph nns ncs ons ocs = (map (\<lambda>c. DropConnection (conn_id c)) ncs @ drop_nodes nns) @
      (restore_nodes ons @ restore_connections ocs)" by (simp add: swap_subgraph_def)
  ultimately show ?thesis
    using restore_recorded [OF assms(1) r]
    by (simp only: map_edits_append [of "map (\<lambda>c. DropConnection (conn_id c)) ncs @ drop_nodes nns"] Option.bind.simps)
qed

lemma undo_delete_groups:
  assumes "distinct (map group_id gs)" and "\<forall>g \<in> set gs. dm_groups a (group_id g) = Some g"
    and "map_edits (redo_edits (DeleteGroupsCommand gs)) a = Some b"
  shows "map_edits (undo_edits (DeleteGroupsCommand gs)) b = Some a"
proof -
  have put: "map_edits (restore_groups gs) x = Some (x\<lparr>dm_groups := dm_groups x ++ map_of (map (\<lambda>g. (group_id g, g)) gs)\<rparr>)"
    if "distinct (map group_id gs)" "\<forall>g \<in> set gs. dm_groups x (group_id g) = None" for gs x
    using that
  proof (induction gs arbitrary: x)
    case (Cons g gs)
    let ?x = "x\<lparr>dm_groups := (dm_groups x)(group_id g \<mapsto> g)\<rparr>"
    have "map_edits (restore_groups gs) ?x = Some (?x\<lparr>dm_groups := dm_groups ?x ++ map_of (map (\<lambda>g. (group_id g, g)) gs)\<rparr>)"
      by (rule Cons.IH) (use Cons.prems in \<open>auto simp: rev_image_eqI\<close>)
    moreover have "map_of (map (\<lambda>g. (group_id g, g)) gs) (group_id g) = None"
      using Cons.prems(1) by (auto simp: map_of_eq_None_iff)
    ultimately show ?case using Cons.prems(2) by (auto simp: map_add_def intro!: dm_eqI split: option.split)
  qed (auto intro!: dm_eqI)
  let ?b = "a\<lparr>dm_groups := (\<lambda>k. if k \<in> group_id ` set gs then None else dm_groups a k)\<rparr>"
  have get: "map_of (map (\<lambda>g. (group_id g, g)) gs) k =
      (if k \<in> group_id ` set gs then dm_groups a k else None)" for k
  proof (cases "k \<in> group_id ` set gs")
    case True
    then obtain g where "g \<in> set gs" "k = group_id g" by blast
    moreover from this have "map_of (map (\<lambda>g. (group_id g, g)) gs) (group_id g) = Some g"
      using assms(1) by (intro map_of_is_SomeI) (auto simp: comp_def)
    ultimately show ?thesis using assms(2) by simp
  next
    case False
    then have "map_of (map (\<lambda>g. (group_id g, g)) gs) k = None" by (auto simp: map_of_eq_None_iff)
    with False show ?thesis by simp
  qed
  have "b = ?b" using assms(3) by (simp add: drop_all_groups)
  moreover have "map_edits (restore_groups gs) ?b = Some (?b\<lparr>dm_groups := dm_groups ?b ++ map_of (map (\<lambda>g. (group_id g, g)) gs)\<rparr>)"
    by (rule put [OF assms(1)]) simp
  moreover have "?b\<lparr>dm_groups := dm_groups ?b ++ map_of (map (\<lambda>g. (group_id g, g)) gs)\<rparr> = a"
    by (rule dm_eqI) (auto simp: map_add_def get split: option.splits)
  ultimately show ?thesis by simp
qed

section \<open>Moves\<close>

text \<open>Moving nodes overwrites positions and nothing else.\<close>

definition moved_nodes :: "(uuid \<rightharpoonup> point) \<Rightarrow> document_map \<Rightarrow> document_map" where
  "moved_nodes ps a = a\<lparr>dm_nodes := (\<lambda>i. case ps i of
       None \<Rightarrow> dm_nodes a i | Some p \<Rightarrow> map_option (\<lambda>n. n\<lparr>position := p\<rparr>) (dm_nodes a i))\<rparr>"

lemma move_nodes_list:
  assumes "distinct (map fst ps)"
  shows "map_edits (map (\<lambda>(i, pos). Do (SetPosition i pos)) ps) a =
    (if \<forall>i \<in> fst ` set ps. dm_nodes a i \<noteq> None then Some (moved_nodes (map_of ps) a) else None)"
  using assms
proof (induction ps arbitrary: a)
  case Nil
  show ?case by (auto simp: moved_nodes_def intro!: dm_eqI)
next
  case (Cons x ps)
  obtain i p where x: "x = (i, p)" by (cases x)
  have i: "i \<notin> fst ` set ps" using Cons.prems by (simp add: x)
  then have none: "map_of ps i = None" by (simp add: map_of_eq_None_iff)
  show ?case
  proof (cases "dm_nodes a i")
    case None
    then show ?thesis by (simp add: x)
  next
    case (Some n)
    let ?a = "a\<lparr>dm_nodes := (dm_nodes a)(i \<mapsto> n\<lparr>position := p\<rparr>)\<rparr>"
    have cond: "(\<forall>j \<in> fst ` set (x # ps). dm_nodes a j \<noteq> None) = (\<forall>j \<in> fst ` set ps. dm_nodes ?a j \<noteq> None)"
      using i Some by (auto simp: x)
    have mv: "moved_nodes (map_of (x # ps)) a = moved_nodes (map_of ps) ?a"
      using Some none by (auto simp: moved_nodes_def x intro!: dm_eqI split: option.split)
    have step: "map_edits (map (\<lambda>(i, pos). Do (SetPosition i pos)) (x # ps)) a =
        map_edits (map (\<lambda>(i, pos). Do (SetPosition i pos)) ps) ?a" using Some by (simp add: x)
    have d: "distinct (map fst ps)" using Cons.prems by simp
    show ?thesis unfolding step Cons.IH [OF d] cond mv ..
  qed
qed

lemma move_nodes_map:
  "map_edits (move_nodes ps) a = (if \<forall>i. fmlookup ps i \<noteq> None \<longrightarrow> dm_nodes a i \<noteq> None
     then Some (moved_nodes (fmlookup ps) a) else None)"
proof -
  have get: "map_of (sorted_list_of_fmap ps) = fmlookup ps"
    using fmap_of_sorted_list [of ps] by (metis fmap_of_list.rep_eq)
  then have "i \<in> fst ` set (sorted_list_of_fmap ps) \<longleftrightarrow> fmlookup ps i \<noteq> None" for i
    by (metis dict_get_None_iff)
  then have cond: "(\<forall>i \<in> fst ` set (sorted_list_of_fmap ps). dm_nodes a i \<noteq> None) =
      (\<forall>i. fmlookup ps i \<noteq> None \<longrightarrow> dm_nodes a i \<noteq> None)" by blast
  show ?thesis
    unfolding move_nodes_def move_nodes_list [OF distinct_sorted_list_of_fmap] cond get ..
qed

definition moved_groups :: "(uuid \<rightharpoonup> point) \<Rightarrow> document_map \<Rightarrow> document_map" where
  "moved_groups ps a = a\<lparr>dm_groups := (\<lambda>i. case ps i of
       None \<Rightarrow> dm_groups a i | Some p \<Rightarrow> map_option (\<lambda>g. g\<lparr>group_position := p\<rparr>) (dm_groups a i))\<rparr>"

definition placeable :: "(uuid \<rightharpoonup> point) \<Rightarrow> document_map \<Rightarrow> bool" where
  "placeable ps a \<longleftrightarrow> (\<forall>i p. ps i = Some p \<longrightarrow> (\<exists>g. dm_groups a i = Some g \<and> group_constructed (g\<lparr>group_position := p\<rparr>)))"

lemma moved_group_eq:
  "moved_group p g = (if group_constructed (g\<lparr>group_position := p\<rparr>) then Inr (g\<lparr>group_position := p\<rparr>) else moved_group p g)"
  by (auto simp: group_constructed_def moved_group_def)

lemma moved_group_Inr: "moved_group p g = Inr g' \<Longrightarrow> g' = g\<lparr>group_position := p\<rparr> \<and> group_constructed g'"
  by (cases g) (auto simp: group_constructed_def moved_group_def group_model_init_def split: if_splits)

lemma move_groups_list:
  assumes "distinct (map fst ps)" and "map_ok a"
  shows "map_edits (map (\<lambda>(i, pos). PlaceGroup i pos) ps) a =
    (if placeable (map_of ps) a then Some (moved_groups (map_of ps) a) else None)"
  using assms
proof (induction ps arbitrary: a)
  case Nil
  show ?case by (auto simp: moved_groups_def placeable_def intro!: dm_eqI)
next
  case (Cons x ps)
  obtain i p where x: "x = (i, p)" by (cases x)
  have i: "map_of ps i = None" using Cons.prems(1) by (simp add: x map_of_eq_None_iff)
  show ?case
  proof (cases "dm_groups a i")
    case None
    then show ?thesis by (auto simp: x placeable_def)
  next
    case (Some g)
    have id: "group_id g = i" using map_okD(5) [OF Cons.prems(2) Some] by simp
    show ?thesis
    proof (cases "group_constructed (g\<lparr>group_position := p\<rparr>)")
      case False
      then have "\<exists>e. moved_group p g = Inl e"
        using moved_group_Inr [of p g] by (cases "moved_group p g") auto
      then have "map_edits (map (\<lambda>(i, pos). PlaceGroup i pos) (x # ps)) a = None" using Some by (auto simp: x)
      moreover have "\<not> placeable (map_of (x # ps)) a"
      proof
        assume "placeable (map_of (x # ps)) a"
        then have "map_of (x # ps) i = Some p \<longrightarrow> (\<exists>h. dm_groups a i = Some h \<and> group_constructed (h\<lparr>group_position := p\<rparr>))"
          unfolding placeable_def by blast
        with Some False show False by (simp add: x)
      qed
      ultimately show ?thesis by (simp only: if_False)
    next
      case True
      let ?a = "a\<lparr>dm_groups := (dm_groups a)(i \<mapsto> g\<lparr>group_position := p\<rparr>)\<rparr>"
      have ok: "map_ok ?a" by (rule map_ok_groups [OF Cons.prems(2)]) (use True id in simp_all)
      have pl: "placeable (map_of (x # ps)) a = placeable (map_of ps) ?a"
      proof -
        have "placeable (map_of ps) ?a \<longleftrightarrow> placeable (map_of ps) a"
          unfolding placeable_def using i by (metis (no_types, lifting) document_map.select_convs(4)
            document_map.surjective document_map.update_convs(4) fun_upd_other option.distinct(1))
        moreover have "placeable (map_of (x # ps)) a \<longleftrightarrow> placeable (map_of ps) a"
          unfolding placeable_def x using Some True i by (simp split: if_splits) (metis option.distinct(1))
        ultimately show ?thesis by blast
      qed
      have mv: "moved_groups (map_of (x # ps)) a = moved_groups (map_of ps) ?a"
        using Some i by (auto simp: moved_groups_def x intro!: dm_eqI split: option.split)
      have step: "map_edits (map (\<lambda>(i, pos). PlaceGroup i pos) (x # ps)) a = map_edits (map (\<lambda>(i, pos). PlaceGroup i pos) ps) ?a"
      proof -
        have "moved_group p g = Inr (g\<lparr>group_position := p\<rparr>)" using True by (simp add: moved_group_eq [of p g])
        then show ?thesis using Some id by (simp add: x)
      qed
      have d: "distinct (map fst ps)" using Cons.prems(1) by simp
      show ?thesis unfolding step Cons.IH [OF d ok] pl mv ..
    qed
  qed
qed

lemma move_groups_map:
  assumes "map_ok a"
  shows "map_edits (move_groups ps) a = (if placeable (fmlookup ps) a then Some (moved_groups (fmlookup ps) a) else None)"
proof -
  have "map_of (sorted_list_of_fmap ps) = fmlookup ps"
    using fmap_of_sorted_list [of ps] by (metis fmap_of_list.rep_eq)
  then show ?thesis
    using move_groups_list [OF distinct_sorted_list_of_fmap assms, of ps] by (simp add: move_groups_def)
qed

lemma undo_move_nodes:
  assumes "fits (MoveNodesCommand old new) a" and "map_edits (move_nodes new) a = Some b"
  shows "map_edits (move_nodes old) b = Some a"
proof -
  have dom: "fmlookup old i = None \<longleftrightarrow> fmlookup new i = None" for i
    using assms(1) by (metis fits.simps(7) fmdom_notI fmdom_notD)
  have b: "b = moved_nodes (fmlookup new) a" and n: "\<forall>i. fmlookup new i \<noteq> None \<longrightarrow> dm_nodes a i \<noteq> None"
    using assms(2) unfolding move_nodes_map by (simp_all split: if_splits)
  have "moved_nodes (fmlookup old) b = a"
  proof (rule dm_eqI)
    fix i
    show "dm_nodes (moved_nodes (fmlookup old) b) i = dm_nodes a i"
    proof (cases "fmlookup old i")
      case None
      then have "fmlookup new i = None" using dom by simp
      with None show ?thesis by (simp add: b moved_nodes_def)
    next
      case (Some p)
      then obtain x q where "dm_nodes a i = Some x" "position x = p" "fmlookup new i = Some q"
        using assms(1) dom [of i] by (metis fits.simps(7) not_None_eq)
      with Some show ?thesis by (auto simp: b moved_nodes_def)
    qed
  qed (simp_all add: b moved_nodes_def)
  moreover have "\<forall>i. fmlookup old i \<noteq> None \<longrightarrow> dm_nodes b i \<noteq> None"
    using n dom unfolding b moved_nodes_def by (auto split: option.split)
  ultimately show ?thesis unfolding move_nodes_map by simp
qed

lemma moved_back:
  fixes g :: group_model
  assumes "group_position g = p"
  shows "g\<lparr>group_position := q\<rparr>\<lparr>group_position := p\<rparr> = g"
  using assms by (cases g) simp

lemma undo_move_groups:
  assumes "map_ok a" and "fits (MoveGroupsCommand old new) a" and "map_edits (move_groups new) a = Some b"
  shows "map_edits (move_groups old) b = Some a"
proof -
  have dom: "fmlookup old i = None \<longleftrightarrow> fmlookup new i = None" for i
    using assms(2) by (metis fits.simps(4) fmdom_notI fmdom_notD)
  have f: "\<exists>g. dm_groups a i = Some g \<and> group_position g = p" if "fmlookup old i = Some p" for i p
    using assms(2) that by (metis fits.simps(4))
  have b: "b = moved_groups (fmlookup new) a"
    using assms(3) unfolding move_groups_map [OF assms(1)] by (simp split: if_splits)
  have bok: "map_ok b" by (rule map_edits_ok [OF assms(3,1)]) (auto simp: move_groups_def)
  have same: "dm_groups b i = Some (g\<lparr>group_position := q\<rparr>) \<and> g\<lparr>group_position := q\<rparr>\<lparr>group_position := p\<rparr> = g"
    if "dm_groups a i = Some g" "group_position g = p" "fmlookup new i = Some q" for i g p q
    using that by (intro conjI moved_back) (auto simp: b moved_groups_def)
  have "moved_groups (fmlookup old) b = a"
  proof (rule dm_eqI)
    fix i
    show "dm_groups (moved_groups (fmlookup old) b) i = dm_groups a i"
    proof (cases "fmlookup old i")
      case None
      then have "fmlookup new i = None" using dom by simp
      with None show ?thesis by (simp add: b moved_groups_def)
    next
      case (Some p)
      then obtain g q where g: "dm_groups a i = Some g" "group_position g = p" "fmlookup new i = Some q"
        using f dom [of i] by (metis not_None_eq)
      from same [OF this] Some g(1) show ?thesis by (simp add: moved_groups_def)
    qed
  qed (simp_all add: b moved_groups_def)
  moreover have "placeable (fmlookup old) b"
    unfolding placeable_def
  proof (intro allI impI)
    fix i p assume p: "fmlookup old i = Some p"
    then obtain g q where g: "dm_groups a i = Some g" "group_position g = p" "fmlookup new i = Some q"
      using f dom [of i] by (metis not_None_eq)
    moreover have "group_constructed g" using map_okD(5) [OF assms(1) g(1)] by simp
    ultimately show "\<exists>h. dm_groups b i = Some h \<and> group_constructed (h\<lparr>group_position := p\<rparr>)"
      using same [OF g] by (intro exI [of _ "g\<lparr>group_position := q\<rparr>"]) (simp only:)
  qed
  ultimately show ?thesis unfolding move_groups_map [OF bok] by simp
qed

section \<open>Single values\<close>

lemma undo_replace_nodes:
  assumes "map node_id new = map node_id old" and "distinct (map node_id old)"
    and "\<forall>n \<in> set old. dm_nodes a (node_id n) = Some (norm_node n)" and "map_edits (replace_nodes new) a = Some b"
  shows "map_edits (replace_nodes old) b = Some a"
proof -
  have b: "b = a\<lparr>dm_nodes := dm_nodes a ++ node_map new\<rparr>"
    using assms(4) replace_nodes_all [of new a] assms(1,2) by simp
  have "b\<lparr>dm_nodes := dm_nodes b ++ node_map old\<rparr> = a"
  proof (rule dm_eqI)
    fix i
    show "dm_nodes (b\<lparr>dm_nodes := dm_nodes b ++ node_map old\<rparr>) i = dm_nodes a i"
    proof (cases "i \<in> node_id ` set old")
      case True
      then obtain n where "n \<in> set old" "i = node_id n" by blast
      then show ?thesis using node_map_get [OF assms(2)] assms(3) by (simp add: map_add_def)
    next
      case False
      moreover from this have "i \<notin> node_id ` set new" using assms(1) by (metis set_map)
      ultimately have "node_map old i = None" "node_map new i = None" by (simp_all add: node_map_None)
      then show ?thesis by (simp add: b map_add_def)
    qed
  qed (simp_all add: b)
  then show ?thesis using replace_nodes_all [OF assms(2), of b] by simp
qed

lemma undo_set_preview:
  assumes "map_ok a" and "fits (SetConnectionPreviewCommand i old new) a"
    and "map_edits (set_preview i (Some new)) a = Some b"
  shows "map_edits (set_preview i old) b = Some a"
proof -
  obtain c where c: "dm_connections a i = Some c" "fmlookup (conn_ui_state c) preview_visible_key = map_option norm_lit old"
    using assms(2) by auto
  let ?u = "fmupd preview_visible_key (norm_lit new) (conn_ui_state c)"
  have b: "b = a\<lparr>dm_connections := (dm_connections a)(i \<mapsto> c\<lparr>conn_ui_state := ?u\<rparr>)\<rparr>"
    using assms(3) c(1) by (simp add: set_preview_def)
  show ?thesis
  proof (cases old)
    case None
    have "fmdrop preview_visible_key ?u = conn_ui_state c"
      using c(2) None by (intro fmap_ext) auto
    then show ?thesis using c(1) None by (auto simp: set_preview_def b intro!: dm_eqI)
  next
    case (Some v)
    have "fmupd preview_visible_key (norm_lit v) ?u = conn_ui_state c"
      using c(2) Some by (intro fmap_ext) auto
    then show ?thesis using c(1) Some by (auto simp: set_preview_def b intro!: dm_eqI)
  qed
qed

lemma undo_replace_connection:
  assumes "map_ok a" and "fits (ReplaceConnectionCommand c replaced) a"
    and "map_edits (redo_edits (ReplaceConnectionCommand c replaced)) a = Some b"
  shows "map_edits (undo_edits (ReplaceConnectionCommand c replaced)) b = Some a"
proof -
  let ?E = "enters (destination_node c) (destination_port c)"
  have only: "\<And>k e. dm_connections a k = Some e \<Longrightarrow> ?E e \<Longrightarrow> \<exists>r. replaced = Some r \<and> conn_id r = k"
    and rec: "\<And>r. replaced = Some r \<Longrightarrow> dm_connections a (conn_id r) = Some (norm_conn r) \<and> ?E r"
    using assms(2) by auto
  have R: "restored_connection c True a = Some b"
    using assms(3) by (cases "restored_connection c True a") simp_all
  have n: "dm_nodes a (source_node c) \<noteq> None" "dm_nodes a (destination_node c) \<noteq> None"
    using R by (auto simp: restored_connection_def Let_def split: if_splits)
  have b: "dm_nodes b = dm_nodes a \<and> dm_groups b = dm_groups a \<and> dm_id b = dm_id a \<and> dm_settings b = dm_settings a \<and>
    dm_connections b (conn_id c) = Some (norm_conn c) \<and>
    (\<forall>k. k \<noteq> conn_id c \<longrightarrow> dm_connections b k = (if \<exists>r. replaced = Some r \<and> conn_id r = k then None else dm_connections a k)) \<and>
    (\<forall>e. dm_connections a (conn_id c) = Some e \<longrightarrow> ?E e)"
  proof (cases "\<exists>e. dm_connections a (conn_id c) = Some e \<and> connection_eq e (norm_conn c)")
    case True
    then obtain e where e: "dm_connections a (conn_id c) = Some e" "connection_eq e (norm_conn c)" by blast
    then have ba: "b = a" using R n by (simp add: restored_connection_def Let_def)
    have "norm_conn e = e" using map_okD(2) [OF assms(1) e(1)] by simp
    moreover have "norm_conn e = norm_conn (norm_conn c)" by (rule connection_eq_norm [OF e(2)])
    ultimately have ec: "e = norm_conn c" by simp
    then have "?E e" by (simp add: enters_def)
    with only [OF e(1)] obtain r where "replaced = Some r" "conn_id r = conn_id c" by blast
    with e(1) ec ba \<open>?E e\<close> show ?thesis by auto
  next
    case False
    then have b': "b = a\<lparr>dm_connections := (vacate (destination_node c) (destination_port c) (dm_connections a))(conn_id c \<mapsto> norm_conn c)\<rparr>"
      and ce: "\<forall>e. dm_connections a (conn_id c) = Some e \<longrightarrow> ?E e"
      using R n by (auto simp: restored_connection_def Let_def split: option.splits if_splits)
    have "vacate (destination_node c) (destination_port c) (dm_connections a) k =
        (if \<exists>r. replaced = Some r \<and> conn_id r = k then None else dm_connections a k)" for k
    proof (cases "dm_connections a k")
      case None
      then show ?thesis by (simp add: vacate_def)
    next
      case (Some e)
      have "?E e \<longleftrightarrow> (\<exists>r. replaced = Some r \<and> conn_id r = k)"
        using only [OF Some] rec Some by (metis norm_conn_simps(7) option.inject)
      with Some show ?thesis by (auto simp: vacate_def)
    qed
    with b' ce show ?thesis by simp
  qed
  let ?m = "b\<lparr>dm_connections := (dm_connections b)(conn_id c := None)\<rparr>"
  have first: "map_edit (Do (RemoveConnection (conn_id c))) b = Some ?m" using b by simp
  show ?thesis
  proof (cases replaced)
    case None
    have "?m = a"
    proof (rule dm_eqI)
      fix k show "dm_connections ?m k = dm_connections a k"
        using b None only [of k] by (cases "dm_connections a (conn_id c)") auto
    qed (use b in auto)
    with first None show ?thesis by simp
  next
    case (Some r)
    have r: "dm_connections a (conn_id r) = Some (norm_conn r)" "?E r" using rec [OF Some] by simp_all
    have "dm_connections ?m (conn_id r) = None" using b Some by auto
    moreover have "dm_nodes ?m (source_node r) \<noteq> None" "dm_nodes ?m (destination_node r) \<noteq> None"
      using map_okD(3,4) [OF assms(1) r(1)] b by simp_all
    ultimately have "restored_connection r False ?m =
        Some (?m\<lparr>dm_connections := (dm_connections ?m)(conn_id r \<mapsto> norm_conn r)\<rparr>)"
      by (simp add: restored_connection_def Let_def)
    moreover have "?m\<lparr>dm_connections := (dm_connections ?m)(conn_id r \<mapsto> norm_conn r)\<rparr> = a"
    proof (rule dm_eqI)
      fix k
      show "dm_connections (?m\<lparr>dm_connections := (dm_connections ?m)(conn_id r \<mapsto> norm_conn r)\<rparr>) k = dm_connections a k"
      proof (cases "k = conn_id r \<or> k \<noteq> conn_id c")
        case True
        with b Some r(1) show ?thesis by auto
      next
        case False
        have "dm_connections a (conn_id c) = None"
        proof (rule ccontr)
          assume "dm_connections a (conn_id c) \<noteq> None"
          then obtain e where e: "dm_connections a (conn_id c) = Some e" by blast
          then have "?E e" using b by blast
          with only [OF e] obtain r' where "replaced = Some r'" "conn_id r' = conn_id c" by blast
          with Some False show False by simp
        qed
        with False show ?thesis by simp
      qed
    qed (use b in auto)
    ultimately show ?thesis using first Some by simp
  qed
qed

section \<open>Undoing is exact\<close>

lemma undo_exact:
  assumes "map_ok a" and f: "fits c a" and r: "map_edits (redo_edits c) a = Some b"
  shows "map_edits (undo_edits c) b = Some a"
proof (cases c)
  case (AddNodeCommand n rs cs)
  then show ?thesis using undo_add_node [OF assms(1)] f r by simp
next
  case (AddGroupCommand g)
  then have "dm_groups a (group_id g) = None" "b = a\<lparr>dm_groups := (dm_groups a)(group_id g \<mapsto> g)\<rparr>"
    using r by (simp_all split: if_splits)
  with AddGroupCommand show ?thesis by (auto intro!: dm_eqI)
next
  case (DeleteGroupsCommand gs)
  then show ?thesis using undo_delete_groups f r by simp
next
  case (MoveGroupsCommand old new)
  then show ?thesis using undo_move_groups [OF assms(1)] f r by simp
next
  case (EditGroupCommand old new)
  then have "b = a\<lparr>dm_groups := (dm_groups a)(group_id new \<mapsto> new)\<rparr>" using r by simp
  with EditGroupCommand f show ?thesis by (auto intro!: dm_eqI)
next
  case (DeleteNodesCommand ns cs)
  then show ?thesis using undo_delete_nodes [OF assms(1)] f r by simp
next
  case (MoveNodesCommand old new)
  then show ?thesis using undo_move_nodes f r by simp
next
  case (SetParameterCommand i p old new)
  then show ?thesis using undo_replace_nodes [of "[new]" "[old]" a b] f r by simp
next
  case (SetConnectionPreviewCommand i old new)
  then show ?thesis using undo_set_preview [OF assms(1)] f r by simp
next
  case (RandomizeParametersCommand new old)
  then show ?thesis using undo_replace_nodes [of new old a b] f r by simp
next
  case (RandomizeNodesCommand ons ocs nns ncs)
  then show ?thesis using undo_randomize_nodes [OF assms(1)] f r by simp
next
  case (RelinkMediaCommand old new)
  then show ?thesis using undo_replace_nodes [of "[new]" "[old]" a b] f r by simp
next
  case (AddConnectionCommand x)
  then have R: "restored_connection x False a = Some b"
    using r by (cases "restored_connection x False a") simp_all
  note e = restored_effect [OF R assms(1)]
  have none: "dm_connections a (conn_id x) = None"
  proof (rule ccontr)
    assume "dm_connections a (conn_id x) \<noteq> None"
    then obtain y where y: "dm_connections a (conn_id x) = Some y" by blast
    with e have "y = norm_conn x" by (metis option.inject)
    then have "enters (destination_node x) (destination_port x) y" by (simp add: enters_def)
    with y f AddConnectionCommand show False by auto
  qed
  then have "b = a\<lparr>dm_connections := (dm_connections a)(conn_id x \<mapsto> norm_conn x)\<rparr>"
    using R by (simp add: restored_connection_def Let_def split: if_splits)
  with none AddConnectionCommand show ?thesis by (auto intro!: dm_eqI)
next
  case (ReplaceConnectionCommand x replaced)
  then show ?thesis using undo_replace_connection [OF assms(1)] f r by simp
next
  case (RemoveConnectionCommand x)
  have x: "dm_connections a (conn_id x) = Some (norm_conn x)" using f RemoveConnectionCommand by simp
  then have b: "b = a\<lparr>dm_connections := (dm_connections a)(conn_id x := None)\<rparr>" using r RemoveConnectionCommand by simp
  have "dm_nodes a (source_node x) \<noteq> None" "dm_nodes a (destination_node x) \<noteq> None"
    using map_okD(3,4) [OF assms(1) x] by simp_all
  then have "restored_connection x False b = Some a"
    using x by (auto simp: restored_connection_def Let_def b intro!: dm_eqI)
  with RemoveConnectionCommand show ?thesis by simp
next
  case (PasteCommand ns cs)
  then show ?thesis using undo_paste [OF assms(1)] f r by simp
qed

lemma redo_ok: "map_ok a \<Longrightarrow> fits c a \<Longrightarrow> map_edits (redo_edits c) a = Some b \<Longrightarrow> map_ok b"
  using map_edits_ok redo_edits_ok by blast

section \<open>Merging\<close>

lemma merged_exact:
  assumes "map_ok a" and "fits c a" and "map_edits (redo_edits c) a = Some b"
    and "fits c' b" and "map_edits (redo_edits c') b = Some d" and "merge_with c c' = Some m"
  shows "fits m a \<and> map_edits (redo_edits m) a = Some d"
  using assms(6)
proof (cases rule: merge_with.elims)
  case (1 old new old' new')
  have dom: "fmlookup new' i = None \<longleftrightarrow> fmlookup new i = None" for i
    using 1(3) by (metis fmdom_notI fmdom_notD option.distinct(1))
  have bok: "map_ok b" by (rule redo_ok [OF assms(1-3)])
  have b: "b = moved_groups (fmlookup new) a"
    using assms(3) 1(1) by (simp add: move_groups_map [OF assms(1)] split: if_splits)
  have d: "placeable (fmlookup new') b" "d = moved_groups (fmlookup new') b"
    using assms(5) 1(2) by (simp_all add: move_groups_map [OF bok] split: if_splits)
  have "placeable (fmlookup new') a"
    unfolding placeable_def
  proof (intro allI impI)
    fix i p assume p: "fmlookup new' i = Some p"
    then obtain g q where g: "dm_groups b i = Some g" "group_constructed (g\<lparr>group_position := p\<rparr>)" "fmlookup new i = Some q"
      using d(1) dom [of i] unfolding placeable_def by (metis option.exhaust option.distinct(1))
    then obtain h where h: "dm_groups a i = Some h" "g = h\<lparr>group_position := q\<rparr>" by (auto simp: b moved_groups_def)
    have "h\<lparr>group_position := q\<rparr>\<lparr>group_position := p\<rparr> = h\<lparr>group_position := p\<rparr>" by (cases h) simp
    with g(2) h show "\<exists>g. dm_groups a i = Some g \<and> group_constructed (g\<lparr>group_position := p\<rparr>)" by simp
  qed
  moreover have "moved_groups (fmlookup new') a = d"
  proof (rule dm_eqI)
    fix i show "dm_groups (moved_groups (fmlookup new') a) i = dm_groups d i"
      using dom [of i] by (cases "dm_groups a i"; cases "fmlookup new i"; cases "fmlookup new' i")
        (simp_all add: d(2) b moved_groups_def)
  qed (simp_all add: d(2) b moved_groups_def)
  moreover have "m = MoveGroupsCommand old new'" "fmdom new' = fmdom new" using 1(3) by (simp_all split: if_splits)
  ultimately show ?thesis using assms(2) 1(1) by (simp add: move_groups_map [OF assms(1)])
next
  case (2 old new old' new')
  have dom: "fmlookup new' i = None \<longleftrightarrow> fmlookup new i = None" for i
    using 2(3) by (metis fmdom_notI fmdom_notD option.distinct(1))
  have b: "\<forall>i. fmlookup new i \<noteq> None \<longrightarrow> dm_nodes a i \<noteq> None" "b = moved_nodes (fmlookup new) a"
    using assms(3) 2(1) by (simp_all add: move_nodes_map split: if_splits)
  have d: "d = moved_nodes (fmlookup new') b"
    using assms(5) 2(2) by (simp add: move_nodes_map split: if_splits)
  have "moved_nodes (fmlookup new') a = d"
  proof (rule dm_eqI)
    fix i show "dm_nodes (moved_nodes (fmlookup new') a) i = dm_nodes d i"
      using dom [of i] by (cases "dm_nodes a i"; cases "fmlookup new i"; cases "fmlookup new' i")
        (simp_all add: d b(2) moved_nodes_def)
  qed (simp_all add: d b(2) moved_nodes_def)
  moreover have "\<forall>i. fmlookup new' i \<noteq> None \<longrightarrow> dm_nodes a i \<noteq> None" using b(1) dom by simp
  moreover have "m = MoveNodesCommand old new'" "fmdom new' = fmdom new" using 2(3) by (simp_all split: if_splits)
  ultimately show ?thesis using assms(2) 2(1) by (simp add: move_nodes_map)
next
  case (3 i p old new i' p' old' new')
  have m: "m = SetParameterCommand i p old new'" "i' = i" using 3(3) by (simp_all split: if_splits)
  have b: "b = a\<lparr>dm_nodes := (dm_nodes a)(i \<mapsto> norm_node new)\<rparr>" and d: "d = b\<lparr>dm_nodes := (dm_nodes b)(i \<mapsto> norm_node new')\<rparr>"
    using assms(2-5) 3(1,2) m(2) by auto
  then have "d = a\<lparr>dm_nodes := (dm_nodes a)(i \<mapsto> norm_node new')\<rparr>" by (auto intro!: dm_eqI)
  then show ?thesis using assms(2,4) 3(1,2) m by auto
qed simp_all

end
