(* ===== verification/CommandHistory.thy ===== *)
theory CommandHistory
  imports CommandUndo
begin

text \<open>
  The undo stack over the document: commands created by their constructors fit the document, and
  any sequence of pushes, merges, undos and redos moves through the document's past like a zipper.
\<close>

section \<open>Created commands fit\<close>

lemma doc_nodes_iff: "n \<in> set (doc_nodes d) \<longleftrightarrow> (\<exists>k. fmlookup (g_nodes d) k = Some n)"
  by (simp add: doc_nodes_def set_sorted_values fmlookup_ran'_iff)

lemma doc_groups_iff: "g \<in> set (doc_groups d) \<longleftrightarrow> (\<exists>k. fmlookup (g_groups d) k = Some g)"
  by (simp add: doc_groups_def set_sorted_values fmlookup_ran'_iff)

lemma document_okD:
  assumes "map_ok (document_map_of d)"
  shows "fmlookup (g_nodes d) i = Some n \<Longrightarrow> node_id n = i"
    and "fmlookup (g_connections d) k = Some c \<Longrightarrow> conn_id c = k"
    and "fmlookup (g_groups d) j = Some g \<Longrightarrow> group_id g = j \<and> group_constructed g"
  using map_okD(1) [OF assms, of i] map_okD(2) [OF assms, of k] map_okD(5) [OF assms, of j] by simp_all

lemma distinct_map_key_filter: "distinct (map f xs) \<Longrightarrow> distinct (map f (filter P xs))"
  by (induction xs) auto

lemma selected_recorded:
  assumes "map_ok (document_map_of d)"
  shows "recorded (selected_nodes d I) (incident_connections d (node_id ` set (selected_nodes d I))) (document_map_of d)"
    (is "recorded ?ns ?cs _")
  unfolding recorded_def
proof (intro conjI ballI allI impI)
  note ok = document_okD [OF assms]
  show "distinct (map node_id ?ns)" "distinct (map conn_id ?cs)"
    using ok(1,2) by (simp_all add: selected_nodes_def incident_connections_def doc_nodes_def doc_connections_def
        distinct_map_key_filter distinct_sorted_values)
  fix n assume "n \<in> set ?ns"
  then show "dm_nodes (document_map_of d) (node_id n) = Some (norm_node n)"
    using ok(1) by (auto simp: selected_nodes_def doc_nodes_iff)
next
  note ok = document_okD [OF assms]
  fix c assume "c \<in> set ?cs"
  then obtain k where k: "fmlookup (g_connections d) k = Some c"
    and t: "source_node c \<in> node_id ` set ?ns \<or> destination_node c \<in> node_id ` set ?ns"
    by (auto simp: incident_connections_def doc_connections_iff)
  with ok(2) [OF k] show "dm_connections (document_map_of d) (conn_id c) = Some (norm_conn c)" by simp
  from t show "source_node c \<in> node_id ` set ?ns \<or> destination_node c \<in> node_id ` set ?ns" .
next
  note ok = document_okD [OF assms]
  fix k c assume c: "dm_connections (document_map_of d) k = Some c"
    and t: "source_node c \<in> node_id ` set ?ns \<or> destination_node c \<in> node_id ` set ?ns"
  then obtain x where x: "fmlookup (g_connections d) k = Some x" "c = norm_conn x" by auto
  then have "x \<in> set ?cs" using t by (auto simp: incident_connections_def doc_connections_iff)
  with ok(2) [OF x(1)] show "k \<in> conn_id ` set ?cs" by blast
qed

lemma selected_all:
  assumes "map_ok (document_map_of d)" and "length (selected_nodes d I) = card I" and "finite I"
  shows "node_id ` set (selected_nodes d I) = I"
proof -
  have d: "distinct (map node_id (selected_nodes d I))"
    using selected_recorded [OF assms(1)] unfolding recorded_def by blast
  have "node_id ` set (selected_nodes d I) \<subseteq> I" by (auto simp: selected_nodes_def)
  moreover have "card (node_id ` set (selected_nodes d I)) = card I"
    using distinct_card [OF d] assms(2) by simp
  ultimately show ?thesis by (rule card_subset_eq [OF assms(3)])
qed

lemma mapM_nodes:
  "mapM (\<lambda>n. case fmlookup (g_nodes d) (node_id n) of
     None \<Rightarrow> Inl (unknown_node (node_id n)) | Some old \<Rightarrow> Inr old) ns = Inr olds \<Longrightarrow>
   list_all2 (\<lambda>n old. fmlookup (g_nodes d) (node_id n) = Some old) ns olds"
  by (induction ns arbitrary: olds) (auto simp: bind_res_eq_Inr split: option.splits)

lemma created_fits:
  assumes "created d c" and whole: "restorable d c" and ok: "map_ok (document_map_of d)"
  shows "fits c (document_map_of d)"
  using assms(1)
proof cases
  case (add_node n selected)
  then have l: "length (selected_nodes d selected) = card selected"
    and c: "c = AddNodeCommand n (selected_nodes d selected) (incident_connections d selected)"
    by (simp_all add: add_node_command_def split: if_splits)
  from selected_all [OF ok l add_node(2)] selected_recorded [OF ok, of selected] c show ?thesis by simp
next
  case (delete_groups selected)
  have "distinct (map group_id (doc_groups d))"
    unfolding doc_groups_def by (rule distinct_sorted_values) (simp add: document_okD(3) [OF ok])
  then show ?thesis
    using document_okD(3) [OF ok] delete_groups
    by (auto simp: delete_groups_command_def doc_groups_iff distinct_map_key_filter)
next
  case (move_groups old new)
  then show ?thesis by (auto simp: move_groups_command_def split: if_splits)
next
  case (edit_group g)
  then show ?thesis using document_okD(3) [OF ok] by (auto simp: edit_group_command_def split: option.splits)
next
  case (delete_nodes selected)
  then show ?thesis using selected_recorded [OF ok] by (simp add: delete_nodes_command_def Let_def)
next
  case (move_nodes old new)
  then show ?thesis by (fastforce simp: move_nodes_command_def split: if_splits)
next
  case (set_parameter i p v)
  then obtain n where n: "fmlookup (g_nodes d) i = Some n"
    and c: "c = SetParameterCommand i p n (n\<lparr>parameters := fmupd p v (parameters n)\<rparr>)"
    by (auto simp: set_parameter_command_def split: option.splits)
  from document_okD(1) [OF ok n] n c show ?thesis by simp
next
  case (set_preview i visible)
  then obtain x where x: "fmlookup (g_connections d) i = Some x"
    and c: "c = SetConnectionPreviewCommand i (raw_preview x) (LBool visible)"
    by (auto simp: set_connection_preview_command_def split: option.splits)
  have "fmlookup (conn_ui_state x) preview_visible_key = raw_preview x"
    using whole x unfolding c by (auto simp: raw_preview_def split: option.split literal.split)
  with x c show ?thesis by simp
next
  case (randomize_parameters nodes)
  then obtain olds where m: "list_all2 (\<lambda>n old. fmlookup (g_nodes d) (node_id n) = Some old) (sorted_values nodes) olds"
    and c: "c = RandomizeParametersCommand (sorted_values nodes) olds"
    by (auto simp: randomize_parameters_command_def bind_res_eq_Inr dest!: mapM_nodes)
  have ids: "map node_id (sorted_values nodes) = map node_id olds"
    using m by (induction rule: list_all2_induct) (simp_all add: document_okD(1) [OF ok])
  moreover have "distinct (map node_id (sorted_values nodes))"
    using randomize_parameters(2) by (simp add: distinct_sorted_values)
  moreover have "\<forall>n \<in> set olds. dm_nodes (document_map_of d) (node_id n) = Some (norm_node n)"
    using m by (induction rule: list_all2_induct) (simp_all add: document_okD(1) [OF ok])
  ultimately show ?thesis using c by simp
next
  case (randomize_nodes selected nodes connections)
  then have l: "length (selected_nodes d selected) = card selected"
    and c: "c = RandomizeNodesCommand (selected_nodes d selected) (incident_connections d selected)
      (sorted_values nodes) connections"
    by (simp_all add: randomize_nodes_command_def split: if_splits)
  from selected_all [OF ok l randomize_nodes(2)] selected_recorded [OF ok, of selected] c randomize_nodes(3)
  show ?thesis by auto
next
  case (relink_media p media i)
  then obtain n n' where n: "fmlookup (g_nodes d) i = Some n" "relinked_media_node p media n = Inr n'"
    and c: "c = RelinkMediaCommand n n'"
    by (auto simp: relink_media_command_def bind_res_eq_Inr split: option.splits)
  from n(2) have "node_id n' = node_id n"
    by (auto simp: relinked_media_node_def bind_res_eq_Inr split: option.splits)
  with document_okD(1) [OF ok n(1)] n(1) c show ?thesis by simp
next
  case (add_connection uuid5 registry x)
  then show ?thesis
    by (auto simp: add_connection_command_def bind_res_eq_Inr incoming_None_iff split: if_splits)
next
  case (replace_connection uuid5 registry x)
  then have c: "c = ReplaceConnectionCommand x (incoming_connection d (destination_node x) (destination_port x))"
    by (auto simp: replace_connection_command_def bind_res_eq_Inr)
  let ?E = "enters (destination_node x) (destination_port x)"
  have "\<exists>r. incoming_connection d (destination_node x) (destination_port x) = Some r \<and> conn_id r = k"
    if h: "dm_connections (document_map_of d) k = Some e" "?E e" for k e
  proof -
    obtain y where y: "fmlookup (g_connections d) k = Some y" "?E y" using h by auto
    then obtain r where r: "incoming_connection d (destination_node x) (destination_port x) = Some r"
      using incoming_None_iff [of d] by fastforce
    from incoming_Some [OF this] obtain j where j: "fmlookup (g_connections d) j = Some r" "?E r" by blast
    have "k = j" using whole y j unfolding c restorable.simps by blast
    with r document_okD(2) [OF ok j(1)] show ?thesis by simp
  qed
  moreover have "dm_connections (document_map_of d) (conn_id r) = Some (norm_conn r) \<and> ?E r"
    if "incoming_connection d (destination_node x) (destination_port x) = Some r" for r
    using incoming_Some [OF that] document_okD(2) [OF ok] by fastforce
  ultimately show ?thesis using c by simp
next
  case (remove_connection i)
  then show ?thesis
    using document_okD(2) [OF ok] by (auto simp: remove_connection_command_def split: option.splits)
next
  case (paste ns cs version f)
  then show ?thesis
    by (auto simp: paste_command_def fragment_init_def list_ex_iff split: if_splits)
qed simp_all

section \<open>Steps between documents\<close>

fun goes :: "command list \<Rightarrow> document_map \<Rightarrow> document_map \<Rightarrow> bool" where
  "goes [] x y = (x = y)"
| "goes (c # cs) x y = (fits c x \<and> (\<exists>m. map_edits (redo_edits c) x = Some m \<and> goes cs m y))"

lemma goes_snoc:
  "goes (cs @ [c]) x z \<longleftrightarrow> (\<exists>y. goes cs x y \<and> fits c y \<and> map_edits (redo_edits c) y = Some z)"
  by (induction cs arbitrary: x) auto

lemma goes_ok: "goes cs x y \<Longrightarrow> map_ok x \<Longrightarrow> map_ok y"
  by (induction cs arbitrary: x) (auto dest: redo_ok)

lemma goes_redo: "goes cs x y \<Longrightarrow> map_edits (concat (map redo_edits cs)) x = Some y"
  by (induction cs arbitrary: x) auto

lemma goes_undo: "goes cs x y \<Longrightarrow> map_ok x \<Longrightarrow> map_edits (concat (map undo_edits (rev cs))) y = Some x"
proof (induction cs arbitrary: x)
  case (Cons c cs)
  then obtain m where m: "fits c x" "map_edits (redo_edits c) x = Some m" "goes cs m y" by auto
  have "map_edits (concat (map undo_edits (rev cs))) y = Some m"
    by (rule Cons.IH [OF m(3) redo_ok [OF Cons.prems(2) m(1,2)]])
  with undo_exact [OF Cons.prems(2) m(1,2)] show ?case by simp
qed simp

lemma redo_edits_done: "redo c d = (d', None) \<Longrightarrow> map_edits (redo_edits c) (document_map_of d) = Some (document_map_of d')"
  by (simp add: redo_def run_edits_done)

lemma performed_goes:
  "performed d cs d' \<Longrightarrow> map_ok (document_map_of d) \<Longrightarrow> goes cs (document_map_of d) (document_map_of d')"
proof (induction rule: performed.induct)
  case (another d cs d' c d'')
  then have g: "goes cs (document_map_of d) (document_map_of d')" by simp
  with another created_fits [OF another.hyps(2,3) goes_ok [OF g]] redo_edits_done [OF another.hyps(4)]
  show ?case by (auto simp: goes_snoc)
next
  case (merged d cs c d' c' d'' m)
  then have g: "goes (cs @ [c]) (document_map_of d) (document_map_of d')" by simp
  then obtain y where y: "goes cs (document_map_of d) y" "fits c y" "map_edits (redo_edits c) y = Some (document_map_of d')"
    by (auto simp: goes_snoc)
  have "map_ok y" using goes_ok [OF y(1)] merged.prems by simp
  from merged_exact [OF this y(2,3) created_fits [OF merged.hyps(2,3) goes_ok [OF g merged.prems]]
      redo_edits_done [OF merged.hyps(4)] merged.hyps(5)] y(1)
  show ?case by (auto simp: goes_snoc)
qed simp

section \<open>Histories\<close>

text \<open>
  How the undo stack calls the commands: a new step performs its commands on the document and
  forgets what was undone, or is merged into the single command on top; undo and redo take the
  steps in turn; opening a document clears the stack (\<^verbatim>\<open>ui/session.py\<close>).
\<close>

record history =
  hs_document :: graph_document
  hs_done :: "command list list"
  hs_undone :: "command list list"

datatype action =
    Edited document_map
  | Merged document_map
  | Undone "py_error option"
  | Redone "py_error option"
  | Opened document_map

inductive history_step :: "history \<Rightarrow> action \<Rightarrow> history \<Rightarrow> bool" where
  push: "performed (hs_document h) cs d \<Longrightarrow>
    history_step h (Edited (document_map_of d)) (h\<lparr>hs_document := d, hs_done := cs # hs_done h, hs_undone := []\<rparr>)"
| merge: "hs_done h = [c] # past \<Longrightarrow> performed (hs_document h) [c'] d \<Longrightarrow> merge_with c c' = Some m \<Longrightarrow>
    history_step h (Merged (document_map_of d)) (h\<lparr>hs_document := d, hs_done := [m] # past, hs_undone := []\<rparr>)"
| undo: "hs_done h = cs # past \<Longrightarrow> undo_step cs (hs_document h) = (d, e) \<Longrightarrow>
    history_step h (Undone e) (h\<lparr>hs_document := d, hs_done := past, hs_undone := cs # hs_undone h\<rparr>)"
| redo: "hs_undone h = cs # future \<Longrightarrow> redo_step cs (hs_document h) = (d, e) \<Longrightarrow>
    history_step h (Redone e) (h\<lparr>hs_document := d, hs_done := cs # hs_done h, hs_undone := future\<rparr>)"
| open_document: "doc_ok d \<Longrightarrow> \<forall>g \<in> set (doc_groups d). group_constructed g \<Longrightarrow>
    history_step h (Opened (document_map_of d)) \<lparr>hs_document = d, hs_done = [], hs_undone = []\<rparr>"

inductive history_run :: "graph_document \<Rightarrow> action list \<Rightarrow> history \<Rightarrow> bool" where
  start: "history_run d [] \<lparr>hs_document = d, hs_done = [], hs_undone = []\<rparr>"
| step: "history_run d as h \<Longrightarrow> history_step h x h' \<Longrightarrow> history_run d (as @ [x]) h'"

inductive_cases history_stepE: "history_step h x h'"

subsection \<open>The specification\<close>

text \<open>A past, a present and a future.\<close>

record zipper =
  z_past :: "document_map list"
  z_now :: document_map
  z_future :: "document_map list"

fun zipper_act :: "action \<Rightarrow> zipper \<Rightarrow> zipper" where
  "zipper_act (Edited a) z = \<lparr>z_past = z_now z # z_past z, z_now = a, z_future = []\<rparr>"
| "zipper_act (Merged a) z = \<lparr>z_past = z_past z, z_now = a, z_future = []\<rparr>"
| "zipper_act (Undone e) z = (case z_past z of [] \<Rightarrow> z
     | p # ps \<Rightarrow> \<lparr>z_past = ps, z_now = p, z_future = z_now z # z_future z\<rparr>)"
| "zipper_act (Redone e) z = (case z_future z of [] \<Rightarrow> z
     | f # fs \<Rightarrow> \<lparr>z_past = z_now z # z_past z, z_now = f, z_future = fs\<rparr>)"
| "zipper_act (Opened a) z = \<lparr>z_past = [], z_now = a, z_future = []\<rparr>"

definition zipper_of :: "document_map \<Rightarrow> action list \<Rightarrow> zipper" where
  "zipper_of a as = fold zipper_act as \<lparr>z_past = [], z_now = a, z_future = []\<rparr>"

fun raises :: "action \<Rightarrow> bool" where
  "raises (Undone e) = (e \<noteq> None)"
| "raises (Redone e) = (e \<noteq> None)"
| "raises _ = False"

fun came :: "command list list \<Rightarrow> document_map list \<Rightarrow> document_map \<Rightarrow> bool" where
  "came [] ps a = (ps = [])"
| "came (cs # css) ps a = (\<exists>p qs. ps = p # qs \<and> map_ok p \<and> goes cs p a \<and> came css qs p)"

fun awaits :: "command list list \<Rightarrow> document_map list \<Rightarrow> document_map \<Rightarrow> bool" where
  "awaits [] fs a = (fs = [])"
| "awaits (cs # css) fs a = (\<exists>f qs. fs = f # qs \<and> goes cs a f \<and> awaits css qs f)"

definition tracks :: "zipper \<Rightarrow> history \<Rightarrow> bool" where
  "tracks z h \<longleftrightarrow> z_now z = document_map_of (hs_document h) \<and> map_ok (z_now z) \<and>
     came (hs_done h) (z_past z) (z_now z) \<and> awaits (hs_undone h) (z_future z) (z_now z)"

lemma opened_ok:
  assumes "doc_ok d" and "\<forall>g \<in> set (doc_groups d). group_constructed g"
  shows "map_ok (document_map_of d)"
  using assms by (auto simp: map_ok_def doc_ok_def nodes_ok_def connections_ok_def groups_ok_def doc_groups_iff
      fmlookup_dom_iff)

lemma tracks_step:
  assumes "history_step h x h'" and t: "tracks z h"
  shows "tracks (zipper_act x z) h' \<and> \<not> raises x"
proof -
  let ?N = "document_map_of (hs_document h)"
  have now: "z_now z = ?N" and ok: "map_ok ?N" and was: "came (hs_done h) (z_past z) ?N"
    and next_up: "awaits (hs_undone h) (z_future z) ?N"
    using t by (auto simp: tracks_def)
  show ?thesis
    using assms(1)
  proof cases
    case (push cs d)
    note g = performed_goes [OF push(3) ok]
    from goes_ok [OF g ok] g ok was now show ?thesis by (simp add: push(1,2) tracks_def)
  next
    case (merge c past c' d m)
    note g = performed_goes [OF merge(4) ok]
    obtain p ps where p: "z_past z = p # ps" "map_ok p" "goes [c] p ?N" "came past ps p"
      using was merge(3) by auto
    have "goes [m] p (document_map_of d)"
      using merged_exact [OF p(2) _ _ _ _ merge(5)] p(3) g by auto
    with goes_ok [OF g ok] p show ?thesis by (simp add: merge(1,2) tracks_def)
  next
    case (undo cs past d e)
    obtain p ps where p: "z_past z = p # ps" "map_ok p" "goes cs p ?N" "came past ps p"
      using was undo(3) by auto
    from run_edits_total [OF goes_undo [OF p(3,2)]] undo(4) have "e = None" "document_map_of d = p"
      by (auto simp: undo_step_def)
    with p next_up now show ?thesis by (simp add: undo(1,2) tracks_def)
  next
    case (redo cs future d e)
    obtain f fs where f: "z_future z = f # fs" "goes cs ?N f" "awaits future fs f"
      using next_up redo(3) by auto
    from run_edits_total [OF goes_redo [OF f(2)]] redo(4) have "e = None" "document_map_of d = f"
      by (auto simp: redo_step_def)
    with f ok was now goes_ok [OF f(2) ok] show ?thesis by (simp add: redo(1,2) tracks_def)
  next
    case (open_document d)
    then show ?thesis by (simp add: tracks_def opened_ok)
  qed
qed

lemma tracks_run:
  "history_run d as h \<Longrightarrow> map_ok (document_map_of d) \<Longrightarrow>
   tracks (zipper_of (document_map_of d) as) h \<and> \<not> list_ex raises as"
proof (induction rule: history_run.induct)
  case (start d)
  then show ?case by (simp add: tracks_def zipper_of_def)
next
  case (step d as h x h')
  then have t: "tracks (zipper_of (document_map_of d) as) h" "\<not> list_ex raises as" by simp_all
  from tracks_step [OF step.hyps(2) t(1)] t(2) show ?case by (simp add: zipper_of_def)
qed

end
