(* ===== verification/ClipboardFacts.thy ===== *)
theory ClipboardFacts
  imports CommandHistory
begin

text \<open>
  Copying, renaming and pasting: a remapped fragment is the original with new identifiers and
  shifted positions, and pasting it adds exactly that.
\<close>

section \<open>Renamed values\<close>

definition renamed_node :: "point \<Rightarrow> (uuid \<Rightarrow> uuid) \<Rightarrow> node_model \<Rightarrow> node_model" where
  "renamed_node offset r n = n\<lparr>node_id := r (node_id n),
     position := (float_plus (fst (position n)) (fst offset), float_plus (snd (position n)) (snd offset))\<rparr>"

definition renamed_connection :: "(uuid \<Rightarrow> uuid) \<Rightarrow> (uuid \<Rightarrow> uuid) \<Rightarrow> connection_model \<Rightarrow> connection_model" where
  "renamed_connection r q c = c\<lparr>conn_id := q (conn_id c), source_node := r (source_node c),
     destination_node := r (destination_node c)\<rparr>"

lemma renamed_simps [simp]:
  "node_id (renamed_node offset r n) = r (node_id n)"
  "conn_id (renamed_connection r q c) = q (conn_id c)"
  "source_node (renamed_connection r q c) = r (source_node c)"
  "destination_node (renamed_connection r q c) = r (destination_node c)"
  by (simp_all add: renamed_node_def renamed_connection_def)

lemma renamed_ids:
  "node_id ` set (map (renamed_node offset r) (sort_key k ns)) = r ` node_id ` set ns"
  by (simp add: image_image)

text \<open>The value paired with a key.\<close>

definition paired :: "'k list \<Rightarrow> 'v list \<Rightarrow> 'k \<Rightarrow> 'v" where
  "paired ks vs k = the (map_of (zip ks vs) k)"

lemma paired_nth:
  "distinct ks \<Longrightarrow> length ks = length vs \<Longrightarrow> j < length ks \<Longrightarrow> paired ks vs (ks ! j) = vs ! j"
  by (simp add: paired_def map_of_zip_nth)

lemma paired_inj:
  assumes "distinct ks" and "distinct vs" and "length ks = length vs"
  shows "inj_on (paired ks vs) (set ks)"
proof (rule inj_onI)
  fix x y assume "x \<in> set ks" "y \<in> set ks" and e: "paired ks vs x = paired ks vs y"
  then obtain i j where i: "i < length ks" "x = ks ! i" and j: "j < length ks" "y = ks ! j"
    by (metis in_set_conv_nth)
  with e assms(2,3) have "i = j" by (simp add: paired_nth [OF assms(1,3)] nth_eq_iff_index_eq)
  with i j show "x = y" by simp
qed

lemma paired_in: "distinct ks \<Longrightarrow> length ks = length vs \<Longrightarrow> k \<in> set ks \<Longrightarrow> paired ks vs k \<in> set vs"
  by (metis in_set_conv_nth paired_nth)

lemma dict_of_pairs_get:
  assumes "distinct (map fst ps)"
  shows "dict_get (dict_of_pairs ps) k = map_of ps k"
proof -
  have "dict_get (fold (\<lambda>(k, v). AList.update k v) ps d) k = (map_of d ++ map_of ps) k" for d
    using assms
  proof (induction ps arbitrary: d)
    case (Cons p ps)
    obtain a b where p: "p = (a, b)" by fastforce
    then have "map_of ps a = None" using Cons.prems by (simp add: map_of_eq_None_iff)
    with Cons p show ?case by (auto simp: update_conv' map_add_def split: option.split)
  qed simp
  then show ?thesis by (simp add: dict_of_pairs_def)
qed

lemma paired_get:
  assumes "distinct ks" and "length ks = length vs" and "k \<in> set ks"
  shows "dict_get (dict_of_pairs (zip ks vs)) k = Some (paired ks vs k)"
proof -
  obtain j where "j < length ks" "k = ks ! j" using assms(3) by (metis in_set_conv_nth)
  with assms(1,2) show ?thesis by (simp add: dict_of_pairs_get map_of_zip_nth paired_nth)
qed

section \<open>Remapping\<close>

lemma fragment_init_iff:
  "fragment_init ns cs v = Inr f \<longleftrightarrow> v = 2 \<and> distinct (map node_id ns) \<and> distinct (map conn_id cs) \<and>
     (\<forall>c \<in> set cs. source_node c \<in> node_id ` set ns \<and> destination_node c \<in> node_id ` set ns) \<and>
     f = \<lparr>fr_nodes = ns, fr_connections = cs, fr_version = v\<rparr>"
proof -
  have "card (node_id ` set ns) = length ns \<longleftrightarrow> distinct (map node_id ns)"
    using distinct_card [of "map node_id ns"] card_distinct [of "map node_id ns"] by auto
  moreover have "card (conn_id ` set cs) = length cs \<longleftrightarrow> distinct (map conn_id cs)"
    using distinct_card [of "map conn_id cs"] card_distinct [of "map conn_id cs"] by auto
  ultimately show ?thesis by (auto simp: fragment_init_def list_ex_iff)
qed

lemma remap_nodes:
  assumes "distinct (map node_id ns)" and "length is = length ns"
    and "\<forall>n \<in> set ns. 1 \<le> implementation_version n"
  shows "mapM (\<lambda>n. case dict_get (dict_of_pairs (zip (map node_id ns) is)) (node_id n) of
      None \<Rightarrow> Inl (KeyError (Msg ''{}'' [ArgId (node_id n)]))
    | Some i \<Rightarrow> remap_node offset i n) ns = Inr (map (renamed_node offset (paired (map node_id ns) is)) ns)"
proof -
  have "dict_get (dict_of_pairs (zip (map node_id ns) is)) (node_id n) = Some (paired (map node_id ns) is (node_id n))"
    if "n \<in> set ns" for n
    using assms(1,2) that by (simp add: paired_get)
  then show ?thesis
    using assms(3) by (auto simp: mapM_eq_Inr list_all2_map2 remap_node_def node_model_init_def renamed_node_def
        intro!: list.rel_refl_strong)
qed

lemma remap_connections:
  assumes "distinct (map conn_id cs)" and "length is = length cs"
    and "\<forall>c \<in> set cs. dict_get ids (source_node c) = Some (r (source_node c)) \<and>
      dict_get ids (destination_node c) = Some (r (destination_node c))"
  shows "mapM (\<lambda>(i, c). remap_connection ids i c) (zip is cs) =
    Inr (map (renamed_connection r (paired (map conn_id cs) is)) cs)"
proof -
  have "remap_connection ids (is ! j) (cs ! j) = Inr (renamed_connection r (paired (map conn_id cs) is) (cs ! j))"
    if "j < length cs" for j
    using that assms paired_nth [OF assms(1), of "is" j]
    by (simp add: remap_connection_def renamed_connection_def)
  then show ?thesis
    using assms(2) by (simp add: mapM_eq_Inr list_all2_conv_all_nth)
qed

lemma remapped:
  assumes f: "fragment_init ns cs v = Inr f" and vers: "\<forall>n \<in> set ns. 1 \<le> implementation_version n"
    and inj: "inj_on fresh {..<length ns + length cs}"
  shows "\<exists>f' r q. remap_fragment f offset fresh = Inr f' \<and>
    inj_on r (node_id ` set ns) \<and> inj_on q (conn_id ` set cs) \<and>
    r ` node_id ` set ns \<union> q ` conn_id ` set cs \<subseteq> fresh ` {..<length ns + length cs} \<and>
    fr_nodes f' = map (renamed_node offset r) (sort_key node_id ns) \<and>
    fr_connections f' = map (renamed_connection r q) (sort_key conn_id cs) \<and>
    fragment_init (fr_nodes f') (fr_connections f') 2 = Inr f'"
proof -
  let ?ns = "sort_key node_id ns" and ?cs = "sort_key conn_id cs"
  let ?is = "map fresh [0..<length ?ns]" and ?js = "map fresh [length ?ns..<length ?ns + length ?cs]"
  let ?r = "paired (map node_id ?ns) ?is" and ?q = "paired (map conn_id ?cs) ?js"
  have d: "distinct (map node_id ns)" "distinct (map conn_id cs)"
    and inner: "\<forall>c \<in> set cs. source_node c \<in> node_id ` set ns \<and> destination_node c \<in> node_id ` set ns"
    and ff: "f = \<lparr>fr_nodes = ns, fr_connections = cs, fr_version = v\<rparr>"
    using f by (simp_all add: fragment_init_iff)
  have dn: "distinct (map node_id ?ns)" and dc: "distinct (map conn_id ?cs)"
    using d by (simp_all add: distinct_map)
  have fi: "distinct ?is" "distinct ?js" using inj by (auto simp: distinct_map inj_on_def)
  have ri: "inj_on ?r (node_id ` set ns)" using paired_inj [OF dn fi(1)] by simp
  have qi: "inj_on ?q (conn_id ` set cs)" using paired_inj [OF dc fi(2)] by simp
  have rin: "?r i \<in> fresh ` {..<length ns + length cs}" if "i \<in> node_id ` set ns" for i
    using paired_in [OF dn, of ?is i] that by auto
  have qin: "?q i \<in> fresh ` {..<length ns + length cs}" if "i \<in> conn_id ` set cs" for i
    using paired_in [OF dc, of ?js i] that by auto
  let ?f = "\<lparr>fr_nodes = map (renamed_node offset ?r) ?ns, fr_connections = map (renamed_connection ?r ?q) ?cs,
    fr_version = 2\<rparr>"
  have "distinct (map node_id (map (renamed_node offset ?r) ?ns))"
    using dn ri by (simp add: distinct_map inj_on_def)
  moreover have "distinct (map conn_id (map (renamed_connection ?r ?q) ?cs))"
    using dc qi by (simp add: distinct_map inj_on_def)
  ultimately have init: "fragment_init (fr_nodes ?f) (fr_connections ?f) 2 = Inr ?f"
    using inner unfolding fragment_init_iff clipboard_fragment.select_convs renamed_ids by auto
  have "mapM (\<lambda>(i, c). remap_connection (dict_of_pairs (zip (map node_id ?ns) ?is)) i c) (zip ?js ?cs) =
      Inr (fr_connections ?f)"
    unfolding clipboard_fragment.select_convs
    by (rule remap_connections [OF dc]) (use inner in \<open>auto intro!: paired_get [OF dn]\<close>)
  moreover have "mapM (\<lambda>n. case dict_get (dict_of_pairs (zip (map node_id ?ns) ?is)) (node_id n) of
      None \<Rightarrow> Inl (KeyError (Msg ''{}'' [ArgId (node_id n)])) | Some i \<Rightarrow> remap_node offset i n) ?ns = Inr (fr_nodes ?f)"
    unfolding clipboard_fragment.select_convs
    by (rule remap_nodes [OF dn]) (use vers in simp_all)
  ultimately have "remap_fragment f offset fresh = Inr ?f"
    using init by (simp only: remap_fragment_def ff clipboard_fragment.select_convs Let_def bind_res_simps)
  with ri qi rin qin init show ?thesis
    by (intro exI [of _ ?f] exI [of _ ?r] exI [of _ ?q]) auto
qed

section \<open>Pasting\<close>

lemma pasted:
  assumes f: "fragment_init ns cs v = Inr f"
    and "\<forall>n \<in> set ns. fmlookup (g_nodes d) (node_id n) = None"
    and "\<forall>c \<in> set cs. fmlookup (g_connections d) (conn_id c) = None"
  shows "\<exists>d'. redo (paste_command f) d = (d', None) \<and>
    document_map_of d' = (document_map_of d)\<lparr>dm_nodes := dm_nodes (document_map_of d) ++ node_map ns,
      dm_connections := dm_connections (document_map_of d) ++ conn_map cs\<rparr>"
proof -
  let ?a = "document_map_of d"
  let ?b = "?a\<lparr>dm_nodes := dm_nodes ?a ++ node_map ns\<rparr>"
  have i: "distinct (map node_id ns)" "distinct (map conn_id cs)"
    "\<forall>c \<in> set cs. source_node c \<in> node_id ` set ns \<and> destination_node c \<in> node_id ` set ns"
    "f = \<lparr>fr_nodes = ns, fr_connections = cs, fr_version = v\<rparr>"
    using f by (simp_all add: fragment_init_iff)
  have "map_edits (restore_nodes ns) ?a = Some ?b"
    by (rule restore_nodes_fresh [OF i(1)]) (use assms(2) in simp)
  moreover have "map_edits (restore_connections cs) ?b =
      Some (?b\<lparr>dm_connections := dm_connections ?b ++ conn_map cs\<rparr>)"
  proof (rule restore_connections_fresh [OF i(2)])
    have "node_map ns j \<noteq> None" if "j \<in> node_id ` set ns" for j using that node_map_None [of ns j] by blast
    then show "\<forall>c \<in> set cs. dm_nodes ?b (source_node c) \<noteq> None \<and> dm_nodes ?b (destination_node c) \<noteq> None"
      using i(3) by (fastforce simp: map_add_def split: option.splits)
  qed (use assms(3) in simp)
  ultimately have "map_edits (redo_edits (paste_command f)) ?a =
      Some (?a\<lparr>dm_nodes := dm_nodes ?a ++ node_map ns, dm_connections := dm_connections ?a ++ conn_map cs\<rparr>)"
    by (simp add: paste_command_def i(4))
  from run_edits_total [OF this] show ?thesis by (simp add: redo_def)
qed

end
