(* ===== verification/CommandResults.thy ===== *)
theory CommandResults
  imports ClipboardFacts
begin

text \<open>
  What holds of editing: operations refine map updates, undoing and redoing a command is exact, and
  the undo stack is a zipper through the document's versions.
\<close>

text \<open>
  C24. Read as maps of nodes, connections and groups, a document changes under every operation
  exactly as the plain update of its maps, and the operation raises exactly where the update is
  undefined.
\<close>

theorem operations_refine_maps: "refines (apply_op op d) (map_op op (document_map_of d))"
  by (rule map_op_refines)



text \<open>
  C25. Pasting a fragment with fresh identifiers always succeeds and adds exactly a renamed copy:
  identifiers are mapped one to one, connections follow their nodes, positions are shifted by the
  offset, and everything that was in the document stays.
\<close>

theorem paste_adds_renamed_copy:
  assumes "fragment_init ns cs v = Inr f" and "\<forall>n \<in> set ns. 1 \<le> implementation_version n"
    and "inj_on fresh {..<length ns + length cs}"
    and "\<forall>j < length ns + length cs. fmlookup (g_nodes d) (fresh j) = None \<and> fmlookup (g_connections d) (fresh j) = None"
  shows "\<exists>f' r q d'. remap_fragment f offset fresh = Inr f' \<and>
    inj_on r (node_id ` set ns) \<and> inj_on q (conn_id ` set cs) \<and>
    fr_nodes f' = map (renamed_node offset r) (sort_key node_id ns) \<and>
    fr_connections f' = map (renamed_connection r q) (sort_key conn_id cs) \<and>
    redo (paste_command f') d = (d', None) \<and>
    document_map_of d' = (document_map_of d)
      \<lparr>dm_nodes := dm_nodes (document_map_of d) ++ node_map (fr_nodes f'),
       dm_connections := dm_connections (document_map_of d) ++ conn_map (fr_connections f')\<rparr> \<and>
    dom (dm_nodes (document_map_of d)) \<inter> node_id ` set (fr_nodes f') = {} \<and>
    dom (dm_connections (document_map_of d)) \<inter> conn_id ` set (fr_connections f') = {}"
proof -
  from remapped [OF assms(1-3), of offset] obtain f' r q where
    f': "remap_fragment f offset fresh = Inr f'" "inj_on r (node_id ` set ns)" "inj_on q (conn_id ` set cs)"
      "r ` node_id ` set ns \<union> q ` conn_id ` set cs \<subseteq> fresh ` {..<length ns + length cs}"
      "fr_nodes f' = map (renamed_node offset r) (sort_key node_id ns)"
      "fr_connections f' = map (renamed_connection r q) (sort_key conn_id cs)"
      "fragment_init (fr_nodes f') (fr_connections f') 2 = Inr f'"
    by blast
  have n: "\<forall>n \<in> set (fr_nodes f'). fmlookup (g_nodes d) (node_id n) = None"
  proof
    fix n assume "n \<in> set (fr_nodes f')"
    then have "node_id n \<in> r ` node_id ` set ns" unfolding f'(5) by auto
    with f'(4) have "node_id n \<in> fresh ` {..<length ns + length cs}" by blast
    with assms(4) show "fmlookup (g_nodes d) (node_id n) = None" by (elim imageE) simp
  qed
  have c: "\<forall>c \<in> set (fr_connections f'). fmlookup (g_connections d) (conn_id c) = None"
  proof
    fix c assume "c \<in> set (fr_connections f')"
    then have "conn_id c \<in> q ` conn_id ` set cs" unfolding f'(6) by auto
    with f'(4) have "conn_id c \<in> fresh ` {..<length ns + length cs}" by blast
    with assms(4) show "fmlookup (g_connections d) (conn_id c) = None" by (elim imageE) simp
  qed
  from pasted [OF f'(7) n c] obtain d' where d': "redo (paste_command f') d = (d', None)"
    "document_map_of d' = (document_map_of d)
      \<lparr>dm_nodes := dm_nodes (document_map_of d) ++ node_map (fr_nodes f'),
       dm_connections := dm_connections (document_map_of d) ++ conn_map (fr_connections f')\<rparr>" by blast
  moreover have "dom (dm_nodes (document_map_of d)) \<inter> node_id ` set (fr_nodes f') = {}" using n by auto
  moreover have "dom (dm_connections (document_map_of d)) \<inter> conn_id ` set (fr_connections f') = {}" using c by auto
  ultimately show ?thesis using f' by blast
qed

section \<open>What undo does not restore\<close>

text \<open>A stored \<open>None\<close> is read as an absent key and is gone after undo.\<close>

lemma stored_none_is_lost:
  assumes "set_connection_preview_command d i visible = Inr c" and "fmlookup (g_connections d) i = Some x"
    and "fmlookup (conn_ui_state x) preview_visible_key = Some LNone"
    and "redo c d = (d1, None)" and "undo c d1 = (d2, None)"
  shows "\<exists>y. fmlookup (g_connections d2) i = Some y \<and> fmlookup (conn_ui_state y) preview_visible_key = None"
proof -
  have c: "c = SetConnectionPreviewCommand i None (LBool visible)"
    using assms(1-3) by (simp add: set_connection_preview_command_def raw_preview_def)
  from assms(5) c have "remove_connection_ui_state_key i preview_visible_key d1 = Inr d2"
    by (simp add: undo_def set_preview_def split: sum.splits)
  then show ?thesis
    by (auto simp: remove_connection_ui_state_key_def bind_res_eq_Inr require_connection_def touch_def fmdom_notD
        dest: arg_cong [of _ _ revision] split: if_splits option.splits)
qed

lemma restored_other:
  "restored_connection r False a = Some b \<Longrightarrow> j \<noteq> conn_id r \<Longrightarrow> dm_connections b j = dm_connections a j"
  by (auto simp: restored_connection_def Let_def split: option.splits if_splits)

lemma undo_replacement_other:
  assumes "map_edits (undo_edits (ReplaceConnectionCommand x q)) a = Some b" and "j \<noteq> conn_id x"
    and "\<And>r. q = Some r \<Longrightarrow> j \<noteq> conn_id r"
  shows "dm_connections b j = dm_connections a j"
proof -
  let ?m = "a\<lparr>dm_connections := (dm_connections a)(conn_id x := None)\<rparr>"
  have m: "map_edits (restore_connections (case q of None \<Rightarrow> [] | Some r \<Rightarrow> [r])) ?m = Some b"
    using assms(1) by (simp split: if_splits)
  have "dm_connections b j = dm_connections ?m j"
  proof (cases q)
    case (Some r)
    then have "restored_connection r False ?m = Some b"
      using m by (cases "restored_connection r False ?m") simp_all
    from restored_other [OF this] assms(3) [OF Some] show ?thesis by simp
  qed (use m in auto)
  with assms(2) show ?thesis by simp
qed

text \<open>
  A document read from a file may have two connections into one input; replacing them removes
  both and undoing restores one.
\<close>

lemma replacement_undo_loses_duplicates:
  assumes "replace_connection_command uuid5 registry d x = Inr c" and ok: "doc_ok d"
    and "\<forall>g \<in> set (doc_groups d). group_constructed g"
    and fresh: "fmlookup (g_connections d) (conn_id x) = None"
    and k: "fmlookup (g_connections d) k = Some e" "enters (destination_node x) (destination_port x) e"
    and l: "fmlookup (g_connections d) l = Some f" "enters (destination_node x) (destination_port x) f" and "k \<noteq> l"
    and "redo c d = (d1, None)" and "undo c d1 = (d2, None)"
  shows "fmlookup (g_connections d2) k = None \<or> fmlookup (g_connections d2) l = None"
proof -
  let ?E = "enters (destination_node x) (destination_port x)" and ?a = "document_map_of d"
  have ok: "map_ok ?a" by (rule opened_ok [OF ok assms(3)])
  obtain q where c: "c = ReplaceConnectionCommand x q"
    using assms(1) by (auto simp: replace_connection_command_def bind_res_eq_Inr)
  have b: "dm_connections (document_map_of d1) = (vacate (destination_node x) (destination_port x) (dm_connections ?a))
      (conn_id x \<mapsto> norm_conn x)"
    using redo_edits_done [OF assms(10)] fresh c
    by (cases "restored_connection x True ?a") (auto simp: restored_connection_def Let_def split: if_splits dest: arg_cong [of _ _ dm_connections])
  have gone: "dm_connections (document_map_of d1) j = None"
    if "fmlookup (g_connections d) j = Some y" "?E y" for j y
  proof -
    have "j \<noteq> conn_id x" using that fresh by auto
    with that show ?thesis unfolding b by (simp add: vacate_def)
  qed
  have u: "map_edits (undo_edits c) (document_map_of d1) = Some (document_map_of d2)"
    using assms(11) by (simp add: undo_def run_edits_done)
  have same: "dm_connections (document_map_of d2) j = dm_connections (document_map_of d1) j"
    if "j \<noteq> conn_id x" "\<And>r. q = Some r \<Longrightarrow> j \<noteq> conn_id r" for j
    by (rule undo_replacement_other [OF u [unfolded c] that])
  have "k \<noteq> conn_id x" "l \<noteq> conn_id x" using k l fresh by auto
  with same [of k] same [of l] gone [OF k] gone [OF l] \<open>k \<noteq> l\<close>
  show ?thesis by (cases q; cases "\<exists>r. q = Some r \<and> conn_id r = k") auto
qed

section \<open>Concrete edits\<close>









definition demo_fragment :: clipboard_fragment where
  "demo_fragment = \<lparr>fr_nodes = [\<lparr>node_id = 1, node_type_id = ''loop'', implementation_version = 1,
       parameters = fmempty, position = (Fin 0, Fin 0), node_size = None, user_label = None,
       collapsed = False, node_ui_state = fmempty\<rparr>],
     fr_connections = [\<lparr>conn_id = 7, source_node = 1, source_port = ''out'', destination_node = 1,
       destination_port = ''in'', conn_ui_state = fmempty\<rparr>], fr_version = 2\<rparr>"

theorem paste_adds_renamed_copy_witness:
  "\<exists>f' d' c i. remap_fragment demo_fragment (Fin 32, Fin 32) ((+) 10) = Inr f' \<and>
     redo (paste_command f') demo_document = (d', None) \<and> fr_connections f' = [c] \<and>
     fmlookup (g_nodes demo_document) (source_node c) = None \<and> destination_node c = source_node c \<and>
     i \<in> node_id ` set (fr_nodes f')"
proof -
  let ?ns = "fr_nodes demo_fragment" and ?cs = "fr_connections demo_fragment"
  have "fragment_init ?ns ?cs 2 = Inr demo_fragment"
    unfolding fragment_init_iff by (simp add: demo_fragment_def)
  moreover have "\<forall>n \<in> set ?ns. 1 \<le> implementation_version n" by (simp add: demo_fragment_def)
  moreover have "inj_on ((+) 10) {..<length ?ns + length ?cs}" by simp
  moreover have "\<forall>j < length ?ns + length ?cs. fmlookup (g_nodes demo_document) (10 + j) = None \<and>
      fmlookup (g_connections demo_document) (10 + j) = None"
    by (simp add: demo_document_def)
  ultimately obtain f' r q d' where
    f': "remap_fragment demo_fragment (Fin 32, Fin 32) ((+) 10) = Inr f'"
      "fr_nodes f' = map (renamed_node (Fin 32, Fin 32) r) (sort_key node_id ?ns)"
      "fr_connections f' = map (renamed_connection r q) (sort_key conn_id ?cs)"
      "redo (paste_command f') demo_document = (d', None)"
      "dom (dm_nodes (document_map_of demo_document)) \<inter> node_id ` set (fr_nodes f') = {}"
    using paste_adds_renamed_copy [of ?ns ?cs 2 demo_fragment "(+) 10" demo_document "(Fin 32, Fin 32)"] by blast
  let ?c = "hd (fr_connections f')"
  have "r 1 \<in> node_id ` set (fr_nodes f')" "fr_connections f' = [?c]" "source_node ?c = r 1" "destination_node ?c = r 1"
    by (simp_all add: f'(2,3) demo_fragment_def)
  moreover have "fmlookup (g_nodes demo_document) (r 1) = None"
  proof -
    have "r 1 \<notin> dom (dm_nodes (document_map_of demo_document))" using calculation(1) f'(5) by blast
    then show ?thesis by (simp add: domIff)
  qed
  ultimately show ?thesis using f'(1,4) by metis
qed

end
