(* ===== verification/Spec2Isabelle.thy ===== *)
theory Spec2Isabelle
  imports Smf OutputSteps CompilerResults EngineResults CommandResults
begin

text \<open>
  Synesthesia Machine turns images into sound: the user wires a graph of nodes (cameras, image
  operations, analyses, MIDI outputs), the graph is compiled into an execution plan, and an engine
  evaluates the plan once per frame and sends the resulting MIDI state to a port. This library
  models the parts of \<^verbatim>\<open>src/src/synesthesia_machine\<close> that decide what is executed and
  what is sent; paths below are relative to that directory.

  \<^bold>\<open>How the parts interact.\<close> The user interface edits a graph document (\<open>GraphModel\<close>) through
  commands it can undo (\<open>Commands\<close>); the document's nodes are
  instances of registered definitions (\<open>NodeBase\<close>). A snapshot of the document goes to the compiler
  (\<open>Compiler\<close>), which uses the registry, the type-variable groups (\<open>TypeGroups\<close>) and the graph
  traversals (\<open>Topology\<close>) and produces an execution plan (\<open>ExecutionPlan\<close>). The engine facade
  (\<open>EngineFacade\<close>) prepares a frame scheduler (\<open>Scheduler\<close>) for the plan, which takes over the runtimes
  whose state survives, and evaluates it once per tick. The MIDI states the plan computes (\<open>Values\<close>) are published to the output service (\<open>OutputService\<close>), whose sender
  thread reconciles the port with them, by the difference of states of \<open>MidiState\<close>. A recording of
  the messages is written as a MIDI file (\<open>Smf\<close>).

  \<^bold>\<open>Theories and sources.\<close>
  \<^item> \<open>Prelude\<close>: the result type \<open>res\<close> (every \<^verbatim>\<open>raise\<close> is an \<open>Inl\<close> with the exception's class and
    message), Python dictionaries as association lists \<open>dict\<close> that keep insertion order, and the
    monadic folds the stages of the code become.
  \<^item> \<open>Identifiers\<close> (\<^verbatim>\<open>nodes/base.py\<close>): identifier patterns; the text of UUIDs and numerals orders
    as their value, so the code's \<^verbatim>\<open>key=str\<close> sorts are sorts of the identifiers.
  \<^item> \<open>Float64\<close>: binary64 numbers as reals with infinities and NaN and a rounding function; the
    locale \<open>float_rounding\<close> states what the proofs use of rounding and is interpreted on it.
  \<^item> \<open>Values\<close> (\<^verbatim>\<open>contracts/runtime_values.py\<close>): the value records that travel along connections,
    with their constructor checks. Pixel arrays are shapes with flags.
  \<^item> \<open>MidiState\<close> (\<^verbatim>\<open>midi/state_diff.py\<close>, \<^verbatim>\<open>midi/state_ordering.py\<close>): difference of two states,
    the panic watermark.
  \<^item> \<open>OutputService\<close>, \<open>OutputSafety\<close>, \<open>OutputSteps\<close> (\<^verbatim>\<open>midi/output_service.py\<close>): the service
    record, its public operations and the sender loop; the messages they send and what a receiver
    hears; the interleavings of the threads as a step relation with reachable states. The backend
    is a parameter: any opening or sending may fail.
  \<^item> \<open>Smf\<close> (\<^verbatim>\<open>midi/smf.py\<close>): the encoder to bytes, and a player of such bytes as specification.
  \<^item> \<open>GraphModel\<close> (\<^verbatim>\<open>graph/model.py\<close>, wire records of \<^verbatim>\<open>contracts/engine_messages.py\<close>): document,
    snapshot, payload, and every mutating operation.
  \<^item> \<open>NodeBase\<close>, \<open>NodeFacts\<close> (\<^verbatim>\<open>nodes/base.py\<close>, \<^verbatim>\<open>nodes/registry.py\<close>, \<^verbatim>\<open>nodes/migrations.py\<close>):
    contracts with their constructor, parameter validation and sanitising, variadic families,
    registry, payload migrations.
  \<^item> \<open>TypeGroups\<close>, \<open>Topology\<close>, \<open>Compiler\<close> (\<^verbatim>\<open>graph/compiler.py\<close>, \<^verbatim>\<open>contracts/validation.py\<close>) and
    \<open>ExecutionPlan\<close> (\<^verbatim>\<open>runtime/execution_plan.py\<close>): the union-find of type variables, Kahn's sort and
    the backward search, the validation pipeline stage by stage, plan construction, the reduction
    of an invalid graph, and compatibility queries.
  \<^item> \<open>CompilerFacts\<close>, \<open>CompilerTypes\<close>, \<open>CompilerPlans\<close>, \<open>CompilerResults\<close>: the proofs about the
    pipeline, in its order.

  \<^item> \<open>Scheduler\<close> (\<^verbatim>\<open>runtime/scheduler.py\<close>), \<open>EngineFacade\<close> (\<^verbatim>\<open>runtime/engine_facade.py\<close>): ticks
    with their caches, checks and error isolation, state reuse, life cycle and panics of runtimes,
    which are references into a world of mutable cells; runs of the engine as a step relation.
  \<^item> \<open>SchedulerFacts\<close>, \<open>SchedulerCache\<close>, \<open>EngineSafety\<close>, \<open>EngineReuse\<close>, \<open>EngineResults\<close>: typed values
    and the equations of a tick, a simulation between runs with and without the static cache, the
    ownership invariant, the account of reuse, and the properties; \<open>EngineStamps\<close>: invariants of
    runtime states and runtimes that record the generations they are run with; \<open>EngineDemo\<close> is the
    engine on which the properties are applied.

  \<^item> \<open>Commands\<close> (\<^verbatim>\<open>ui/commands/graph_commands.py\<close>, \<^verbatim>\<open>persistence/clipboard.py\<close>): the editing
    commands with their constructors, \<open>redo\<close>, \<open>undo\<close> and merging as sequences of document
    operations, and the fragments they paste. \<open>CommandFacts\<close> reads a document as plain maps, which
    its operations refine; \<open>CommandInverse\<close> and \<open>CommandUndo\<close> show on the maps that undoing is exact;
    \<open>CommandHistory\<close> lifts this to the undo stack, \<open>ClipboardFacts\<close> treats remapping and pasting,
    \<open>CommandResults\<close> holds the properties.

  \<^bold>\<open>What the lemmas show.\<close> For the output service: what is recorded as sent is what sounds, a
  panic silences until something new is published, staleness is permanent, and the one race through
  which a stale state can still sound. For the document: consistency and single occupation of
  inputs under every operation, round trips of snapshots and payloads, operations as updates of
  plain maps. For editing: undo and redo are exact, and the undo stack is a zipper of versions,
  except where two connections share an input or a visibility is stored as \<open>None\<close>; pasting adds
  exactly a renamed copy. For definitions: contracts
  are normalised, parameters seen by a node are valid, migrations reach their target. For the
  compiler: it always returns a plan; plans are ordered, well-typed and complete for valid graphs;
  clocks and demand are the graph-theoretic notions; shared baselines never change an answer. For
  the engine: ticks publish typed values that solve the equations of the plan, the static cache is
  invisible in the values where static runtimes are pure, runtimes are created and closed exactly once, state survives exactly where it may,
  the generations of panics separate those of ticks, and two exceptions reach further than they should. For the files: what is played when they are read back, exact for the rounded gaps, what rounding
  loses, and the gaps for which encoding fails.

  \<^bold>\<open>Termination and bounds.\<close> No model uses fuel except the sender loop, whose passes are separate
  steps of the relation. Kahn's loop and the search terminate by the number of waiting and
  unvisited nodes, the union-find by the size of its forest, the reduction loop because every pass
  removes a node or a connection, migration by the distance to the target version. Python integers
  are \<open>int\<close>, CPython's recursion limit is not modelled (the union-find recurses along chains of
  type variables), times of recordings are \<open>int\<close> microseconds or binary64 as in the code.

  \<^bold>\<open>Parameters of the model.\<close> Callables of node definitions (resolvers and validators of a
  contract), the runtimes of nodes (any behaviour, any method may raise), the MIDI backend, \<^verbatim>\<open>uuid4\<close> and \<^verbatim>\<open>uuid5\<close>, and the rendering of messages are arguments or
  uninterpreted data. The properties of the compiler assume of a registry that its contracts passed
  their constructor and that their type resolvers return a type for every declared port; the
  witnesses use a registry of three definitions for which this is proved.

  \<^bold>\<open>Not modelled.\<close> Process management, shared memory and pipes of the engine; media decoding and
  the numpy and OpenCV kernels of the nodes; Qt widgets; file I/O and logging. They are effects of
  libraries around the logic modelled here. Of \<^verbatim>\<open>QUndoStack\<close> only its documented discipline is
  used, as the step relation of \<open>CommandHistory\<close>; a push that raises is not part of it. Layout, scales,
  random graphs, JSON persistence and the export recorder are not modelled.
\<close>

end
